(* ===== verification/LRG_Prelude.thy ===== *)
theory LRG_Prelude
  imports Main "HOL-Library.Word"
begin

text \<open>
  Shared vocabulary of the development: the Go machine integers, panics as values, the result
  type of Go code that may panic and leaves a trace of calls to its collaborators, decimal
  printing (\<^verbatim>\<open>%d\<close>), a generic notion of reachable state with its invariant rule, and the
  lemma collections that the component theories fill.
\<close>

section \<open>Lemma collections\<close>

named_theorems go_simps \<open>equations that execute Go code step by step\<close>
named_theorems inv_intros \<open>preservation of component invariants\<close>

section \<open>Machine integers, durations, panics\<close>

text \<open>
  Go's \<^verbatim>\<open>int\<close> and \<^verbatim>\<open>uint\<close> are 64 bits wide on the supported platforms. Both are the same
  bit patterns: a conversion between them is the identity on \<open>64 word\<close>, and a signed
  comparison reads the word with \<open>sint\<close>.
\<close>

type_synonym go_int = "64 word"
type_synonym go_uint = "64 word"

lemma sint_eq_iff [simp]: "sint a = sint b \<longleftrightarrow> a = b"
  by (auto intro: signed_word_eqI)

text \<open>\<^verbatim>\<open>time.Duration\<close>, in nanoseconds.\<close>

type_synonym duration = int

definition millisecond :: duration where
  "millisecond = 1000000"

definition second :: duration where
  "second = 1000 * millisecond"

definition minute :: duration where
  "minute = 60 * second"

text \<open>Run-time panics of the Go code that the model can reach.\<close>

datatype panic =
    NilDereference
  | UnknownState
  | UnknownFamily
  | IndexOutOfRange
  | CloseOfClosedChannel
  | SendOnClosedChannel
  | NonPositiveInterval
  | NegativeWaitGroup
  | BadLevel

text \<open>What a goroutine is doing: a panic that nobody recovers ends the process.\<close>

datatype phase = Running | Returned | Panicked panic

section \<open>Errors, reporting and backoff\<close>

text \<open>An error of \<^verbatim>\<open>github.com/pkg/errors\<close>: a plain one, or one wrapped with a message.\<close>

datatype err = Plain string | Wrap err string

fun err_text :: "err \<Rightarrow> string" where
  "err_text (Plain s) = s"
| "err_text (Wrap e m) = m @ '': '' @ err_text e"


text \<open>The levels of the reporter's log.\<close>

datatype log_level = Debug | Info | Warn | Error

text \<open>The fields of \<^verbatim>\<open>backoff.ExponentialBackOff\<close> the program sets.\<close>

record backoff =
  InitialInterval :: duration
  MaxInterval :: duration
  MaxElapsedTime :: duration
  Multiplier :: nat


section \<open>Go code with panics and a trace of effects\<close>

text \<open>
  A run of a piece of Go code either panics or returns a value together with the calls it made
  to its collaborators (reporter, netlink library, tickers), in order.
\<close>

type_synonym ('e, 'a) go = "panic + ('a \<times> 'e list)"

definition go_return :: "'a \<Rightarrow> ('e, 'a) go" where
  "go_return a = Inr (a, [])"

definition go_emit :: "'e list \<Rightarrow> 'a \<Rightarrow> ('e, 'a) go" where
  "go_emit es a = Inr (a, es)"

definition go_panic :: "panic \<Rightarrow> ('e, 'a) go" where
  "go_panic p = Inl p"

definition go_bind :: "('e, 'a) go \<Rightarrow> ('a \<Rightarrow> ('e, 'b) go) \<Rightarrow> ('e, 'b) go" where
  "go_bind m f = (case m of Inl p \<Rightarrow> Inl p
     | Inr (a, es) \<Rightarrow> (case f a of Inl p \<Rightarrow> Inl p | Inr (b, fs) \<Rightarrow> Inr (b, es @ fs)))"

lemma go_bind_return [simp, go_simps]: "go_bind (go_return a) f = f a"
  by (simp add: go_bind_def go_return_def split: sum.splits)

lemma go_bind_panic [simp, go_simps]: "go_bind (go_panic p) f = go_panic p"
  by (simp add: go_bind_def go_panic_def)

lemma go_bind_Inl [simp, go_simps]: "go_bind (Inl p) f = Inl p"
  by (simp add: go_bind_def)

lemma go_bind_assoc: "go_bind (go_bind m f) g = go_bind m (\<lambda>x. go_bind (f x) g)"
  by (simp add: go_bind_def split: sum.splits prod.splits)

lemma go_bind_eq_Inr [go_simps]:
  "go_bind m f = Inr (b, es) \<longleftrightarrow>
     (\<exists>a xs ys. m = Inr (a, xs) \<and> f a = Inr (b, ys) \<and> es = xs @ ys)"
  by (auto simp: go_bind_def split: sum.splits)

lemma go_bind_eq_Inl [go_simps]:
  "go_bind m f = Inl p \<longleftrightarrow> m = Inl p \<or> (\<exists>a xs. m = Inr (a, xs) \<and> f a = Inl p)"
  by (auto simp: go_bind_def split: sum.splits)

lemma go_return_eq [simp, go_simps]:
  "go_return a = Inr (b, es) \<longleftrightarrow> a = b \<and> es = []" "go_return a \<noteq> Inl p"
  by (auto simp: go_return_def)

lemma go_emit_eq [simp, go_simps]:
  "go_emit fs a = Inr (b, es) \<longleftrightarrow> a = b \<and> es = fs" "go_emit fs a \<noteq> Inl p"
  by (auto simp: go_emit_def)

lemma go_panic_eq [simp, go_simps]:
  "go_panic p \<noteq> Inr x" "go_panic p = Inl q \<longleftrightarrow> p = q"
  by (auto simp: go_panic_def)

lemma go_bind_emit_emit [go_simps]:
  "go_bind (go_emit es a) (\<lambda>_. go_bind (go_emit fs b) f) = go_bind (go_emit (es @ fs) b) f"
  by (simp add: go_bind_def go_emit_def split: sum.splits)

lemma go_bind_emit_Inr [go_simps]:
  "go_bind (go_emit es a) (\<lambda>_. Inr (b, fs)) = Inr (b, es @ fs)"
  by (simp add: go_bind_def go_emit_def)

text \<open>The code runs to its end, and its result and trace satisfy a predicate.\<close>

definition go_ok :: "('e, 'a) go \<Rightarrow> ('a \<Rightarrow> 'e list \<Rightarrow> bool) \<Rightarrow> bool" where
  "go_ok m P \<longleftrightarrow> (\<exists>a es. m = Inr (a, es) \<and> P a es)"

lemma go_ok_simps [simp]:
  "go_ok (go_return a) P \<longleftrightarrow> P a []"
  "go_ok (go_emit es a) P \<longleftrightarrow> P a es"
  "go_ok (Inr (a, es)) P \<longleftrightarrow> P a es"
  "\<not> go_ok (go_panic p) P"
  "\<not> go_ok (Inl p) P"
  by (simp_all add: go_ok_def go_return_def go_emit_def go_panic_def)

lemma go_ok_bind [simp]:
  "go_ok (go_bind m f) P \<longleftrightarrow> go_ok m (\<lambda>a es. go_ok (f a) (\<lambda>b fs. P b (es @ fs)))"
  by (fastforce simp: go_ok_def go_bind_eq_Inr)

lemma go_ok_mono: "go_ok m P \<Longrightarrow> (\<And>a es. P a es \<Longrightarrow> Q a es) \<Longrightarrow> go_ok m Q"
  by (auto simp: go_ok_def)

lemma go_ok_conj: "go_ok m P \<Longrightarrow> go_ok m Q \<Longrightarrow> go_ok m (\<lambda>a es. P a es \<and> Q a es)"
  by (auto simp: go_ok_def)

lemma go_okD: "go_ok m P \<Longrightarrow> m = Inr (a, es) \<Longrightarrow> P a es"
  by (simp add: go_ok_def)

section \<open>Decimal printing\<close>

text \<open>\<^verbatim>\<open>fmt.Sprintf("%d", n)\<close> for an unsigned integer.\<close>

definition digit_char :: "nat \<Rightarrow> char" where
  "digit_char d = char_of (48 + d)"

fun show_nat :: "nat \<Rightarrow> string" where
  "show_nat n = (if n < 10 then [digit_char n] else show_nat (n div 10) @ [digit_char (n mod 10)])"

declare show_nat.simps [simp del]

definition is_digit :: "char \<Rightarrow> bool" where
  "is_digit c \<longleftrightarrow> 48 \<le> (of_char c :: nat) \<and> (of_char c :: nat) \<le> 57"

lemma is_digit_digit_char: "d < 10 \<Longrightarrow> is_digit (digit_char d)"
  by (simp add: is_digit_def digit_char_def)

lemma show_nat_digits: "\<forall>c \<in> set (show_nat n). is_digit c"
proof (induction n rule: show_nat.induct)
  case (1 n)
  then show ?case
    by (subst show_nat.simps) (auto simp: is_digit_digit_char)
qed

lemma show_nat_nonempty [simp]: "show_nat n \<noteq> []"
  by (subst show_nat.simps) simp

section \<open>Splitting strings\<close>

text \<open>\<^verbatim>\<open>strings.Split\<close> at a one-character separator: there is always at least one part.\<close>

fun split_on :: "char \<Rightarrow> string \<Rightarrow> string list" where
  "split_on sep [] = [[]]"
| "split_on sep (c # cs) =
     (if c = sep then [] # split_on sep cs
      else case split_on sep cs of [] \<Rightarrow> [[c]] | l # ls \<Rightarrow> (c # l) # ls)"

fun join_with :: "char \<Rightarrow> string list \<Rightarrow> string" where
  "join_with sep [] = []"
| "join_with sep [l] = l"
| "join_with sep (l # ls) = l @ sep # join_with sep ls"

lemma split_on_nonempty [simp]: "split_on sep s \<noteq> []"
  by (induction s) (auto split: list.splits)

lemma split_on_append:
  assumes "sep \<notin> set l"
  shows "split_on sep (l @ sep # s) = l # split_on sep s"
  using assms by (induction l) auto

lemma split_on_single: "sep \<notin> set l \<Longrightarrow> split_on sep l = [l]"
  by (induction l) auto

lemma split_on_no_sep: "l \<in> set (split_on sep s) \<Longrightarrow> sep \<notin> set l"
  by (induction s arbitrary: l) (auto split: if_splits list.splits)

lemma split_join:
  assumes "ls \<noteq> []" and "\<forall>l \<in> set ls. sep \<notin> set l"
  shows "split_on sep (join_with sep ls) = ls"
  using assms by (induction sep ls rule: join_with.induct) (simp_all add: split_on_append split_on_single)

text \<open>\<^verbatim>\<open>strings.HasPrefix\<close>.\<close>

definition has_prefix :: "string \<Rightarrow> string \<Rightarrow> bool" where
  "has_prefix p s \<longleftrightarrow> take (length p) s = p"

lemma has_prefix_append [simp]: "has_prefix p (p @ s)"
  by (simp add: has_prefix_def)

lemma map_filter_append: "List.map_filter f (xs @ ys) = List.map_filter f xs @ List.map_filter f ys"
  by (simp add: List.map_filter_def)

section \<open>Reachable states\<close>

text \<open>
  The states that a labelled step relation reaches from its initial states, and the contract of
  an inductive invariant: every component that runs as a loop interprets \<open>step_system\<close> with its
  own initial states, steps and invariant.
\<close>

inductive reach :: "('s \<Rightarrow> bool) \<Rightarrow> ('s \<Rightarrow> 'e \<Rightarrow> 's \<Rightarrow> bool) \<Rightarrow> 's \<Rightarrow> bool"
  for start :: "'s \<Rightarrow> bool" and step :: "'s \<Rightarrow> 'e \<Rightarrow> 's \<Rightarrow> bool" where
  reach_start: "start s \<Longrightarrow> reach start step s"
| reach_step: "reach start step s \<Longrightarrow> step s e t \<Longrightarrow> reach start step t"

locale step_system =
  fixes start :: "'s \<Rightarrow> bool"
    and step :: "'s \<Rightarrow> 'e \<Rightarrow> 's \<Rightarrow> bool"
    and inv :: "'s \<Rightarrow> bool"
  assumes inv_start: "start s \<Longrightarrow> inv s"
    and inv_step: "inv s \<Longrightarrow> step s e t \<Longrightarrow> inv t"
begin

lemma reach_inv: "reach start step s \<Longrightarrow> inv s"
  by (induction rule: reach.induct) (auto intro: inv_start inv_step)

lemma reach_inv_step: "reach start step s \<Longrightarrow> step s e t \<Longrightarrow> inv s \<and> inv t"
  by (blast intro: reach_inv reach_step)

end

text \<open>Finite executions with their events.\<close>

inductive execution :: "('s \<Rightarrow> 'e \<Rightarrow> 's \<Rightarrow> bool) \<Rightarrow> 's \<Rightarrow> 'e list \<Rightarrow> 's \<Rightarrow> bool"
  for step :: "'s \<Rightarrow> 'e \<Rightarrow> 's \<Rightarrow> bool" where
  execution_nil: "execution step s [] s"
| execution_snoc: "execution step s es t \<Longrightarrow> step t e u \<Longrightarrow> execution step s (es @ [e]) u"

lemma execution_reach: "execution step s es t \<Longrightarrow> start s \<Longrightarrow> reach start step t"
  by (induction rule: execution.induct) (auto intro: reach_start reach_step)

lemma execution_reach_from:
  "execution step s es t \<Longrightarrow> reach start step s \<Longrightarrow> reach start step t"
  by (induction rule: execution.induct) (auto intro: reach_step)

lemma execution_cons:
  assumes "step s e t" and "execution step t es u"
  shows "execution step s (e # es) u"
  using assms(2,1)
proof (induction rule: execution.induct)
  case (execution_nil s')
  have "execution step s ([] @ [e]) s'" by (rule execution.execution_snoc, rule execution.execution_nil, rule execution_nil)
  then show ?case by simp
next
  case (execution_snoc t es u e' v)
  then have "execution step s ((e # es) @ [e']) v" by (blast intro: execution.execution_snoc)
  then show ?case by simp
qed

lemma execution_append:
  assumes "execution step t fs u" and "execution step s es t"
  shows "execution step s (es @ fs) u"
  using assms
proof (induction rule: execution.induct)
  case (execution_nil t)
  then show ?case by simp
next
  case (execution_snoc t fs u e v)
  then have "execution step s ((es @ fs) @ [e]) v" by (blast intro: execution.execution_snoc)
  then show ?case by simp
qed

end
