(* ===== verification/Go_Net.thy ===== *)
theory Go_Net
  imports LRG_Prelude
begin

text \<open>
  The part of Go's \<^verbatim>\<open>net\<close> package that the program uses (addresses, masks, networks) and
  \<^verbatim>\<open>helpers.IPNetEqual\<close> of \<^verbatim>\<open>src/helpers/misc.go\<close>. An address and a mask are byte slices;
  \<^verbatim>\<open>nil\<close> is the empty slice, as the package treats it.
\<close>

unbundle bit_operations_syntax

section \<open>Addresses\<close>

type_synonym byte = "8 word"
type_synonym ip = "byte list"
type_synonym ip_mask = "byte list"

definition v4InV6Prefix :: "byte list" where
  "v4InV6Prefix = replicate 10 0 @ [0xff, 0xff]"

text \<open>\<^verbatim>\<open>IP.To4\<close>: the 4-byte form, when there is one.\<close>

definition ip_to4 :: "ip \<Rightarrow> ip option" where
  "ip_to4 a = (if length a = 4 then Some a
     else if length a = 16 \<and> take 12 a = v4InV6Prefix then Some (drop 12 a)
     else None)"

text \<open>\<^verbatim>\<open>IP.Equal\<close>: an IPv4 address and its IPv4-mapped IPv6 form are the same.\<close>

definition ip_equal :: "ip \<Rightarrow> ip \<Rightarrow> bool" where
  "ip_equal a x =
     (if length a = length x then a = x
      else if length a = 4 \<and> length x = 16 then take 12 x = v4InV6Prefix \<and> a = drop 12 x
      else if length a = 16 \<and> length x = 4 then take 12 a = v4InV6Prefix \<and> drop 12 a = x
      else False)"

text \<open>The representative of an address under \<^const>\<open>ip_equal\<close>.\<close>

definition ip_canon :: "ip \<Rightarrow> ip" where
  "ip_canon a = (case ip_to4 a of Some v \<Rightarrow> v | None \<Rightarrow> a)"

lemma length_v4InV6Prefix [simp]: "length v4InV6Prefix = 12"
  by (simp add: v4InV6Prefix_def)

lemma ip_to4_length: "ip_to4 a = Some v \<Longrightarrow> length v = 4"
  by (auto simp: ip_to4_def split: if_splits)

lemma ip_equal_canon: "ip_equal a b \<longleftrightarrow> ip_canon a = ip_canon b"
proof -
  have split: "take 12 a = take 12 b \<and> drop 12 a = drop 12 b \<Longrightarrow> a = b"
    by (metis append_take_drop_id)
  show ?thesis
    using split by (auto simp: ip_equal_def ip_canon_def ip_to4_def split: if_splits)
qed

section \<open>Masks\<close>

text \<open>
  The inner loop of \<^verbatim>\<open>simpleMaskLength\<close>: \<^verbatim>\<open>for v&0x80 != 0 { n++; v <<= 1 }\<close>. The byte gets
  smaller in each round, since the bit shifted out is set.
\<close>

lemma top_bit_iff: "(v :: byte) AND 0x80 \<noteq> 0 \<longleftrightarrow> 128 \<le> unat v"
proof -
  have "v AND 0x80 \<noteq> 0 \<longleftrightarrow> bit v 7"
    using and_exp_eq_0_iff_not_bit [of v 7] by simp
  also have "\<dots> \<longleftrightarrow> bit (unat v) 7"
    by (simp add: bit_unsigned_iff)
  also have "\<dots> \<longleftrightarrow> odd (unat v div 128)"
    by (simp add: bit_iff_odd)
  also have "\<dots> \<longleftrightarrow> 128 \<le> unat v"
  proof -
    have "unat v < 256" using unsigned_less [of v] by simp
    then have "unat v div 128 < 2" by (simp add: less_mult_imp_div_less)
    then have "unat v div 128 = 0 \<or> unat v div 128 = 1" by auto
    then show ?thesis by (auto simp: div_eq_0_iff)
  qed
  finally show ?thesis .
qed

lemma shift_smaller:
  fixes v :: byte
  assumes "v AND 0x80 \<noteq> 0"
  shows "unat (push_bit 1 v) < unat v"
proof -
  have v: "128 \<le> unat v" "unat v < 256"
    using assms unsigned_less [of v] by (simp_all add: top_bit_iff)
  have "unat (push_bit 1 v) = (2 * unat v) mod 256"
    by (simp add: unat_word_ariths push_bit_eq_mult mult.commute)
  also have "\<dots> = 2 * unat v - 256"
    using v by (simp add: mod_if)
  finally show ?thesis using v by simp
qed

function lead_ones :: "nat \<Rightarrow> byte \<Rightarrow> nat \<times> byte" where
  "lead_ones n v = (if v AND 0x80 \<noteq> 0 then lead_ones (Suc n) (push_bit 1 v) else (n, v))"
  by pat_completeness auto
termination
proof (relation "measure (\<lambda>(n, v). unat v)")
  fix n and v :: byte
  assume "v AND 0x80 \<noteq> 0"
  then show "((Suc n, push_bit 1 v), n, v) \<in> measure (\<lambda>(n, v). unat v)"
    using shift_smaller by simp
qed simp

declare lead_ones.simps [simp del]

text \<open>\<^verbatim>\<open>simpleMaskLength\<close>; its result \<^verbatim>\<open>-1\<close> (not a prefix mask) is \<open>None\<close>.\<close>

fun simple_mask_length :: "ip_mask \<Rightarrow> nat option" where
  "simple_mask_length [] = Some 0"
| "simple_mask_length (v # vs) =
     (if v = 0xff then map_option ((+) 8) (simple_mask_length vs)
      else let (n, w) = lead_ones 0 v
           in if w \<noteq> 0 then None
              else if list_all (\<lambda>x. x = 0) vs then Some n else None)"

text \<open>\<^verbatim>\<open>IPMask.Size\<close>.\<close>

definition mask_size :: "ip_mask \<Rightarrow> nat \<times> nat" where
  "mask_size m = (case simple_mask_length m of
      None \<Rightarrow> (0, 0) | Some n \<Rightarrow> (n, length m * 8))"

text \<open>The loop of \<^verbatim>\<open>CIDRMask\<close> over the bytes of the mask, and \<^verbatim>\<open>CIDRMask\<close> itself.\<close>

fun cidr_bytes :: "nat \<Rightarrow> nat \<Rightarrow> ip_mask" where
  "cidr_bytes 0 n = []"
| "cidr_bytes (Suc l) n =
     (if 8 \<le> n then 0xff # cidr_bytes l (n - 8)
      else NOT (drop_bit n 0xff) # cidr_bytes l 0)"

definition cidr_mask :: "nat \<Rightarrow> nat \<Rightarrow> ip_mask" where
  "cidr_mask n bits =
     (if bits \<noteq> 32 \<and> bits \<noteq> 128 then []
      else if bits < n then []
      else cidr_bytes (bits div 8) n)"

text \<open>\<^verbatim>\<open>IP.Mask\<close> on an address and a mask of the same length.\<close>

definition ip_and :: "ip \<Rightarrow> ip_mask \<Rightarrow> ip" where
  "ip_and a m = map2 (AND) a m"

section \<open>Networks\<close>

record ipnet =
  IP :: ip
  Mask :: ip_mask

text \<open>\<^verbatim>\<open>helpers.IPNetEqual\<close>.\<close>

definition IPNetEqual :: "ipnet \<Rightarrow> ipnet \<Rightarrow> bool" where
  "IPNetEqual ipn1 ipn2 =
     (let (m1, _) = mask_size (Mask ipn1); (m2, _) = mask_size (Mask ipn2)
      in m1 = m2 \<and> ip_equal (IP ipn1) (IP ipn2))"

lemma IPNetEqual_alt:
  "IPNetEqual a b \<longleftrightarrow>
     fst (mask_size (Mask a)) = fst (mask_size (Mask b)) \<and> ip_canon (IP a) = ip_canon (IP b)"
  by (simp add: IPNetEqual_def ip_equal_canon split: prod.splits)

lemma IPNetEqual_refl [simp, intro]: "IPNetEqual a a"
  by (simp add: IPNetEqual_alt)

lemma IPNetEqual_sym: "IPNetEqual a b \<Longrightarrow> IPNetEqual b a"
  by (simp add: IPNetEqual_alt)

lemma IPNetEqual_trans: "IPNetEqual a b \<Longrightarrow> IPNetEqual b c \<Longrightarrow> IPNetEqual a c"
  by (simp add: IPNetEqual_alt)

text \<open>
  A network as \<^verbatim>\<open>net.ParseCIDR\<close> returns it and as the kernel reports it: a 4- or 16-byte address,
  a prefix mask of the same length, and no address bit outside the mask.
\<close>

definition pure_net :: "ipnet \<Rightarrow> bool" where
  "pure_net n \<longleftrightarrow> length (IP n) \<in> {4, 16} \<and> length (Mask n) = length (IP n)
     \<and> simple_mask_length (Mask n) \<noteq> None \<and> ip_and (IP n) (Mask n) = IP n"

section \<open>Prefix masks\<close>

lemma byte_cases: "(\<forall>k \<in> set [0..<256]. P (word_of_nat k)) \<Longrightarrow> P (v :: byte)"
  using unsigned_less [of v] by (auto dest!: bspec [of _ _ "unat v"])

lemma lead_ones_all:
  "\<forall>k \<in> set [0..<256]. (let v = word_of_nat k :: byte; (n, w) = lead_ones 0 v
     in v \<noteq> 0xff \<and> w = 0 \<longrightarrow> n < 8 \<and> v = NOT (drop_bit n 0xff))"
  by code_simp

lemma lead_ones_prefix:
  assumes "lead_ones 0 v = (n, 0)" and "v \<noteq> 0xff"
  shows "n < 8 \<and> v = NOT (drop_bit n 0xff)"
  using byte_cases [OF lead_ones_all, of v] assms by (simp add: Let_def)

lemma lead_ones_cidr_all:
  "\<forall>n \<in> set [0..<8]. lead_ones 0 (NOT (drop_bit n 0xff)) = (n, 0)
     \<and> NOT (drop_bit n 0xff) \<noteq> (0xff :: byte)"
  by code_simp

lemma lead_ones_cidr:
  "n < 8 \<Longrightarrow> lead_ones 0 (NOT (drop_bit n 0xff)) = (n, 0)"
  "n < 8 \<Longrightarrow> NOT (drop_bit n 0xff) \<noteq> (0xff :: byte)"
  using lead_ones_cidr_all by auto

lemma length_cidr_bytes [simp]: "length (cidr_bytes l n) = l"
  by (induction l n rule: cidr_bytes.induct) auto

lemma cidr_bytes_0: "cidr_bytes l 0 = replicate l 0"
  by (induction l) simp_all

lemma simple_mask_length_cidr:
  "n \<le> 8 * l \<Longrightarrow> simple_mask_length (cidr_bytes l n) = Some n"
  by (induction l n rule: cidr_bytes.induct)
     (auto simp: lead_ones_cidr cidr_bytes_0 list_all_iff simple_mask_length.simps)

lemma list_all_zero: "list_all (\<lambda>x. x = 0) xs \<Longrightarrow> xs = replicate (length xs) 0"
  by (induction xs) auto

text \<open>A prefix mask is determined by its length and its number of ones.\<close>

lemma simple_mask_length_unique:
  "simple_mask_length m = Some n \<Longrightarrow> n \<le> 8 * length m \<and> m = cidr_bytes (length m) n"
proof (induction m arbitrary: n)
  case Nil
  then show ?case by simp
next
  case (Cons v vs)
  show ?case
  proof (cases "v = 0xff")
    case True
    with Cons.prems obtain k where k: "simple_mask_length vs = Some k" "n = 8 + k" by auto
    from Cons.IH [OF k(1)] k True show ?thesis by simp
  next
    case False
    with Cons.prems have l: "lead_ones 0 v = (n, 0)" and z: "list_all (\<lambda>x. x = 0) vs"
      by (auto split: if_splits prod.splits)
    from lead_ones_prefix [OF l False] list_all_zero [OF z] show ?thesis
      by (simp add: cidr_bytes_0)
  qed
qed

lemma mask_size_cidr:
  assumes "bits = 32 \<or> bits = 128" and "n \<le> bits"
  shows "mask_size (cidr_mask n bits) = (n, bits)"
  using assms simple_mask_length_cidr [of n 4] simple_mask_length_cidr [of n 16]
  by (auto simp: mask_size_def cidr_mask_def)

section \<open>\<open>IPNetEqual\<close> on networks\<close>

lemma cidr_bytes_nth_zero: "n \<le> 8 * i \<Longrightarrow> i < l \<Longrightarrow> cidr_bytes l n ! i = 0"
proof (induction l n arbitrary: i rule: cidr_bytes.induct)
  case (2 l n)
  then show ?case by (cases i) auto
qed simp

lemma ip_and_nth: "i < length a \<Longrightarrow> length a = length m \<Longrightarrow> ip_and a m ! i = a ! i AND m ! i"
  by (simp add: ip_and_def)

lemma mapped_nth_10: "length a = 16 \<Longrightarrow> take 12 a = v4InV6Prefix \<Longrightarrow> a ! 10 = 0xff"
  using nth_take [of 10 12 a] by (simp add: v4InV6Prefix_def nth_append)

text \<open>
  A pure IPv6 network never has an IPv4-mapped address and a mask short enough for IPv4: the
  mask would clear the mapping prefix.
\<close>

lemma pure_net_no_short_mapped:
  assumes "pure_net n" and "length (IP n) = 16" and "take 12 (IP n) = v4InV6Prefix"
    and "simple_mask_length (Mask n) = Some k"
  shows "80 < k"
proof (rule ccontr)
  assume "\<not> 80 < k"
  moreover have "Mask n = cidr_bytes 16 k"
    using simple_mask_length_unique [OF assms(4)] assms(1,2) by (simp add: pure_net_def)
  ultimately have "Mask n ! 10 = 0" by (simp add: cidr_bytes_nth_zero)
  moreover have "IP n ! 10 = IP n ! 10 AND Mask n ! 10"
    using assms(1,2) ip_and_nth [of 10 "IP n" "Mask n"] by (simp add: pure_net_def)
  ultimately have "IP n ! 10 = 0" by simp
  with mapped_nth_10 [OF assms(2,3)] show False by simp
qed

lemma pure_net_same_length:
  assumes a: "pure_net a" and b: "pure_net b" and eq: "IPNetEqual a b"
  shows "length (IP a) = length (IP b)"
proof -
  have False if n: "pure_net n" "length (IP n) = 4" and m: "pure_net m" "length (IP m) = 16"
    and nm: "IPNetEqual n m" for n m
  proof -
    obtain k where k: "simple_mask_length (Mask n) = Some k"
      using n by (auto simp: pure_net_def)
    moreover obtain j where j: "simple_mask_length (Mask m) = Some j"
      using m by (auto simp: pure_net_def)
    moreover have "fst (mask_size (Mask n)) = fst (mask_size (Mask m))"
      using nm by (simp add: IPNetEqual_alt)
    ultimately have "j = k" by (simp add: mask_size_def)
    moreover have "k \<le> 32"
      using simple_mask_length_unique [OF k] n by (simp add: pure_net_def)
    moreover have "take 12 (IP m) = v4InV6Prefix"
      using nm n m by (auto simp: IPNetEqual_def ip_equal_def split: prod.splits)
    ultimately show False
      using pure_net_no_short_mapped [OF m _ j] by simp
  qed
  moreover have "length (IP a) = 4 \<or> length (IP a) = 16" "length (IP b) = 4 \<or> length (IP b) = 16"
    using a b by (simp_all add: pure_net_def)
  ultimately show ?thesis
    using a b eq IPNetEqual_sym [OF eq] by metis
qed

lemma pure_net_mask_eq:
  assumes "pure_net a" and "pure_net b" and "length (IP a) = length (IP b)"
    and "fst (mask_size (Mask a)) = fst (mask_size (Mask b))"
  shows "Mask a = Mask b"
proof -
  from assms obtain k j where k: "simple_mask_length (Mask a) = Some k"
    and j: "simple_mask_length (Mask b) = Some j"
    by (auto simp: pure_net_def)
  with assms(4) have "k = j" by (simp add: mask_size_def)
  with simple_mask_length_unique [OF k] simple_mask_length_unique [OF j] assms(1-3)
  show ?thesis by (simp add: pure_net_def)
qed

lemma IPNetEqual_pure:
  assumes "pure_net a" and "pure_net b"
  shows "IPNetEqual a b \<longleftrightarrow> a = b"
proof
  assume eq: "IPNetEqual a b"
  have len: "length (IP a) = length (IP b)"
    by (rule pure_net_same_length [OF assms eq])
  have "IP a = IP b"
    using eq len by (auto simp: IPNetEqual_def ip_equal_def split: prod.splits)
  moreover have "Mask a = Mask b"
    using eq by (intro pure_net_mask_eq [OF assms len]) (simp add: IPNetEqual_alt)
  ultimately show "a = b" by (cases a; cases b) simp
qed simp

text \<open>
  \<^verbatim>\<open>IPNetEqual\<close> compares the number of ones of the masks and the addresses up to the
  IPv4-mapped form only. On the networks that occur (those of \<^verbatim>\<open>ParseCIDR\<close> and of the kernel)
  this is exactly equality: no two different networks are confused, not even across families.
\<close>

theorem IPNetEqual_iff_eq:
  assumes "pure_net a" and "pure_net b"
  shows "IPNetEqual a b \<longleftrightarrow> a = b"
  using assms by (rule IPNetEqual_pure)

theorem IPNetEqual_iff_eq_witness:
  "\<not> IPNetEqual \<lparr>IP = [10, 0, 0, 0], Mask = [255, 0, 0, 0]\<rparr> \<lparr>IP = [10, 0, 0, 0], Mask = [255, 255, 0, 0]\<rparr>"
proof -
  have "pure_net \<lparr>IP = [10, 0, 0, 0], Mask = [255, 0, 0, 0]\<rparr>"
    and "pure_net \<lparr>IP = [10, 0, 0, 0], Mask = [255, 255, 0, 0]\<rparr>"
    by code_simp+
  then show ?thesis by (subst IPNetEqual_iff_eq) simp_all
qed

end
