(* ===== verification/Kernel_Route.thy ===== *)
theory Kernel_Route
  imports Go_Net
begin

text \<open>
  The routes and route updates of \<^verbatim>\<open>github.com/vishvananda/netlink\<close> as far as the program looks
  at them. That package is not part of the repository: the fields the program never names are
  one opaque value \<open>rt_rest\<close> of a type \<open>'x\<close>, and the package's \<^verbatim>\<open>Route.Equal\<close> and the zero value
  of the opaque fields are the parameter \<open>netlink_lib\<close> of every definition that uses them.
\<close>

record 'x route =
  Dst :: "ipnet option"
  Protocol :: go_int
  Priority :: go_int
  Table :: go_int
  Tos :: go_int
  rt_Type :: go_int
  rt_rest :: 'x

record 'x netlink_lib =
  route_Equal :: "'x route \<Rightarrow> 'x route \<Rightarrow> bool"
  zero_rest :: 'x

text \<open>The constants of Go's \<^verbatim>\<open>syscall\<close> package.\<close>

definition RTN_BLACKHOLE :: go_int where
  "RTN_BLACKHOLE = 6"

definition RTM_NEWROUTE :: "16 word" where
  "RTM_NEWROUTE = 24"

definition RTM_DELROUTE :: "16 word" where
  "RTM_DELROUTE = 25"

definition RT_TABLE_UNSPEC :: go_int where
  "RT_TABLE_UNSPEC = 0"

text \<open>\<^verbatim>\<open>netlink.RouteUpdate\<close>.\<close>

record 'x route_update =
  ru_Type :: "16 word"
  ru_Route :: "'x route"

text \<open>
  \<^verbatim>\<open>Notification\<close> of \<^verbatim>\<open>src/netlink/observer.go\<close>: at most one of the three members is set by the
  netlink component, but the handlers test them one after the other.
\<close>

record 'x notification =
  RouteUpdate :: "'x route_update option"
  StartOfRIB :: bool
  EndOfRIB :: bool

definition start_of_rib :: "'x notification" where
  "start_of_rib = \<lparr>RouteUpdate = None, StartOfRIB = True, EndOfRIB = False\<rparr>"

definition end_of_rib :: "'x notification" where
  "end_of_rib = \<lparr>RouteUpdate = None, StartOfRIB = False, EndOfRIB = True\<rparr>"

definition route_notif :: "'x route_update \<Rightarrow> 'x notification" where
  "route_notif u = \<lparr>RouteUpdate = Some u, StartOfRIB = False, EndOfRIB = False\<rparr>"

lemma notif_simps [simp, go_simps]:
  "RouteUpdate start_of_rib = None" "StartOfRIB start_of_rib" "\<not> EndOfRIB start_of_rib"
  "RouteUpdate end_of_rib = None" "\<not> StartOfRIB end_of_rib" "EndOfRIB end_of_rib"
  "RouteUpdate (route_notif u) = Some u" "\<not> StartOfRIB (route_notif u)"
  "\<not> EndOfRIB (route_notif u)"
  by (simp_all add: start_of_rib_def end_of_rib_def route_notif_def)

text \<open>
  The documented behaviour of \<^verbatim>\<open>Route.Equal\<close> that some lemmas rely on: it compares the fields,
  so it is reflexive and symmetric, and equal routes agree on the fields the program reads.
\<close>

definition lawful_Equal :: "'x netlink_lib \<Rightarrow> bool" where
  "lawful_Equal L \<longleftrightarrow>
     (\<forall>a. route_Equal L a a) \<and>
     (\<forall>a b. route_Equal L a b \<longrightarrow> route_Equal L b a) \<and>
     (\<forall>a b c. route_Equal L a b \<longrightarrow> route_Equal L b c \<longrightarrow> route_Equal L a c) \<and>
     (\<forall>a b. route_Equal L a b \<longrightarrow>
        rel_option IPNetEqual (Dst a) (Dst b) \<and> Protocol a = Protocol b \<and>
        Priority a = Priority b \<and> Table a = Table b \<and> Tos a = Tos b)"

lemma lawful_EqualD:
  assumes "lawful_Equal L"
  shows "route_Equal L a a"
    and "route_Equal L a b \<Longrightarrow> route_Equal L b a"
    and "route_Equal L a b \<Longrightarrow> route_Equal L b c \<Longrightarrow> route_Equal L a c"
    and "route_Equal L a b \<Longrightarrow> rel_option IPNetEqual (Dst a) (Dst b)"
    and "route_Equal L a b \<Longrightarrow> Protocol a = Protocol b"
    and "route_Equal L a b \<Longrightarrow> Priority a = Priority b"
    and "route_Equal L a b \<Longrightarrow> Table a = Table b"
    and "route_Equal L a b \<Longrightarrow> Tos a = Tos b"
  using assms unfolding lawful_Equal_def by blast+

text \<open>A concrete library, with field-wise equality, for examples.\<close>

definition plain_lib :: "nat netlink_lib" where
  "plain_lib = \<lparr>route_Equal = (\<lambda>a b. a = b), zero_rest = 0\<rparr>"

lemma lawful_plain_lib: "lawful_Equal plain_lib"
  by (auto simp: lawful_Equal_def plain_lib_def option.rel_refl)

end
