(* ===== verification/Gateway_Config.thy ===== *)
theory Gateway_Config
  imports Kernel_Route
begin

text \<open>
  Configuration of the gateways (\<^verbatim>\<open>src/gateways/config.go\<close>): the records, their YAML
  unmarshallers and the two \<^verbatim>\<open>Match\<close> methods. The YAML decoder is not part of the repository: the
  argument \<^verbatim>\<open>unmarshal func(interface{}) error\<close> of an unmarshaller is a function parameter that
  takes the current value of the decoded variable to an error or to its new value.
\<close>

section \<open>Records\<close>

text \<open>\<^verbatim>\<open>config.Prefix\<close> is an alias of \<^verbatim>\<open>net.IPNet\<close>, \<^verbatim>\<open>config.Metric\<close> of \<^verbatim>\<open>uint\<close>.\<close>

type_synonym prefix = ipnet
type_synonym metric = go_uint

record table =
  tbl_ID :: go_uint
  tbl_Name :: string

record protocol =
  proto_ID :: go_uint
  proto_Name :: string

record lrg_from =
  from_Prefix :: prefix
  from_Protocol :: "protocol option"
  from_Metric :: "metric option"
  from_Table :: table

record lrg_to =
  to_Prefix :: prefix
  to_Protocol :: protocol
  to_Metric :: metric
  to_Table :: table
  to_Blackhole :: bool

record lrg_config =
  From :: lrg_from
  To :: lrg_to

section \<open>Matching routes\<close>

text \<open>\<^verbatim>\<open>(*LRGFromConfiguration).Match\<close>. The conversion \<^verbatim>\<open>uint(route.Priority)\<close> keeps the bits.\<close>

definition from_Match :: "lrg_from \<Rightarrow> 'x route \<Rightarrow> bool" where
  "from_Match c r = (case Dst r of None \<Rightarrow> False | Some dst \<Rightarrow>
     IPNetEqual (from_Prefix c) dst \<and>
     (case from_Protocol c of None \<Rightarrow> True | Some p \<Rightarrow> proto_ID p = Protocol r) \<and>
     (case from_Metric c of None \<Rightarrow> True | Some m \<Rightarrow> m = Priority r) \<and>
     tbl_ID (from_Table c) = Table r)"

text \<open>\<^verbatim>\<open>(*LRGToConfiguration).Match\<close>.\<close>

definition to_Match :: "lrg_to \<Rightarrow> 'x route \<Rightarrow> bool" where
  "to_Match c r = (case Dst r of None \<Rightarrow> False | Some dst \<Rightarrow>
     IPNetEqual (to_Prefix c) dst \<and> proto_ID (to_Protocol c) = Protocol r \<and>
     to_Metric c = Priority r \<and> tbl_ID (to_Table c) = Table r)"

lemma from_Match_Dst: "from_Match c r \<Longrightarrow> \<exists>dst. Dst r = Some dst"
  by (auto simp: from_Match_def split: option.splits)

section \<open>Unmarshalling one gateway\<close>

datatype 'e config_error =
    DecodeError 'e
  | AtLeastOneGateway
  | SourcePrefixMissing
  | IncompatibleFamilies prefix prefix

definition DefaultToMetric :: metric where
  "DefaultToMetric = 4294967295"

definition DefaultToProtocol :: protocol where
  "DefaultToProtocol = \<lparr>proto_ID = 254, proto_Name = ''lrg''\<rparr>"

definition DefaultTable :: table where
  "DefaultTable = \<lparr>tbl_ID = 254, tbl_Name = ''main''\<rparr>"

definition ipPlaceholder :: prefix where
  "ipPlaceholder = \<lparr>IP = replicate 16 0xff, Mask = cidr_mask 128 128\<rparr>"

text \<open>The Go zero values of the fields the literal leaves out.\<close>

definition zero_prefix :: prefix where
  "zero_prefix = \<lparr>IP = [], Mask = []\<rparr>"

definition zero_table :: table where
  "zero_table = \<lparr>tbl_ID = 0, tbl_Name = ''''\<rparr>"

definition default_lrg_config :: lrg_config where
  "default_lrg_config = \<lparr>
     From = \<lparr>from_Prefix = ipPlaceholder, from_Protocol = None, from_Metric = None,
             from_Table = DefaultTable\<rparr>,
     To = \<lparr>to_Prefix = zero_prefix, to_Protocol = DefaultToProtocol,
           to_Metric = DefaultToMetric, to_Table = zero_table, to_Blackhole = False\<rparr>\<rparr>"

text \<open>
  \<^verbatim>\<open>(*LRGConfiguration).UnmarshalYAML\<close>: decode once for the defaults of the \<^verbatim>\<open>to\<close> block, copy
  prefix and table from \<^verbatim>\<open>from\<close>, decode again, check.
\<close>

definition copy_from_to :: "lrg_config \<Rightarrow> lrg_config" where
  "copy_from_to raw = raw\<lparr>To := (To raw)\<lparr>to_Prefix := from_Prefix (From raw),
                                        to_Table := from_Table (From raw)\<rparr>\<rparr>"

definition check_families :: "lrg_config \<Rightarrow> 'e config_error + lrg_config" where
  "check_families raw =
     (let src = IP (from_Prefix (From raw)); dst = IP (to_Prefix (To raw)) in
      if ip_equal src (IP ipPlaceholder) then Inl SourcePrefixMissing
      else if ip_to4 src = None \<and> ip_to4 dst \<noteq> None
        then Inl (IncompatibleFamilies (from_Prefix (From raw)) (to_Prefix (To raw)))
      else if ip_to4 src \<noteq> None \<and> ip_to4 dst = None
        then Inl (IncompatibleFamilies (from_Prefix (From raw)) (to_Prefix (To raw)))
      else Inr raw)"

definition unmarshal_LRGConfiguration ::
    "(lrg_config \<Rightarrow> 'e + lrg_config) \<Rightarrow> 'e config_error + lrg_config" where
  "unmarshal_LRGConfiguration unmarshal =
     (case unmarshal default_lrg_config of
        Inl e \<Rightarrow> Inl (DecodeError e)
      | Inr raw \<Rightarrow>
        (case unmarshal (copy_from_to raw) of
           Inl e \<Rightarrow> Inl (DecodeError e)
         | Inr raw2 \<Rightarrow> check_families raw2))"

text \<open>\<^verbatim>\<open>(*Configuration).UnmarshalYAML\<close> for the list of gateways.\<close>

definition unmarshal_Configuration ::
    "(lrg_config list \<Rightarrow> 'e + lrg_config list) \<Rightarrow> 'e config_error + lrg_config list" where
  "unmarshal_Configuration unmarshal =
     (case unmarshal [] of
        Inl e \<Rightarrow> Inl (DecodeError e)
      | Inr raw \<Rightarrow> if length raw = 0 then Inl AtLeastOneGateway else Inr raw)"

section \<open>The decoder's documented behaviour\<close>

text \<open>
  A YAML document for one gateway names some of the fields. Decoding it into a variable sets
  these and leaves the others as they are; this is the documented behaviour of
  \<^verbatim>\<open>yaml.Unmarshal\<close> that the two-pass scheme above relies on.
\<close>

record lrg_doc =
  doc_from_prefix :: "prefix option"
  doc_from_protocol :: "protocol option"
  doc_from_metric :: "metric option"
  doc_from_table :: "table option"
  doc_to_prefix :: "prefix option"
  doc_to_protocol :: "protocol option"
  doc_to_metric :: "metric option"
  doc_to_table :: "table option"
  doc_to_blackhole :: "bool option"

definition given :: "'a option \<Rightarrow> 'a \<Rightarrow> 'a" where
  "given d old = (case d of None \<Rightarrow> old | Some v \<Rightarrow> v)"

definition or_else :: "'a option \<Rightarrow> 'a option \<Rightarrow> 'a option" where
  "or_else d old = (case d of None \<Rightarrow> old | Some v \<Rightarrow> Some v)"

definition overlay :: "lrg_doc \<Rightarrow> lrg_config \<Rightarrow> lrg_config" where
  "overlay d c = \<lparr>
     From = \<lparr>from_Prefix = given (doc_from_prefix d) (from_Prefix (From c)),
             from_Protocol = or_else (doc_from_protocol d) (from_Protocol (From c)),
             from_Metric = or_else (doc_from_metric d) (from_Metric (From c)),
             from_Table = given (doc_from_table d) (from_Table (From c))\<rparr>,
     To = \<lparr>to_Prefix = given (doc_to_prefix d) (to_Prefix (To c)),
           to_Protocol = given (doc_to_protocol d) (to_Protocol (To c)),
           to_Metric = given (doc_to_metric d) (to_Metric (To c)),
           to_Table = given (doc_to_table d) (to_Table (To c)),
           to_Blackhole = given (doc_to_blackhole d) (to_Blackhole (To c))\<rparr>\<rparr>"

definition decodes :: "lrg_doc \<Rightarrow> (lrg_config \<Rightarrow> 'e + lrg_config) \<Rightarrow> bool" where
  "decodes d unmarshal \<longleftrightarrow> (\<forall>c. unmarshal c = Inr (overlay d c))"

text \<open>What a document means: the values of the documentation's \<^emph>\<open>default\<close> clauses.\<close>

definition doc_meaning :: "lrg_doc \<Rightarrow> prefix \<Rightarrow> lrg_config" where
  "doc_meaning d p = \<lparr>
     From = \<lparr>from_Prefix = p, from_Protocol = doc_from_protocol d,
             from_Metric = doc_from_metric d, from_Table = given (doc_from_table d) DefaultTable\<rparr>,
     To = \<lparr>to_Prefix = given (doc_to_prefix d) p,
           to_Protocol = given (doc_to_protocol d) DefaultToProtocol,
           to_Metric = given (doc_to_metric d) DefaultToMetric,
           to_Table = given (doc_to_table d) (given (doc_from_table d) DefaultTable),
           to_Blackhole = given (doc_to_blackhole d) False\<rparr>\<rparr>"

definition same_family :: "ip \<Rightarrow> ip \<Rightarrow> bool" where
  "same_family a b \<longleftrightarrow> (ip_to4 a = None \<longleftrightarrow> ip_to4 b = None)"

lemma check_families_Inr:
  "check_families raw = Inr c \<longleftrightarrow> c = raw
     \<and> \<not> ip_equal (IP (from_Prefix (From raw))) (IP ipPlaceholder)
     \<and> same_family (IP (from_Prefix (From raw))) (IP (to_Prefix (To raw)))"
  by (auto simp: check_families_def same_family_def Let_def)

lemma overlay_twice:
  "doc_from_prefix d = Some p \<Longrightarrow>
     overlay d (copy_from_to (overlay d default_lrg_config)) = doc_meaning d p"
  by (simp add: overlay_def copy_from_to_def default_lrg_config_def doc_meaning_def given_def
      or_else_def split: option.splits)

lemma unmarshal_decodes:
  assumes "decodes d unmarshal" and "doc_from_prefix d = Some p"
  shows "unmarshal_LRGConfiguration unmarshal = check_families (doc_meaning d p)"
  using assms by (simp add: unmarshal_LRGConfiguration_def decodes_def overlay_twice)

text \<open>
  C26. A gateway document with a source prefix is accepted exactly when the prefix is not the
  placeholder and both prefixes are of one family; the result has the documented defaults:
  target prefix and table are those of the source (the table in turn \<^verbatim>\<open>main\<close>), protocol 254,
  the maximal metric, no blackhole, and every field the document names has the named value.
\<close>

theorem unmarshal_LRGConfiguration_defaults:
  assumes "decodes d unmarshal" and "doc_from_prefix d = Some p"
  shows "unmarshal_LRGConfiguration unmarshal = Inr c \<longleftrightarrow>
           c = doc_meaning d p \<and> \<not> ip_equal (IP p) (replicate 16 0xff)
           \<and> same_family (IP p) (IP (given (doc_to_prefix d) p))"
  using assms
  by (auto simp: unmarshal_decodes check_families_Inr ipPlaceholder_def doc_meaning_def)

definition default_ipv4 :: prefix where
  "default_ipv4 = \<lparr>IP = [0, 0, 0, 0], Mask = [0, 0, 0, 0]\<rparr>"

definition example_doc :: lrg_doc where
  "example_doc = \<lparr>doc_from_prefix = Some default_ipv4,
     doc_from_protocol = None, doc_from_metric = None, doc_from_table = None,
     doc_to_prefix = None, doc_to_protocol = None, doc_to_metric = Some 100,
     doc_to_table = None, doc_to_blackhole = Some True\<rparr>"

theorem unmarshal_LRGConfiguration_defaults_witness:
  "unmarshal_LRGConfiguration (\<lambda>c. Inr (overlay example_doc c) :: unit + lrg_config) =
     Inr (doc_meaning example_doc default_ipv4)"
proof -
  have "decodes example_doc (\<lambda>c. Inr (overlay example_doc c) :: unit + lrg_config)"
    by (simp add: decodes_def)
  moreover have "doc_from_prefix example_doc = Some default_ipv4"
    by (simp add: example_doc_def)
  moreover have "\<not> ip_equal (IP default_ipv4) (replicate 16 0xff)"
    by code_simp
  moreover have "same_family (IP default_ipv4) (IP (given (doc_to_prefix example_doc) default_ipv4))"
    by code_simp
  ultimately show ?thesis
    using unmarshal_LRGConfiguration_defaults by blast
qed

text \<open>
  Whatever the decoder does: an accepted gateway never has the placeholder as its source
  prefix and never mixes IPv4 and IPv6, and a decoding failure in either pass is reported.
\<close>

theorem unmarshal_LRGConfiguration_safe:
  assumes "unmarshal_LRGConfiguration unmarshal = Inr c"
  shows "\<not> ip_equal (IP (from_Prefix (From c))) (replicate 16 0xff)
    \<and> same_family (IP (from_Prefix (From c))) (IP (to_Prefix (To c)))
    \<and> (\<exists>raw. unmarshal default_lrg_config = Inr raw \<and> unmarshal (copy_from_to raw) = Inr c)"
  using assms
  by (auto simp: unmarshal_LRGConfiguration_def check_families_Inr ipPlaceholder_def
      split: sum.splits)

theorem unmarshal_LRGConfiguration_safe_witness:
  "same_family (IP (from_Prefix (From (doc_meaning example_doc default_ipv4))))
     (IP (to_Prefix (To (doc_meaning example_doc default_ipv4))))"
proof -
  have "unmarshal_LRGConfiguration (\<lambda>c. Inr (overlay example_doc c) :: unit + lrg_config) =
     Inr (doc_meaning example_doc default_ipv4)"
    by (subst unmarshal_decodes [of example_doc _ default_ipv4]) (simp add: decodes_def, code_simp+)
  from unmarshal_LRGConfiguration_safe [OF this] show ?thesis by simp
qed

end
