(* ===== verification/Gateway_Candidates.thy ===== *)
theory Gateway_Candidates
  imports Gateway_Config
begin

text \<open>
  The candidate list of a gateway and the choice of its target
  (\<^verbatim>\<open>bestCandidateRoute\<close>, \<^verbatim>\<open>targetRoute\<close>, \<^verbatim>\<open>removeCandidateRoute\<close> and \<^verbatim>\<open>addCandidateRoute\<close> of
  \<^verbatim>\<open>src/gateways/gateway.go\<close>). Routes are never modified in place by the program once they are in
  the list (\<^verbatim>\<open>targetRoute\<close> writes to a copy), so a pointer to a route is its value here.
\<close>

section \<open>Choosing the best candidate\<close>

text \<open>The loop of \<^verbatim>\<open>bestCandidateRoute\<close>; \<^verbatim>\<open>Tos\<close> and \<^verbatim>\<open>Priority\<close> are signed \<^verbatim>\<open>int\<close> fields.\<close>

fun best_loop :: "'x route option \<Rightarrow> 'x route list \<Rightarrow> 'x route option" where
  "best_loop best [] = best"
| "best_loop best (current # rest) =
     (if (case best of None \<Rightarrow> True
          | Some b \<Rightarrow> sint (Tos b) > sint (Tos current) \<or>
                      (Tos b = Tos current \<and> sint (Priority b) > sint (Priority current)))
      then best_loop (Some current) rest
      else best_loop best rest)"

definition bestCandidateRoute :: "'x route list \<Rightarrow> 'x route option" where
  "bestCandidateRoute candidates = best_loop None candidates"

text \<open>The preference of a route: type of service first, then metric; smaller is better.\<close>

datatype preference = Pref (pref_tos: int) (pref_metric: int)

instantiation preference :: linorder
begin

definition less_preference :: "preference \<Rightarrow> preference \<Rightarrow> bool" where
  "less_preference a b \<longleftrightarrow>
     pref_tos a < pref_tos b \<or> pref_tos a = pref_tos b \<and> pref_metric a < pref_metric b"

definition less_eq_preference :: "preference \<Rightarrow> preference \<Rightarrow> bool" where
  "less_eq_preference a b \<longleftrightarrow>
     pref_tos a < pref_tos b \<or> pref_tos a = pref_tos b \<and> pref_metric a \<le> pref_metric b"

instance
proof
  fix x y z :: preference
  show "x < y \<longleftrightarrow> x \<le> y \<and> \<not> y \<le> x"
    by (auto simp: less_preference_def less_eq_preference_def)
  show "x \<le> x" by (simp add: less_eq_preference_def)
  show "x \<le> y \<Longrightarrow> y \<le> z \<Longrightarrow> x \<le> z"
    by (auto simp: less_eq_preference_def)
  show "x \<le> y \<Longrightarrow> y \<le> x \<Longrightarrow> x = y"
    by (cases x; cases y) (auto simp: less_eq_preference_def)
  show "x \<le> y \<or> y \<le> x"
    by (auto simp: less_eq_preference_def)
qed

end

definition preference_of :: "'x route \<Rightarrow> preference" where
  "preference_of r = Pref (sint (Tos r)) (sint (Priority r))"

text \<open>
  A selection loop that keeps the first of the elements with the least key. The contract is
  stated for any loop with these equations; \<open>best_loop\<close> is one.
\<close>

locale first_minimum =
  fixes key :: "'a \<Rightarrow> 'k::linorder"
    and loop :: "'a option \<Rightarrow> 'a list \<Rightarrow> 'a option"
  assumes loop_Nil: "loop sel [] = sel"
    and loop_None: "loop None (x # xs) = loop (Some x) xs"
    and loop_Some: "loop (Some b) (x # xs) = loop (Some (if key x < key b then x else b)) xs"
begin

lemma loop_append: "loop b (xs @ ys) = loop (loop b xs) ys"
proof (induction xs arbitrary: b)
  case Nil
  show ?case by (simp add: loop_Nil)
next
  case (Cons x xs)
  then show ?case by (cases b) (simp_all add: loop_None loop_Some)
qed

lemma loop_is_Some: "\<exists>m. loop (Some b) xs = Some m"
  by (induction xs arbitrary: b) (simp_all add: loop_Nil loop_Some)

lemma loop_None_iff: "loop None xs = None \<longleftrightarrow> xs = []"
  by (cases xs) (use loop_is_Some in \<open>auto simp: loop_Nil loop_None\<close>)

lemma loop_keeps: "\<forall>x \<in> set xs. key b \<le> key x \<Longrightarrow> loop (Some b) xs = Some b"
  by (induction xs) (auto simp: loop_Nil loop_Some)

lemma loop_in_set: "loop (Some b) xs = Some m \<Longrightarrow> m = b \<or> m \<in> set xs"
  by (induction xs arbitrary: b) (auto simp: loop_Nil loop_Some split: if_splits)

text \<open>If \<open>m\<close> beats everything before it and ties or beats everything after it, it is chosen.\<close>

lemma loop_first:
  assumes "\<forall>x \<in> set pre. key m < key x" and "\<forall>x \<in> set suf. key m \<le> key x"
  shows "loop None (pre @ m # suf) = Some m"
proof (cases "loop None pre")
  case None
  then have "pre = []" by (simp add: loop_None_iff)
  with loop_keeps [OF assms(2)] show ?thesis by (simp add: loop_None)
next
  case (Some b)
  then obtain x xs where pre: "pre = x # xs" by (cases pre) (auto simp: loop_Nil)
  with Some have "b \<in> set pre" using loop_in_set [of x xs b] by (auto simp: loop_None)
  with assms(1) have "key m < key b" by blast
  with loop_keeps [OF assms(2)] show ?thesis
    by (simp add: loop_append Some loop_Some)
qed

text \<open>Every non-empty list has such an element, so the loop finds exactly it.\<close>

lemma first_exists:
  "xs \<noteq> [] \<Longrightarrow> \<exists>pre m suf. xs = pre @ m # suf
     \<and> (\<forall>x \<in> set pre. key m < key x) \<and> (\<forall>x \<in> set suf. key m \<le> key x)"
proof (induction xs)
  case Nil
  then show ?case by simp
next
  case (Cons x xs)
  show ?case
  proof (cases "xs = []")
    case True
    then show ?thesis by (intro exI [of _ "[]"] exI [of _ x] exI [of _ "[]"]) simp
  next
    case False
    with Cons.IH obtain pre m suf where m: "xs = pre @ m # suf"
      "\<forall>y \<in> set pre. key m < key y" "\<forall>y \<in> set suf. key m \<le> key y"
      by blast
    show ?thesis
    proof (cases "key m < key x")
      case True
      with m show ?thesis by (intro exI [of _ "x # pre"] exI [of _ m] exI [of _ suf]) simp
    next
      case False
      then have "key x \<le> key m" by simp
      with m have "\<forall>y \<in> set xs. key x \<le> key y" by fastforce
      then show ?thesis by (intro exI [of _ "[]"] exI [of _ x] exI [of _ xs]) simp
    qed
  qed
qed

lemma loop_characterisation:
  "loop None xs = Some m \<longleftrightarrow> (\<exists>pre suf. xs = pre @ m # suf
     \<and> (\<forall>x \<in> set pre. key m < key x) \<and> (\<forall>x \<in> set suf. key m \<le> key x))"
proof
  assume sel: "loop None xs = Some m"
  then have "xs \<noteq> []" by (auto simp: loop_Nil)
  then obtain pre m' suf where "xs = pre @ m' # suf"
    "\<forall>x \<in> set pre. key m' < key x" "\<forall>x \<in> set suf. key m' \<le> key x"
    using first_exists by blast
  moreover from this loop_first [of pre m' suf] sel have "m' = m" by simp
  ultimately show "\<exists>pre suf. xs = pre @ m # suf
     \<and> (\<forall>x \<in> set pre. key m < key x) \<and> (\<forall>x \<in> set suf. key m \<le> key x)"
    by blast
next
  assume "\<exists>pre suf. xs = pre @ m # suf
     \<and> (\<forall>x \<in> set pre. key m < key x) \<and> (\<forall>x \<in> set suf. key m \<le> key x)"
  then show "loop None xs = Some m" using loop_first by blast
qed

end

interpretation best: first_minimum preference_of best_loop
proof
  fix b x :: "'x route" and xs
  have "(sint (Tos b) > sint (Tos x) \<or> (Tos b = Tos x \<and> sint (Priority b) > sint (Priority x)))
      \<longleftrightarrow> preference_of x < preference_of b"
    by (auto simp: preference_of_def less_preference_def)
  then show "best_loop (Some b) (x # xs) =
      best_loop (Some (if preference_of x < preference_of b then x else b)) xs"
    by simp
qed simp_all


text \<open>
  C25. \<^verbatim>\<open>bestCandidateRoute\<close> returns a route exactly when it is a candidate with the least pair of
  type of service and metric, both read as signed numbers, type of service first, and is the
  oldest such candidate: every earlier one is strictly worse.
\<close>

theorem bestCandidateRoute_spec:
  "bestCandidateRoute cs = Some r \<longleftrightarrow> (\<exists>pre suf. cs = pre @ r # suf
     \<and> (\<forall>x \<in> set pre. preference_of r < preference_of x)
     \<and> (\<forall>x \<in> set suf. preference_of r \<le> preference_of x))"
  unfolding bestCandidateRoute_def by (rule best.loop_characterisation)

theorem bestCandidateRoute_spec_witness:
  "bestCandidateRoute
     [\<lparr>Dst = None, Protocol = 0, Priority = 5, Table = 0, Tos = 0, rt_Type = 0, rt_rest = 1\<rparr>,
      \<lparr>Dst = None, Protocol = 0, Priority = 3, Table = 0, Tos = 0, rt_Type = 0, rt_rest = 2 :: nat\<rparr>] =
   Some \<lparr>Dst = None, Protocol = 0, Priority = 3, Table = 0, Tos = 0, rt_Type = 0, rt_rest = 2\<rparr>"
proof (rule bestCandidateRoute_spec [THEN iffD2], intro exI conjI)
  show "[\<lparr>Dst = None, Protocol = 0, Priority = 5, Table = 0, Tos = 0, rt_Type = 0, rt_rest = 1\<rparr>,
      \<lparr>Dst = None, Protocol = 0, Priority = 3, Table = 0, Tos = 0, rt_Type = 0, rt_rest = 2 :: nat\<rparr>] =
     [\<lparr>Dst = None, Protocol = 0, Priority = 5, Table = 0, Tos = 0, rt_Type = 0, rt_rest = 1\<rparr>] @
      \<lparr>Dst = None, Protocol = 0, Priority = 3, Table = 0, Tos = 0, rt_Type = 0, rt_rest = 2\<rparr> # []"
    by simp
qed (simp_all add: preference_of_def less_preference_def)

lemma bestCandidateRoute_None [simp]: "bestCandidateRoute cs = None \<longleftrightarrow> cs = []"
  unfolding bestCandidateRoute_def by (rule best.loop_None_iff)

lemma bestCandidateRoute_Nil [simp]: "bestCandidateRoute [] = None"
  by simp

lemma bestCandidateRoute_mem: "bestCandidateRoute cs = Some r \<Longrightarrow> r \<in> set cs"
  unfolding bestCandidateRoute_def using best.loop_characterisation [of cs r] by auto

section \<open>The target route\<close>

text \<open>\<^verbatim>\<open>&knetlink.Route{Type: RTN_BLACKHOLE}\<close>: every other field has its zero value.\<close>

definition blackhole_route :: "'x netlink_lib \<Rightarrow> 'x route" where
  "blackhole_route L = \<lparr>Dst = None, Protocol = 0, Priority = 0, Table = 0, Tos = 0,
     rt_Type = RTN_BLACKHOLE, rt_rest = zero_rest L\<rparr>"

text \<open>The assignments at the end of \<^verbatim>\<open>targetRoute\<close>.\<close>

definition retarget :: "lrg_to \<Rightarrow> 'x route \<Rightarrow> 'x route" where
  "retarget c r = r\<lparr>Dst := Some (to_Prefix c), Protocol := proto_ID (to_Protocol c),
     Priority := to_Metric c, Table := tbl_ID (to_Table c)\<rparr>"

definition targetRoute :: "'x netlink_lib \<Rightarrow> 'x route list \<Rightarrow> lrg_to \<Rightarrow> 'x route option" where
  "targetRoute L candidates c =
     (case bestCandidateRoute candidates of
        None \<Rightarrow> if \<not> to_Blackhole c then None else Some (retarget c (blackhole_route L))
      | Some best \<Rightarrow> Some (retarget c best))"

lemma targetRoute_None: "targetRoute L cs c = None \<longleftrightarrow> cs = [] \<and> \<not> to_Blackhole c"
  by (auto simp: targetRoute_def split: option.splits)

lemma targetRoute_Nil: "targetRoute L [] c =
    (if to_Blackhole c then Some (retarget c (blackhole_route L)) else None)"
  by (simp add: targetRoute_def)

lemma targetRoute_retarget: "targetRoute L cs c = Some t \<Longrightarrow> \<exists>r. t = retarget c r"
  by (auto simp: targetRoute_def split: option.splits if_splits)

lemma to_Match_retarget [simp]: "to_Match c (retarget c r)"
  by (simp add: to_Match_def retarget_def)

text \<open>
  The gateway recognises its own route: whatever the candidates and the configuration,
  the route it asks the kernel to install matches the \<^verbatim>\<open>to\<close> block, so the update the kernel sends
  back for it is never taken for a candidate or an alien route. It has the opaque fields
  (next hop, device), type and type of service of the best candidate, or is a blackhole.
\<close>

theorem targetRoute_matches_To:
  "case targetRoute L cs c of
     None \<Rightarrow> cs = [] \<and> to_Blackhole c = False
   | Some t \<Rightarrow> to_Match c t \<and>
       (case bestCandidateRoute cs of
          None \<Rightarrow> to_Blackhole c = True \<and> rt_Type t = RTN_BLACKHOLE \<and> rt_rest t = zero_rest L
        | Some b \<Rightarrow> b \<in> set cs \<and> rt_rest t = rt_rest b \<and> rt_Type t = rt_Type b \<and> Tos t = Tos b)"
  using bestCandidateRoute_mem [of cs]
  by (auto simp: targetRoute_def retarget_def to_Match_def blackhole_route_def split: option.splits)

section \<open>Adding and removing candidates\<close>

text \<open>The loop of \<^verbatim>\<open>removeCandidateRoute\<close>.\<close>

fun remove_loop :: "'x netlink_lib \<Rightarrow> 'x route \<Rightarrow> 'x route list \<Rightarrow> 'x route list \<Rightarrow> 'x route list" where
  "remove_loop L route new [] = new"
| "remove_loop L route new (current # rest) =
     (if \<not> route_Equal L current route then remove_loop L route (new @ [current]) rest
      else remove_loop L route new rest)"

text \<open>
  The loop of \<^verbatim>\<open>addCandidateRoute\<close>: \<open>None\<close> is the early \<^verbatim>\<open>return\<close> on an equal route, and reading
  \<^verbatim>\<open>*current.Dst\<close> or \<^verbatim>\<open>*route.Dst\<close> panics on a \<^verbatim>\<open>nil\<close> destination.
\<close>

fun add_loop :: "'x netlink_lib \<Rightarrow> 'x route \<Rightarrow> 'x route list \<Rightarrow> 'x route list
    \<Rightarrow> panic + 'x route list option" where
  "add_loop L route new [] = Inr (Some (new @ [route]))"
| "add_loop L route new (current # rest) =
     (if route_Equal L current route then Inr None
      else case (Dst current, Dst route) of
          (Some d1, Some d2) \<Rightarrow>
            if IPNetEqual d1 d2 \<and> Table current = Table route \<and> Tos current = Tos route
               \<and> Priority current = Priority route
            then add_loop L route new rest
            else add_loop L route (new @ [current]) rest
        | _ \<Rightarrow> Inl NilDereference)"

text \<open>
  What identifies a route in the kernel's table: canonical destination, table, type of service
  and metric. Two candidates with the same slot cannot coexist.
\<close>

type_synonym slot = "(nat \<times> ip) option \<times> go_int \<times> go_int \<times> go_int"

definition net_key :: "ipnet \<Rightarrow> nat \<times> ip" where
  "net_key n = (fst (mask_size (Mask n)), ip_canon (IP n))"

definition slot :: "'x route \<Rightarrow> slot" where
  "slot r = (map_option net_key (Dst r), Table r, Tos r, Priority r)"

lemma IPNetEqual_net_key: "IPNetEqual a b \<longleftrightarrow> net_key a = net_key b"
  by (simp add: IPNetEqual_alt net_key_def)

lemma lawful_slot: "lawful_Equal L \<Longrightarrow> route_Equal L a b \<Longrightarrow> slot a = slot b"
  using lawful_EqualD(4,6-8) [of L a b]
  by (auto simp: slot_def IPNetEqual_net_key elim!: option.rel_cases)

definition candidates_ok :: "'x route list \<Rightarrow> bool" where
  "candidates_ok cs \<longleftrightarrow> (\<forall>c \<in> set cs. Dst c \<noteq> None) \<and> distinct (map slot cs)"

lemma remove_loop_filter:
  "remove_loop L r new cs = new @ filter (\<lambda>c. \<not> route_Equal L c r) cs"
  by (induction L r new cs rule: remove_loop.induct) auto

text \<open>The loop without the early return and with the slot comparison as one equation.\<close>

lemma add_loop_eq:
  assumes "\<forall>c \<in> set cs. Dst c \<noteq> None" and "Dst r \<noteq> None"
  shows "add_loop L r new cs =
    Inr (if \<exists>c \<in> set cs. route_Equal L c r then None
         else Some (new @ filter (\<lambda>c. slot c \<noteq> slot r) cs @ [r]))"
  using assms
proof (induction cs arbitrary: new)
  case Nil
  then show ?case by simp
next
  case (Cons c cs)
  then obtain d e where de: "Dst c = Some d" "Dst r = Some e" by auto
  then have slot: "slot c = slot r \<longleftrightarrow> IPNetEqual d e \<and> Table c = Table r \<and> Tos c = Tos r
      \<and> Priority c = Priority r"
    by (auto simp: slot_def IPNetEqual_net_key)
  show ?case
  proof (cases "route_Equal L c r")
    case True
    then show ?thesis by simp
  next
    case False
    with Cons de slot show ?thesis
      by (cases "slot c = slot r") auto
  qed
qed

text \<open>\<^verbatim>\<open>addCandidateRoute\<close> and \<^verbatim>\<open>removeCandidateRoute\<close> as operations on the list of candidates.\<close>

definition candidates_add :: "'x netlink_lib \<Rightarrow> 'x route \<Rightarrow> 'x route list \<Rightarrow> 'x route list" where
  "candidates_add L r cs = (case add_loop L r [] cs of Inr (Some new) \<Rightarrow> new | _ \<Rightarrow> cs)"

definition candidates_remove :: "'x netlink_lib \<Rightarrow> 'x route \<Rightarrow> 'x route list \<Rightarrow> 'x route list" where
  "candidates_remove L r cs = remove_loop L r [] cs"

definition candidate_at :: "'x route list \<Rightarrow> slot \<Rightarrow> 'x route option" where
  "candidate_at cs = map_of (map (\<lambda>r. (slot r, r)) cs)"

lemma candidate_at_Some:
  assumes "candidates_ok cs"
  shows "candidate_at cs k = Some r \<longleftrightarrow> r \<in> set cs \<and> slot r = k"
  using assms unfolding candidate_at_def candidates_ok_def
  by (subst map_of_eq_Some_iff) (auto simp: comp_def)

lemma candidate_at_None: "candidate_at cs k = None \<longleftrightarrow> (\<forall>r \<in> set cs. slot r \<noteq> k)"
  by (auto simp: candidate_at_def map_of_eq_None_iff image_image)

section \<open>The candidate list as a keyed store\<close>

text \<open>
  The contract of a store of values filed under a key derived from the value: inserting replaces
  what is under the key, unless that is the same value already; deleting removes what is under
  the key only if it is the same value.
\<close>

locale keyed_store =
  fixes key :: "'v \<Rightarrow> 'k"
    and same :: "'v \<Rightarrow> 'v \<Rightarrow> bool"
    and valid :: "'v \<Rightarrow> bool"
    and lawful :: bool
    and at :: "'s \<Rightarrow> 'k \<Rightarrow> 'v option"
    and add :: "'v \<Rightarrow> 's \<Rightarrow> 's"
    and remove :: "'v \<Rightarrow> 's \<Rightarrow> 's"
    and ok :: "'s \<Rightarrow> bool"
  assumes same_refl: "lawful \<Longrightarrow> same v v"
    and same_sym: "lawful \<Longrightarrow> same v w \<Longrightarrow> same w v"
    and same_trans: "lawful \<Longrightarrow> same u v \<Longrightarrow> same v w \<Longrightarrow> same u w"
    and same_key: "lawful \<Longrightarrow> same v w \<Longrightarrow> key v = key w"
    and key_at: "ok s \<Longrightarrow> at s k = Some v \<Longrightarrow> key v = k"
    and at_add: "lawful \<Longrightarrow> ok s \<Longrightarrow> valid v \<Longrightarrow>
      at (add v s) = (case at s (key v) of
         Some w \<Rightarrow> if same w v then at s else (at s)(key v := Some v)
       | None \<Rightarrow> (at s)(key v := Some v))"
    and at_remove: "lawful \<Longrightarrow> ok s \<Longrightarrow>
      at (remove v s) = (case at s (key v) of
         Some w \<Rightarrow> if same w v then (at s)(key v := None) else at s
       | None \<Rightarrow> at s)"
    and ok_add: "ok s \<Longrightarrow> valid v \<Longrightarrow> ok (add v s)"
    and ok_remove: "ok s \<Longrightarrow> ok (remove v s)"
begin

lemma at_add_other: "lawful \<Longrightarrow> ok s \<Longrightarrow> valid v \<Longrightarrow> k \<noteq> key v \<Longrightarrow> at (add v s) k = at s k"
  by (simp add: at_add split: option.splits)

lemma at_remove_other: "lawful \<Longrightarrow> ok s \<Longrightarrow> k \<noteq> key v \<Longrightarrow> at (remove v s) k = at s k"
  by (simp add: at_remove split: option.splits)

lemma at_add_same:
  "lawful \<Longrightarrow> ok s \<Longrightarrow> valid v \<Longrightarrow> \<exists>w. at (add v s) (key v) = Some w \<and> same w v"
  by (auto simp: at_add same_refl split: option.splits)

lemma remove_add:
  assumes "lawful" and "ok s" and "valid v"
  shows "at (remove v (add v s)) (key v) = None"
  using assms at_add_same [of s v] ok_add [of s v] by (auto simp: at_remove)

end

lemma candidates_add_alt:
  assumes "candidates_ok cs" and "Dst r \<noteq> None"
  shows "candidates_add L r cs = (if \<exists>c \<in> set cs. route_Equal L c r then cs
           else filter (\<lambda>c. slot c \<noteq> slot r) cs @ [r])"
  using assms by (simp add: candidates_add_def candidates_ok_def add_loop_eq)

lemma candidates_remove_alt:
  "candidates_remove L r cs = filter (\<lambda>c. \<not> route_Equal L c r) cs"
  by (simp add: candidates_remove_def remove_loop_filter)

lemma candidates_ok_Nil [simp]: "candidates_ok []"
  by (simp add: candidates_ok_def)

lemma distinct_map_filter': "distinct (map f xs) \<Longrightarrow> distinct (map f (filter P xs))"
  by (simp add: distinct_map inj_on_def)

lemma candidates_ok_add [inv_intros]:
  "candidates_ok cs \<Longrightarrow> Dst r \<noteq> None \<Longrightarrow> candidates_ok (candidates_add L r cs)"
  by (auto simp: candidates_add_alt) (auto simp: candidates_ok_def distinct_map_filter')

lemma candidates_ok_remove [inv_intros]:
  "candidates_ok cs \<Longrightarrow> candidates_ok (candidates_remove L r cs)"
  by (auto simp: candidates_remove_alt candidates_ok_def distinct_map_filter')

lemma candidate_at_eqI:
  assumes "candidates_ok cs" and "candidates_ok ds"
    and "\<And>r. r \<in> set ds \<and> slot r = k \<longleftrightarrow> r \<in> set cs \<and> slot r = k"
  shows "candidate_at ds k = candidate_at cs k"
  using assms by (metis candidate_at_Some option.exhaust)

lemma candidate_at_add:
  assumes L: "lawful_Equal L" and ok: "candidates_ok cs" and r: "Dst r \<noteq> None"
  shows "candidate_at (candidates_add L r cs) = (case candidate_at cs (slot r) of
      Some w \<Rightarrow> if route_Equal L w r then candidate_at cs else (candidate_at cs)(slot r := Some r)
    | None \<Rightarrow> (candidate_at cs)(slot r := Some r))"
proof -
  have "(\<exists>c \<in> set cs. route_Equal L c r) \<longleftrightarrow>
      (\<exists>w. candidate_at cs (slot r) = Some w \<and> route_Equal L w r)"
    using lawful_slot [OF L] by (metis candidate_at_Some [OF ok])
  moreover have "candidate_at (filter (\<lambda>c. slot c \<noteq> slot r) cs @ [r]) = (candidate_at cs)(slot r := Some r)"
  proof
    fix k
    have ok': "candidates_ok (filter (\<lambda>c. slot c \<noteq> slot r) cs @ [r])"
      using ok r by (auto simp: candidates_ok_def distinct_map_filter')
    show "candidate_at (filter (\<lambda>c. slot c \<noteq> slot r) cs @ [r]) k = ((candidate_at cs)(slot r := Some r)) k"
    proof (cases "k = slot r")
      case True
      then show ?thesis by (simp add: candidate_at_Some [OF ok'])
    next
      case False
      then show ?thesis by (simp, intro candidate_at_eqI [OF ok ok']) auto
    qed
  qed
  ultimately show ?thesis
    by (auto simp: candidates_add_alt [OF ok r] split: option.splits)
qed

lemma candidate_at_remove:
  assumes L: "lawful_Equal L" and ok: "candidates_ok cs"
  shows "candidate_at (candidates_remove L r cs) = (case candidate_at cs (slot r) of
      Some w \<Rightarrow> if route_Equal L w r then (candidate_at cs)(slot r := None) else candidate_at cs
    | None \<Rightarrow> candidate_at cs)"
proof
  fix k
  have ok': "candidates_ok (candidates_remove L r cs)"
    by (rule candidates_ok_remove [OF ok])
  have mem: "x \<in> set (candidates_remove L r cs) \<longleftrightarrow> x \<in> set cs \<and> \<not> route_Equal L x r" for x
    by (auto simp: candidates_remove_alt)
  have eq: "route_Equal L x r \<Longrightarrow> slot x = slot r" for x
    by (rule lawful_slot [OF L])
  show "candidate_at (candidates_remove L r cs) k = (case candidate_at cs (slot r) of
      Some w \<Rightarrow> if route_Equal L w r then (candidate_at cs)(slot r := None) else candidate_at cs
    | None \<Rightarrow> candidate_at cs) k"
  proof (cases "\<exists>w. candidate_at cs (slot r) = Some w \<and> route_Equal L w r \<and> k = slot r")
    case True
    then obtain w where w: "candidate_at cs (slot r) = Some w" "route_Equal L w r" "k = slot r"
      by blast
    then have "candidate_at (candidates_remove L r cs) k = None"
      by (metis candidate_at_None candidate_at_Some [OF ok] mem option.inject)
    with w show ?thesis by simp
  next
    case False
    then have "candidate_at (candidates_remove L r cs) k = candidate_at cs k"
      by (intro candidate_at_eqI [OF ok ok']) (metis candidate_at_Some [OF ok] eq mem)
    with False show ?thesis by (auto split: option.splits)
  qed
qed

interpretation cand: keyed_store slot "route_Equal L" "\<lambda>r. Dst r \<noteq> None" "lawful_Equal L"
    candidate_at "candidates_add L" "candidates_remove L" candidates_ok
  for L :: "'x netlink_lib"
proof
  show "lawful_Equal L \<Longrightarrow> route_Equal L v v" for v by (rule lawful_EqualD(1))
  show "lawful_Equal L \<Longrightarrow> route_Equal L v w \<Longrightarrow> route_Equal L w v" for v w
    by (rule lawful_EqualD(2))
  show "lawful_Equal L \<Longrightarrow> route_Equal L u v \<Longrightarrow> route_Equal L v w \<Longrightarrow> route_Equal L u w" for u v w
    by (rule lawful_EqualD(3))
  show "candidates_ok s \<Longrightarrow> candidate_at s k = Some v \<Longrightarrow> slot v = k" for s :: "'x route list" and k v
    by (simp add: candidate_at_Some)
qed (fact lawful_slot candidate_at_add candidate_at_remove candidates_ok_add candidates_ok_remove)+

end
