(* ===== verification/Gateway_Handler.thy ===== *)
theory Gateway_Handler
  imports Gateway_Candidates "HOL-Library.Sublist"
begin

text \<open>
  The state of one gateway and the handlers that change it (\<^verbatim>\<open>src/gateways/gateway.go\<close>):
  \<^verbatim>\<open>processNotification\<close> and what it calls. The calls to the reporter (counters, gauges, log
  messages at level info and above, and the alert of a failed installation), to the netlink
  component and to the tickers are recorded as effects, in order. Debug messages that only trace
  the flow are not recorded.
\<close>

section \<open>Effects\<close>

datatype 'x effect =
    CounterInc string int
  | GaugeUpdate string int
  | Log log_level string
  | AddRoute "'x route"
  | TickerNew nat backoff
  | TickerStop nat

section \<open>State\<close>

definition LRGStateMissing :: int where "LRGStateMissing = 0"
definition LRGStateInstalling :: int where "LRGStateInstalling = 1"
definition LRGStateInstalled :: int where "LRGStateInstalled = 2"

lemmas gauge_values = LRGStateMissing_def LRGStateInstalling_def LRGStateInstalled_def

text \<open>
  \<^verbatim>\<open>gatewayState\<close>. A ticker is named by a number; \<open>next_ticker\<close> is the allocator. The tick channel
  of a ticker is named by its ticker, and \<open>None\<close> is the \<^verbatim>\<open>nil\<close> channel, which is never ready in a
  \<^verbatim>\<open>select\<close>. The notification channel is its content, oldest first.
\<close>

record 'x gateway_state =
  notification :: "'x notification list"
  currentRoute :: "'x route option"
  candidateRoutes :: "'x route list"
  installationBackoff :: "backoff option"
  installationTicker :: "nat option"
  installationTick :: "nat option"
  next_ticker :: nat

definition new_gateway_state :: "'x gateway_state" where
  "new_gateway_state = \<lparr>notification = [], currentRoute = None, candidateRoutes = [],
     installationBackoff = None, installationTicker = None, installationTick = None,
     next_ticker = 0\<rparr>"

text \<open>\<^verbatim>\<open>fmt.Sprintf("gw%d<suffix>", gateway.index)\<close>.\<close>

definition gw_metric :: "nat \<Rightarrow> string \<Rightarrow> string" where
  "gw_metric i name = ''gw'' @ show_nat i @ name"

lemma gw_metric_inject [simp]: "gw_metric i s = gw_metric i t \<longleftrightarrow> s = t"
  by (simp add: gw_metric_def)

section \<open>Handlers\<close>

text \<open>\<^verbatim>\<open>installationTicker.Stop()\<close>: a method call on a \<^verbatim>\<open>nil\<close> ticker panics.\<close>

definition stop_ticker :: "nat option \<Rightarrow> ('x effect, unit) go" where
  "stop_ticker ticker = (case ticker of
      None \<Rightarrow> go_panic NilDereference | Some t \<Rightarrow> go_emit [TickerStop t] ())"

definition install_backoff :: backoff where
  "install_backoff = \<lparr>InitialInterval = 100 * millisecond, MaxInterval = 1 * minute,
     MaxElapsedTime = 0, Multiplier = 2\<rparr>"

definition installRoute :: "nat \<Rightarrow> 'x gateway_state \<Rightarrow> ('x effect, 'x gateway_state) go" where
  "installRoute i st =
     go_bind (go_emit [GaugeUpdate (gw_metric i ''.state'') LRGStateInstalling] ()) (\<lambda>_.
     go_bind (if installationTick st \<noteq> None then stop_ticker (installationTicker st)
              else go_return ()) (\<lambda>_.
     let b = install_backoff; t = next_ticker st in
     go_emit [TickerNew t b]
       (st\<lparr>next_ticker := Suc t, installationBackoff := Some b, installationTicker := Some t,
           installationTick := Some t\<rparr>)))"

definition installCandidateRoute ::
    "'x netlink_lib \<Rightarrow> nat \<Rightarrow> lrg_config \<Rightarrow> 'x gateway_state \<Rightarrow> ('x effect, 'x gateway_state) go" where
  "installCandidateRoute L i cfg st =
     (case targetRoute L (candidateRoutes st) (To cfg) of
        None \<Rightarrow>
          if currentRoute st = None
          then go_emit [GaugeUpdate (gw_metric i ''.state'') LRGStateMissing] st
          else go_return st
      | Some target \<Rightarrow>
          if (case currentRoute st of None \<Rightarrow> False | Some cur \<Rightarrow> route_Equal L target cur)
          then go_return st
          else go_bind (go_emit [CounterInc (gw_metric i ''.changes'') 1,
                                 Log Info ''last-resort gateway change''] ())
                 (\<lambda>_. installRoute i (st\<lparr>currentRoute := Some target\<rparr>)))"

definition removeCandidateRoute ::
    "'x netlink_lib \<Rightarrow> 'x route \<Rightarrow> 'x gateway_state \<Rightarrow> ('x effect, 'x gateway_state) go" where
  "removeCandidateRoute L r st =
     go_return (st\<lparr>candidateRoutes := remove_loop L r [] (candidateRoutes st)\<rparr>)"

definition addCandidateRoute ::
    "'x netlink_lib \<Rightarrow> 'x route \<Rightarrow> 'x gateway_state \<Rightarrow> ('x effect, 'x gateway_state) go" where
  "addCandidateRoute L r st = (case add_loop L r [] (candidateRoutes st) of
      Inl p \<Rightarrow> go_panic p
    | Inr None \<Rightarrow> go_return st
    | Inr (Some new) \<Rightarrow> go_return (st\<lparr>candidateRoutes := new\<rparr>))"

text \<open>The branch of \<^verbatim>\<open>processNotification\<close> for an update that matches the \<^verbatim>\<open>to\<close> block.\<close>

definition process_target ::
    "'x netlink_lib \<Rightarrow> nat \<Rightarrow> lrg_config \<Rightarrow> 'x gateway_state \<Rightarrow> 'x route_update
      \<Rightarrow> ('x effect, 'x gateway_state) go" where
  "process_target L i cfg st u =
     go_bind (go_emit [CounterInc (gw_metric i ''.updates.target'') 1] ()) (\<lambda>_.
       if ru_Type u = RTM_DELROUTE
       then installCandidateRoute L i cfg (st\<lparr>currentRoute := None\<rparr>)
       else if ru_Type u = RTM_NEWROUTE
       then installCandidateRoute L i cfg (st\<lparr>currentRoute := Some (ru_Route u)\<rparr>)
       else go_emit [Log Error ''unknown route update type received''] st)"

text \<open>The branch for an update that matches the \<^verbatim>\<open>from\<close> block.\<close>

definition process_source ::
    "'x netlink_lib \<Rightarrow> nat \<Rightarrow> lrg_config \<Rightarrow> 'x gateway_state \<Rightarrow> 'x route_update
      \<Rightarrow> ('x effect, 'x gateway_state) go" where
  "process_source L i cfg st u =
     go_bind (go_emit [CounterInc (gw_metric i ''.updates.source'') 1] ()) (\<lambda>_.
       if ru_Type u = RTM_DELROUTE
       then go_bind (removeCandidateRoute L (ru_Route u) st) (installCandidateRoute L i cfg)
       else if ru_Type u = RTM_NEWROUTE
       then go_bind (addCandidateRoute L (ru_Route u) st) (installCandidateRoute L i cfg)
       else go_emit [Log Error ''unknwon route update type received''] st)"

definition processNotification ::
    "'x netlink_lib \<Rightarrow> nat \<Rightarrow> lrg_config \<Rightarrow> 'x gateway_state \<Rightarrow> 'x notification
      \<Rightarrow> ('x effect, 'x gateway_state) go" where
  "processNotification L i cfg st n =
     (if StartOfRIB n then go_return (st\<lparr>candidateRoutes := []\<rparr>)
      else if EndOfRIB n then installCandidateRoute L i cfg st
      else case RouteUpdate n of
          None \<Rightarrow> go_return st
        | Some u \<Rightarrow>
            go_bind (go_emit [CounterInc (gw_metric i ''.updates.total'') 1] ()) (\<lambda>_.
              if to_Match (To cfg) (ru_Route u) then process_target L i cfg st u
              else if from_Match (From cfg) (ru_Route u) then process_source L i cfg st u
              else go_emit [CounterInc (gw_metric i ''.updates.alien'') 1] st))"

text \<open>A sequence of notifications, in the order of the channel.\<close>

fun processNotifications ::
    "'x netlink_lib \<Rightarrow> nat \<Rightarrow> lrg_config \<Rightarrow> 'x gateway_state \<Rightarrow> 'x notification list
      \<Rightarrow> ('x effect, 'x gateway_state) go" where
  "processNotifications L i cfg st [] = go_return st"
| "processNotifications L i cfg st (n # ns) =
     go_bind (processNotification L i cfg st n) (\<lambda>st'. processNotifications L i cfg st' ns)"

section \<open>Invariant\<close>

text \<open>
  A pending tick channel belongs to the current ticker, which was allocated together with its
  backoff; the candidates have a destination, match the \<^verbatim>\<open>from\<close> block and occupy distinct slots.
\<close>

definition tickers_ok :: "'x gateway_state \<Rightarrow> bool" where
  "tickers_ok st \<longleftrightarrow> (case installationTick st of None \<Rightarrow> True
     | Some t \<Rightarrow> installationTicker st = Some t \<and> t < next_ticker st
                 \<and> installationBackoff st \<noteq> None)"

definition sources_ok :: "lrg_config \<Rightarrow> 'x route list \<Rightarrow> bool" where
  "sources_ok cfg cs \<longleftrightarrow> candidates_ok cs
     \<and> list_all (\<lambda>c. from_Match (From cfg) c \<and> \<not> to_Match (To cfg) c) cs"

definition gateway_ok :: "lrg_config \<Rightarrow> 'x gateway_state \<Rightarrow> bool" where
  "gateway_ok cfg st \<longleftrightarrow> tickers_ok st \<and> sources_ok cfg (candidateRoutes st)"

lemma gateway_ok_new [simp]: "gateway_ok cfg new_gateway_state"
  by (simp add: gateway_ok_def tickers_ok_def sources_ok_def new_gateway_state_def)

lemma sources_ok_Nil [simp]: "sources_ok cfg []"
  by (simp add: sources_ok_def)

lemma sources_ok_remove [inv_intros]:
  "sources_ok cfg cs \<Longrightarrow> sources_ok cfg (candidates_remove L r cs)"
  using candidates_ok_remove [of cs L r]
  by (auto simp: sources_ok_def candidates_remove_alt list_all_iff)

lemma sources_ok_add [inv_intros]:
  assumes "sources_ok cfg cs" and "from_Match (From cfg) r" and "\<not> to_Match (To cfg) r"
  shows "sources_ok cfg (candidates_add L r cs)"
proof -
  have "Dst r \<noteq> None" using from_Match_Dst [OF assms(2)] by auto
  with assms candidates_ok_add [of cs r L] show ?thesis
    by (auto simp: sources_ok_def candidates_add_alt list_all_iff)
qed

section \<open>Execution of the handlers in a good state\<close>

text \<open>The state and the calls of \<^verbatim>\<open>installRoute\<close>.\<close>

definition started :: "'x gateway_state \<Rightarrow> 'x gateway_state" where
  "started st = st\<lparr>next_ticker := Suc (next_ticker st),
     installationBackoff := Some install_backoff,
     installationTicker := Some (next_ticker st), installationTick := Some (next_ticker st)\<rparr>"

definition stop_current :: "'x gateway_state \<Rightarrow> 'x effect list" where
  "stop_current st = (case installationTick st of None \<Rightarrow> [] | Some t \<Rightarrow> [TickerStop t])"

lemma installRoute_eq [go_simps]:
  "tickers_ok st \<Longrightarrow> installRoute i st =
     Inr (started st, GaugeUpdate (gw_metric i ''.state'') LRGStateInstalling
            # stop_current st @ [TickerNew (next_ticker st) install_backoff])"
  by (auto simp: installRoute_def started_def stop_current_def stop_ticker_def tickers_ok_def
      go_bind_def go_emit_def go_return_def Let_def split: option.splits)

lemma started_simps [simp, go_simps]:
  "candidateRoutes (started st) = candidateRoutes st"
  "currentRoute (started st) = currentRoute st"
  "notification (started st) = notification st"
  "installationTick (started st) = Some (next_ticker st)"
  "next_ticker (started st) = Suc (next_ticker st)"
  "tickers_ok (started st)"
  by (simp_all add: started_def tickers_ok_def split: option.split)

lemma update_simps [simp, go_simps]:
  "tickers_ok (st\<lparr>currentRoute := r\<rparr>) = tickers_ok st"
  "tickers_ok (st\<lparr>candidateRoutes := cs\<rparr>) = tickers_ok st"
  "tickers_ok (st\<lparr>notification := q\<rparr>) = tickers_ok st"
  "stop_current (st\<lparr>currentRoute := r\<rparr>) = stop_current st"
  "stop_current (st\<lparr>candidateRoutes := cs\<rparr>) = stop_current st"
  by (simp_all add: tickers_ok_def stop_current_def split: option.split)

text \<open>Whether \<^verbatim>\<open>installCandidateRoute\<close> keeps the current route: no target, or an equal one.\<close>

definition keeps_current ::
    "'x netlink_lib \<Rightarrow> lrg_config \<Rightarrow> 'x route list \<Rightarrow> 'x route option \<Rightarrow> bool" where
  "keeps_current L cfg cs cur = (case targetRoute L cs (To cfg) of None \<Rightarrow> True
     | Some t \<Rightarrow> (case cur of None \<Rightarrow> False | Some c \<Rightarrow> route_Equal L t c))"

lemma installCandidateRoute_keep [go_simps]:
  "keeps_current L cfg (candidateRoutes st) (currentRoute st) \<Longrightarrow>
     installCandidateRoute L i cfg st =
       Inr (st, if targetRoute L (candidateRoutes st) (To cfg) = None \<and> currentRoute st = None
                then [GaugeUpdate (gw_metric i ''.state'') LRGStateMissing] else [])"
  by (auto simp: installCandidateRoute_def keeps_current_def go_emit_def go_return_def
      split: option.splits)

lemma installCandidateRoute_change [go_simps]:
  assumes "tickers_ok st" and "\<not> keeps_current L cfg (candidateRoutes st) (currentRoute st)"
  shows "installCandidateRoute L i cfg st =
       Inr (started (st\<lparr>currentRoute := targetRoute L (candidateRoutes st) (To cfg)\<rparr>),
            [CounterInc (gw_metric i ''.changes'') 1, Log Info ''last-resort gateway change'',
             GaugeUpdate (gw_metric i ''.state'') LRGStateInstalling]
            @ stop_current st @ [TickerNew (next_ticker st) install_backoff])"
  using assms
  by (auto simp: installCandidateRoute_def keeps_current_def installRoute_eq go_emit_def
      go_bind_def split: option.splits)

lemma addCandidateRoute_eq [go_simps]:
  assumes "sources_ok cfg (candidateRoutes st)" and "from_Match (From cfg) r"
  shows "addCandidateRoute L r st =
    Inr (st\<lparr>candidateRoutes := candidates_add L r (candidateRoutes st)\<rparr>, [])"
proof -
  have "\<forall>c \<in> set (candidateRoutes st). Dst c \<noteq> None"
    using assms(1) by (simp add: sources_ok_def candidates_ok_def)
  moreover have "Dst r \<noteq> None" using from_Match_Dst [OF assms(2)] by auto
  ultimately show ?thesis
    by (simp add: addCandidateRoute_def candidates_add_def add_loop_eq go_return_def)
qed

lemma removeCandidateRoute_eq [go_simps]:
  "removeCandidateRoute L r st =
    Inr (st\<lparr>candidateRoutes := candidates_remove L r (candidateRoutes st)\<rparr>, [])"
  by (simp add: removeCandidateRoute_def candidates_remove_def go_return_def)

section \<open>Specification of a notification\<close>

text \<open>What a notification means to a gateway.\<close>

datatype 'x stimulus =
    Reset
  | Resync
  | TargetSeen "'x route"
  | TargetGone
  | SourceSeen "'x route"
  | SourceGone "'x route"
  | Ignored

definition classify :: "lrg_config \<Rightarrow> 'x notification \<Rightarrow> 'x stimulus" where
  "classify cfg n =
     (if StartOfRIB n then Reset
      else if EndOfRIB n then Resync
      else case RouteUpdate n of None \<Rightarrow> Ignored
      | Some u \<Rightarrow> let r = ru_Route u in
          if to_Match (To cfg) r then
            (if ru_Type u = RTM_DELROUTE then TargetGone
             else if ru_Type u = RTM_NEWROUTE then TargetSeen r else Ignored)
          else if from_Match (From cfg) r then
            (if ru_Type u = RTM_DELROUTE then SourceGone r
             else if ru_Type u = RTM_NEWROUTE then SourceSeen r else Ignored)
          else Ignored)"

text \<open>
  The specification keeps three things: the candidates, the last-resort route the gateway
  believes in, and whether its installation is pending. A stimulus updates what is known of
  source and target routes; then, unless it is a reset or irrelevant, the gateway moves to the
  target computed from the candidates, if there is one and it differs.
\<close>

record 'x gateway_spec =
  sp_candidates :: "'x route list"
  sp_current :: "'x route option"
  sp_pending :: bool

definition spec_learn :: "'x netlink_lib \<Rightarrow> 'x stimulus \<Rightarrow> 'x gateway_spec \<Rightarrow> 'x gateway_spec" where
  "spec_learn L e s = (case e of
      Reset \<Rightarrow> s\<lparr>sp_candidates := []\<rparr>
    | Resync \<Rightarrow> s
    | TargetSeen r \<Rightarrow> s\<lparr>sp_current := Some r\<rparr>
    | TargetGone \<Rightarrow> s\<lparr>sp_current := None\<rparr>
    | SourceSeen r \<Rightarrow> s\<lparr>sp_candidates := candidates_add L r (sp_candidates s)\<rparr>
    | SourceGone r \<Rightarrow> s\<lparr>sp_candidates := candidates_remove L r (sp_candidates s)\<rparr>
    | Ignored \<Rightarrow> s)"

definition spec_settle :: "'x netlink_lib \<Rightarrow> lrg_config \<Rightarrow> 'x gateway_spec \<Rightarrow> 'x gateway_spec" where
  "spec_settle L cfg s =
     (if keeps_current L cfg (sp_candidates s) (sp_current s) then s
      else s\<lparr>sp_current := targetRoute L (sp_candidates s) (To cfg), sp_pending := True\<rparr>)"

definition spec_step ::
    "'x netlink_lib \<Rightarrow> lrg_config \<Rightarrow> 'x stimulus \<Rightarrow> 'x gateway_spec \<Rightarrow> 'x gateway_spec" where
  "spec_step L cfg e s =
     (if e = Reset \<or> e = Ignored then spec_learn L e s else spec_settle L cfg (spec_learn L e s))"

definition abs_gateway :: "'x gateway_state \<Rightarrow> 'x gateway_spec" where
  "abs_gateway st = \<lparr>sp_candidates = candidateRoutes st, sp_current = currentRoute st,
     sp_pending = (installationTick st \<noteq> None)\<rparr>"

section \<open>The handlers implement the specification\<close>

lemma abs_gateway_simps [simp]:
  "sp_candidates (abs_gateway st) = candidateRoutes st"
  "sp_current (abs_gateway st) = currentRoute st"
  "sp_pending (abs_gateway st) = (installationTick st \<noteq> None)"
  by (simp_all add: abs_gateway_def)

definition implements ::
    "'x netlink_lib \<Rightarrow> lrg_config \<Rightarrow> 'x gateway_state \<Rightarrow> 'x gateway_spec
      \<Rightarrow> 'x gateway_state \<Rightarrow> bool" where
  "implements L cfg st s st' \<longleftrightarrow> gateway_ok cfg st' \<and> abs_gateway st' = s
     \<and> notification st' = notification st"

lemma installCandidateRoute_implements:
  assumes "gateway_ok cfg st"
  shows "go_ok (installCandidateRoute L i cfg st)
           (\<lambda>st' es. implements L cfg st (spec_settle L cfg (abs_gateway st)) st')"
proof (cases "keeps_current L cfg (candidateRoutes st) (currentRoute st)")
  case True
  with assms show ?thesis
    by (simp add: installCandidateRoute_keep implements_def spec_settle_def)
next
  case False
  with assms show ?thesis
    by (simp add: gateway_ok_def installCandidateRoute_change implements_def spec_settle_def
        abs_gateway_def)
qed

lemma implements_after:
  assumes "gateway_ok cfg st1" and "notification st1 = notification st" and "abs_gateway st1 = s"
  shows "go_ok (installCandidateRoute L i cfg st1)
           (\<lambda>st' es. implements L cfg st (spec_settle L cfg s) st')"
  using installCandidateRoute_implements [OF assms(1), of L i] assms(2,3)
  by (auto intro: go_ok_mono simp: implements_def)

lemma abs_gateway_update [simp]:
  "abs_gateway (st\<lparr>candidateRoutes := cs\<rparr>) = (abs_gateway st)\<lparr>sp_candidates := cs\<rparr>"
  "abs_gateway (st\<lparr>currentRoute := r\<rparr>) = (abs_gateway st)\<lparr>sp_current := r\<rparr>"
  "abs_gateway (st\<lparr>notification := q\<rparr>) = abs_gateway st"
  by (simp_all add: abs_gateway_def)

lemma gateway_ok_update [simp]:
  "gateway_ok cfg (st\<lparr>candidateRoutes := cs\<rparr>) \<longleftrightarrow> tickers_ok st \<and> sources_ok cfg cs"
  "gateway_ok cfg (st\<lparr>currentRoute := r\<rparr>) \<longleftrightarrow> gateway_ok cfg st"
  "gateway_ok cfg (st\<lparr>notification := q\<rparr>) \<longleftrightarrow> gateway_ok cfg st"
  by (simp_all add: gateway_ok_def)

lemma gateway_okD: "gateway_ok cfg st \<Longrightarrow> tickers_ok st"
    "gateway_ok cfg st \<Longrightarrow> sources_ok cfg (candidateRoutes st)"
  by (simp_all add: gateway_ok_def)

lemma implements_here:
  "gateway_ok cfg st' \<Longrightarrow> notification st' = notification st \<Longrightarrow> abs_gateway st' = s \<Longrightarrow>
     implements L cfg st s st'"
  by (simp add: implements_def)

lemma processNotification_implements:
  assumes ok: "gateway_ok cfg st"
  shows "go_ok (processNotification L i cfg st n)
           (\<lambda>st' es. implements L cfg st (spec_step L cfg (classify cfg n) (abs_gateway st)) st')"
proof (cases "StartOfRIB n \<or> EndOfRIB n \<or> RouteUpdate n = None")
  case True
  with ok gateway_okD [OF ok] show ?thesis
    by (auto simp: processNotification_def classify_def spec_step_def spec_learn_def
        intro!: implements_here implements_after)
next
  case False
  then obtain u where "RouteUpdate n = Some u" "\<not> StartOfRIB n" "\<not> EndOfRIB n" by blast
  with ok gateway_okD [OF ok] show ?thesis
    by (auto simp: processNotification_def process_target_def process_source_def
        classify_def spec_step_def spec_learn_def Let_def removeCandidateRoute_eq
        addCandidateRoute_eq sources_ok_remove sources_ok_add
        intro!: implements_here implements_after)
qed

text \<open>A sequence of notifications runs to its end and implements the sequence of stimuli.\<close>

fun spec_steps ::
    "'x netlink_lib \<Rightarrow> lrg_config \<Rightarrow> 'x stimulus list \<Rightarrow> 'x gateway_spec \<Rightarrow> 'x gateway_spec" where
  "spec_steps L cfg [] s = s"
| "spec_steps L cfg (e # es) s = spec_steps L cfg es (spec_step L cfg e s)"

lemma processNotifications_implements:
  "gateway_ok cfg st \<Longrightarrow> go_ok (processNotifications L i cfg st ns)
     (\<lambda>st' es. implements L cfg st (spec_steps L cfg (map (classify cfg) ns) (abs_gateway st)) st')"
proof (induction ns arbitrary: st)
  case Nil
  then show ?case by (simp add: implements_here)
next
  case (Cons n ns)
  have "go_ok (processNotifications L i cfg st' ns)
      (\<lambda>st'' fs. implements L cfg st (spec_steps L cfg (map (classify cfg) (n # ns)) (abs_gateway st)) st'')"
    if "implements L cfg st (spec_step L cfg (classify cfg n) (abs_gateway st)) st'" for st'
    using that Cons.IH [of st'] by (auto simp: implements_def intro: go_ok_mono)
  with processNotification_implements [OF Cons.prems, of L i n] show ?case
    by (auto intro: go_ok_mono)
qed

section \<open>Properties of the handlers\<close>


definition example_route :: "go_int \<Rightarrow> nat \<Rightarrow> nat route" where
  "example_route prio x = \<lparr>Dst = Some default_ipv4, Protocol = 12, Priority = prio, Table = 254,
     Tos = 0, rt_Type = 1, rt_rest = x\<rparr>"


text \<open>
  \<^verbatim>\<open>processNotification\<close> refines its specification on every branch. From a well-formed state
  any sequence of notifications is processed without a panic, the invariant is kept, and the
  candidates, the current route and the pending flag are those of the specification.
\<close>

theorem processNotifications_refine_spec:
  assumes "gateway_ok cfg st"
  shows "\<exists>st' es. processNotifications L i cfg st ns = Inr (st', es) \<and> gateway_ok cfg st'
     \<and> abs_gateway st' = spec_steps L cfg (map (classify cfg) ns) (abs_gateway st)
     \<and> notification st' = notification st"
  using processNotifications_implements [OF assms, of L i ns]
  by (auto simp: go_ok_def implements_def)

definition example_config :: lrg_config where
  "example_config = doc_meaning example_doc default_ipv4"

definition new_route :: "'x route \<Rightarrow> 'x notification" where
  "new_route r = route_notif \<lparr>ru_Type = RTM_NEWROUTE, ru_Route = r\<rparr>"

definition del_route :: "'x route \<Rightarrow> 'x notification" where
  "del_route r = route_notif \<lparr>ru_Type = RTM_DELROUTE, ru_Route = r\<rparr>"

theorem processNotifications_refine_spec_witness:
  "\<exists>st' es. processNotifications plain_lib 1 example_config new_gateway_state
     [start_of_rib, new_route (example_route 5 2), end_of_rib] = Inr (st', es)
     \<and> gateway_ok example_config st'"
  using processNotifications_refine_spec [OF gateway_ok_new] by blast

text \<open>
  Settled: if there is something to install (a candidate, or a blackhole is wanted), the current
  route is that target, or a route the library calls equal to it.
\<close>

definition settled :: "'x netlink_lib \<Rightarrow> lrg_config \<Rightarrow> 'x route list \<Rightarrow> 'x route option \<Rightarrow> bool" where
  "settled L cfg cs cur = (case targetRoute L cs (To cfg) of None \<Rightarrow> True
     | Some t \<Rightarrow> (case cur of None \<Rightarrow> False | Some c \<Rightarrow> c = t \<or> route_Equal L t c))"

abbreviation spec_settled where
  "spec_settled L cfg s \<equiv> settled L cfg (sp_candidates s) (sp_current s)"

lemma spec_settle_settled: "spec_settled L cfg (spec_settle L cfg s)"
  by (auto simp: settled_def spec_settle_def keeps_current_def split: option.splits)

lemma spec_step_settled:
  assumes "e \<noteq> Reset" and "e = Ignored \<longrightarrow> spec_settled L cfg s"
  shows "spec_settled L cfg (spec_step L cfg e s)"
  using assms by (auto simp: spec_step_def spec_settle_settled spec_learn_def)

lemma spec_steps_append:
  "spec_steps L cfg (es @ fs) s = spec_steps L cfg fs (spec_steps L cfg es s)"
  by (induction es arbitrary: s) simp_all

lemma spec_steps_settled:
  "spec_settled L cfg s \<Longrightarrow> Reset \<notin> set es \<Longrightarrow> spec_settled L cfg (spec_steps L cfg es s)"
  by (induction es arbitrary: s) (auto simp: spec_step_settled)

text \<open>
  The gateway is up to date: once a notification that is neither a start of RIB nor
  irrelevant has been processed, and until the next start of RIB, the current route is the
  target of the present candidates (or equal to it). In particular after every end of RIB and
  after every update of a source or of the last-resort route itself.
\<close>

theorem gateway_up_to_date:
  assumes ok: "gateway_ok cfg st"
    and e: "classify cfg n \<noteq> Reset" "classify cfg n \<noteq> Ignored"
    and post: "Reset \<notin> set (map (classify cfg) ns)"
    and run: "processNotifications L i cfg st (pre @ n # ns) = Inr (st', es)"
  shows "settled L cfg (candidateRoutes st') (currentRoute st')"
proof -
  have "abs_gateway st' =
      spec_steps L cfg (map (classify cfg) (pre @ n # ns)) (abs_gateway st)"
    using processNotifications_refine_spec [OF ok, of L i "pre @ n # ns"] run by auto
  moreover have "spec_settled L cfg
      (spec_steps L cfg (map (classify cfg) (pre @ n # ns)) (abs_gateway st))"
    using e post by (simp add: spec_steps_append spec_steps_settled spec_step_settled)
  ultimately show ?thesis by (metis abs_gateway_simps(1,2))
qed

theorem gateway_up_to_date_witness:
  "\<exists>st' es. processNotifications plain_lib 1 example_config new_gateway_state
       ([start_of_rib] @ new_route (example_route 5 2) # [end_of_rib]) = Inr (st', es)
     \<and> settled plain_lib example_config (candidateRoutes st') (currentRoute st')"
proof -
  have c: "classify example_config (new_route (example_route 5 2)) = SourceSeen (example_route 5 2)"
    by code_simp
  have e: "Reset \<notin> set (map (classify example_config) [end_of_rib :: nat notification])"
    by (simp add: classify_def)
  obtain st' es where run: "processNotifications plain_lib 1 example_config new_gateway_state
       ([start_of_rib] @ new_route (example_route 5 2) # [end_of_rib]) = Inr (st', es)"
    using processNotifications_implements [OF gateway_ok_new] unfolding go_ok_def by blast
  from gateway_up_to_date [OF gateway_ok_new _ _ e run] c run show ?thesis by simp
qed

subsection \<open>The last known route\<close>

lemma spec_settle_keeps: "sp_current s \<noteq> None \<Longrightarrow> sp_current (spec_settle L cfg s) \<noteq> None"
  by (auto simp: spec_settle_def keeps_current_def split: option.splits)

lemma spec_steps_keep_current:
  "sp_current s \<noteq> None \<Longrightarrow> TargetGone \<notin> set es \<Longrightarrow> sp_current (spec_steps L cfg es s) \<noteq> None"
proof (induction es arbitrary: s)
  case (Cons e es)
  then have "sp_current (spec_learn L e s) \<noteq> None"
    by (cases e) (auto simp: spec_learn_def)
  then have "sp_current (spec_step L cfg e s) \<noteq> None"
    using spec_settle_keeps [of "spec_learn L e s" L cfg] by (simp add: spec_step_def)
  with Cons show ?case by auto
qed simp


definition gateway_with :: "nat route list \<Rightarrow> nat route option \<Rightarrow> nat gateway_state" where
  "gateway_with cs cur = new_gateway_state\<lparr>candidateRoutes := cs, currentRoute := cur\<rparr>"

lemma gateway_with_ok: "sources_ok cfg cs \<Longrightarrow> gateway_ok cfg (gateway_with cs cur)"
  by (simp add: gateway_with_def gateway_ok_def tickers_ok_def new_gateway_state_def)

lemma gateway_with_simps [simp]:
  "candidateRoutes (gateway_with cs cur) = cs" "currentRoute (gateway_with cs cur) = cur"
  "installationTick (gateway_with cs cur) = None" "next_ticker (gateway_with cs cur) = 0"
  by (simp_all add: gateway_with_def new_gateway_state_def)


text \<open>The handler, stimulus by stimulus.\<close>

lemma process_SourceGone:
  assumes "classify cfg n = SourceGone r"
  shows "processNotification L i cfg st n =
    go_bind (go_emit [CounterInc (gw_metric i ''.updates.total'') 1,
                      CounterInc (gw_metric i ''.updates.source'') 1] ())
      (\<lambda>_. installCandidateRoute L i cfg
             (st\<lparr>candidateRoutes := candidates_remove L r (candidateRoutes st)\<rparr>))"
  using assms
  by (auto simp: classify_def processNotification_def process_source_def removeCandidateRoute_def
      candidates_remove_def Let_def go_bind_emit_emit split: if_splits option.splits)

lemma process_TargetGone:
  assumes "classify cfg n = TargetGone"
  shows "processNotification L i cfg st n =
    go_bind (go_emit [CounterInc (gw_metric i ''.updates.total'') 1,
                      CounterInc (gw_metric i ''.updates.target'') 1] ())
      (\<lambda>_. installCandidateRoute L i cfg (st\<lparr>currentRoute := None\<rparr>))"
  using assms
  by (auto simp: classify_def processNotification_def process_target_def Let_def
      go_bind_emit_emit split: if_splits option.splits)

lemma process_TargetSeen:
  assumes "classify cfg n = TargetSeen r"
  shows "processNotification L i cfg st n =
    go_bind (go_emit [CounterInc (gw_metric i ''.updates.total'') 1,
                      CounterInc (gw_metric i ''.updates.target'') 1] ())
      (\<lambda>_. installCandidateRoute L i cfg (st\<lparr>currentRoute := Some r\<rparr>))"
  using assms
  by (auto simp: classify_def processNotification_def process_target_def Let_def
      go_bind_emit_emit split: if_splits option.splits)

lemma process_SourceSeen:
  assumes "classify cfg n = SourceSeen r" and "sources_ok cfg (candidateRoutes st)"
  shows "processNotification L i cfg st n =
    go_bind (go_emit [CounterInc (gw_metric i ''.updates.total'') 1,
                      CounterInc (gw_metric i ''.updates.source'') 1] ())
      (\<lambda>_. installCandidateRoute L i cfg
             (st\<lparr>candidateRoutes := candidates_add L r (candidateRoutes st)\<rparr>))"
proof -
  have "from_Match (From cfg) r"
    using assms(1) by (auto simp: classify_def Let_def split: if_splits option.splits)
  then have "addCandidateRoute L r st =
      go_return (st\<lparr>candidateRoutes := candidates_add L r (candidateRoutes st)\<rparr>)"
    using addCandidateRoute_eq [OF assms(2)] by (simp add: go_return_def)
  with assms(1) show ?thesis
    by (auto simp: classify_def processNotification_def process_source_def Let_def
        go_bind_emit_emit split: if_splits option.splits)
qed

lemmas process_stimulus = process_SourceGone process_TargetGone process_TargetSeen

lemma all_removed: "\<forall>c \<in> set cs. route_Equal L c r \<Longrightarrow> candidates_remove L r cs = []"
  by (simp add: candidates_remove_alt filter_empty_conv)

text \<open>
  When the last candidate disappears and no blackhole is configured, the last known route
  stays: the current route and a pending installation are untouched, no ticker is started or
  stopped, and nothing is sent to the kernel.
\<close>

theorem last_candidate_gone_keeps_route:
  assumes "to_Blackhole (To cfg) = False" and "classify cfg n = SourceGone r"
    and "\<forall>c \<in> set (candidateRoutes st). route_Equal L c r"
  shows "processNotification L i cfg st n = Inr (st\<lparr>candidateRoutes := []\<rparr>,
      [CounterInc (gw_metric i ''.updates.total'') 1, CounterInc (gw_metric i ''.updates.source'') 1]
      @ (if currentRoute st = None then [GaugeUpdate (gw_metric i ''.state'') LRGStateMissing]
         else []))"
  using assms
  by (simp add: process_stimulus go_bind_emit_Inr all_removed installCandidateRoute_keep keeps_current_def
      targetRoute_Nil go_bind_def go_emit_def)

definition no_blackhole_config :: lrg_config where
  "no_blackhole_config = example_config\<lparr>To := (To example_config)\<lparr>to_Blackhole := False\<rparr>\<rparr>"

theorem last_candidate_gone_keeps_route_witness:
  "processNotification plain_lib 1 no_blackhole_config
     (gateway_with [example_route 5 2] (Some (example_route 100 2))) (del_route (example_route 5 2)) =
   Inr (gateway_with [] (Some (example_route 100 2)),
     [CounterInc (gw_metric 1 ''.updates.total'') 1, CounterInc (gw_metric 1 ''.updates.source'') 1])"
proof -
  have "to_Blackhole (To no_blackhole_config) = False"
    and "classify no_blackhole_config (del_route (example_route 5 2)) = SourceGone (example_route 5 2)"
    and "\<forall>c \<in> set (candidateRoutes (gateway_with [example_route 5 2] (Some (example_route 100 2)))).
           route_Equal plain_lib c (example_route 5 2)"
    by code_simp+
  from last_candidate_gone_keeps_route [OF this] show ?thesis
    by (simp add: gateway_with_def new_gateway_state_def)
qed

text \<open>
  With \<^verbatim>\<open>blackhole\<close> set, losing the last candidate replaces the last known route by a
  blackhole route at once, although a last-resort route was installed: the documentation of
  the option says it applies only when there is no last-resort route already.
\<close>

theorem blackhole_displaces_last_route:
  assumes "gateway_ok cfg st" and "to_Blackhole (To cfg) = True"
    and "classify cfg n = SourceGone r"
    and "\<forall>c \<in> set (candidateRoutes st). route_Equal L c r"
    and "currentRoute st = Some cur"
    and "\<not> route_Equal L (retarget (To cfg) (blackhole_route L)) cur"
  shows "\<exists>st' es. processNotification L i cfg st n = Inr (st', es)
     \<and> currentRoute st' = Some (retarget (To cfg) (blackhole_route L))
     \<and> installationTick st' = Some (next_ticker st)"
proof -
  have "\<not> keeps_current L cfg [] (currentRoute st)"
    using assms by (simp add: keeps_current_def targetRoute_Nil)
  then show ?thesis
    using assms gateway_okD [OF assms(1)]
    by (simp add: process_stimulus go_bind_emit_Inr all_removed installCandidateRoute_change targetRoute_Nil
        go_bind_def go_emit_def)
qed

theorem blackhole_displaces_last_route_witness:
  "\<exists>st' es. processNotification plain_lib 1 example_config
     (gateway_with [example_route 5 2] (Some (example_route 100 2))) (del_route (example_route 5 2))
       = Inr (st', es)
     \<and> currentRoute st' = Some (retarget (To example_config) (blackhole_route plain_lib))
     \<and> installationTick st' = Some 0"
proof -
  have ok: "gateway_ok example_config (gateway_with [example_route 5 2] (Some (example_route 100 2)))"
    by (rule gateway_with_ok) code_simp
  have "to_Blackhole (To example_config) = True"
    and "classify example_config (del_route (example_route 5 2)) = SourceGone (example_route 5 2)"
    and "\<forall>c \<in> set (candidateRoutes (gateway_with [example_route 5 2] (Some (example_route 100 2)))).
           route_Equal plain_lib c (example_route 5 2)"
    and "currentRoute (gateway_with [example_route 5 2] (Some (example_route 100 2)))
           = Some (example_route 100 2)"
    and "\<not> route_Equal plain_lib (retarget (To example_config) (blackhole_route plain_lib))
           (example_route 100 2)"
    by code_simp+
  from blackhole_displaces_last_route [OF ok this, of 1] show ?thesis by simp
qed

text \<open>
  When the kernel reports that the last-resort route is gone (or has become a different
  one), the gateway reinstalls its target, if it has one: the old ticker, if any, is stopped and
  a new one is started, and the gauge is set to \<^verbatim>\<open>installing\<close>.
\<close>

theorem target_lost_is_reinstalled:
  assumes ok: "gateway_ok cfg st" and t: "targetRoute L (candidateRoutes st) (To cfg) = Some t"
    and ev: "classify cfg n = TargetGone
      \<or> (\<exists>r. classify cfg n = TargetSeen r \<and> route_Equal L t r = False)"
  shows "\<exists>st' es. processNotification L i cfg st n = Inr (st', es)
     \<and> currentRoute st' = Some t \<and> installationTick st' = Some (next_ticker st)
     \<and> suffix ([GaugeUpdate (gw_metric i ''.state'') LRGStateInstalling] @ stop_current st
         @ [TickerNew (next_ticker st) install_backoff]) es"
proof -
  have run: "\<exists>cur. \<not> keeps_current L cfg (candidateRoutes st) cur
      \<and> processNotification L i cfg st n =
          go_bind (go_emit [CounterInc (gw_metric i ''.updates.total'') 1,
                            CounterInc (gw_metric i ''.updates.target'') 1] ())
            (\<lambda>_. installCandidateRoute L i cfg (st\<lparr>currentRoute := cur\<rparr>))"
    using ev
  proof
    assume "classify cfg n = TargetGone"
    then show ?thesis
      using t by (intro exI [of _ None]) (simp add: process_stimulus keeps_current_def)
  next
    assume "\<exists>r. classify cfg n = TargetSeen r \<and> route_Equal L t r = False"
    then obtain r where "classify cfg n = TargetSeen r" "route_Equal L t r = False" by blast
    then show ?thesis
      using t by (intro exI [of _ "Some r"]) (simp add: process_stimulus keeps_current_def)
  qed
  then show ?thesis
    using gateway_okD(1) [OF ok] t
    by (auto simp: installCandidateRoute_change go_bind_emit_Inr suffix_def)
qed

theorem target_lost_is_reinstalled_witness:
  "\<exists>st' es. processNotification plain_lib 1 no_blackhole_config
     (gateway_with [example_route 5 2] (Some (example_route 100 2)))
     (del_route (retarget (To no_blackhole_config) (example_route 5 2))) = Inr (st', es)
     \<and> currentRoute st' = Some (retarget (To no_blackhole_config) (example_route 5 2))"
proof -
  have ok: "gateway_ok no_blackhole_config
      (gateway_with [example_route 5 2] (Some (example_route 100 2)))"
    by (rule gateway_with_ok) code_simp
  have "targetRoute plain_lib (candidateRoutes (gateway_with [example_route 5 2]
          (Some (example_route 100 2)))) (To no_blackhole_config)
        = Some (retarget (To no_blackhole_config) (example_route 5 2))"
    and "classify no_blackhole_config
           (del_route (retarget (To no_blackhole_config) (example_route 5 2))) = TargetGone"
    by code_simp+
  from target_lost_is_reinstalled [OF ok this(1) disjI1, OF this(2), of 1] show ?thesis by blast
qed

subsection \<open>Metrics\<close>

text \<open>What a counter was incremented by, and the number of updates among notifications.\<close>

definition counted :: "string \<Rightarrow> 'x effect list \<Rightarrow> int" where
  "counted name es = sum_list (map (\<lambda>e. case e of CounterInc m k \<Rightarrow> if m = name then k else 0 | _ \<Rightarrow> 0) es)"

lemma counted_simps [simp]:
  "counted name [] = 0"
  "counted name (es @ fs) = counted name es + counted name fs"
  "counted name (CounterInc m k # es) = (if m = name then k else 0) + counted name es"
  "counted name (GaugeUpdate m k # es) = counted name es"
  "counted name (Log l msg # es) = counted name es"
  "counted name (AddRoute r # es) = counted name es"
  "counted name (TickerNew t b # es) = counted name es"
  "counted name (TickerStop t # es) = counted name es"
  by (simp_all add: counted_def)

definition is_update :: "'x notification \<Rightarrow> bool" where
  "is_update n \<longleftrightarrow> \<not> StartOfRIB n \<and> \<not> EndOfRIB n \<and> RouteUpdate n \<noteq> None"

definition counters_agree :: "nat \<Rightarrow> nat \<Rightarrow> 'x effect list \<Rightarrow> bool" where
  "counters_agree i k es \<longleftrightarrow> counted (gw_metric i ''.updates.total'') es = int k
     \<and> counted (gw_metric i ''.updates.target'') es + counted (gw_metric i ''.updates.source'') es
       + counted (gw_metric i ''.updates.alien'') es = int k"

lemma counters_agree_append:
  "counters_agree i k es \<Longrightarrow> counters_agree i j fs \<Longrightarrow> counters_agree i (k + j) (es @ fs)"
  by (auto simp: counters_agree_def)

lemma installRoute_counts: "installRoute i st = Inr (st', es) \<Longrightarrow> counters_agree i 0 es"
  by (auto simp: installRoute_def stop_ticker_def counters_agree_def go_bind_eq_Inr Let_def
      split: if_splits option.splits)

lemma installCandidateRoute_counts:
  "installCandidateRoute L i cfg st = Inr (st', es) \<Longrightarrow> counters_agree i 0 es"
  by (auto simp: installCandidateRoute_def go_bind_eq_Inr counters_agree_def
      dest!: installRoute_counts split: option.splits if_splits)

lemma candidate_ops_silent:
  "addCandidateRoute L r st = Inr (st', es) \<Longrightarrow> es = []"
  "removeCandidateRoute L r st = Inr (st', es) \<Longrightarrow> es = []"
  by (auto simp: addCandidateRoute_def removeCandidateRoute_def split: sum.splits option.splits)

lemma processNotification_counts:
  "processNotification L i cfg st n = Inr (st', es) \<Longrightarrow>
     counters_agree i (if is_update n then 1 else 0) es"
  using installCandidateRoute_counts [of L i cfg]
  by (fastforce simp: processNotification_def process_target_def process_source_def is_update_def
      go_bind_eq_Inr counters_agree_def dest!: candidate_ops_silent
      split: if_splits option.splits)

text \<open>
  The update counters are consistent: over any processed sequence of notifications the
  total counter grows by the number of route updates, and so does the sum of the counters for
  target, source and alien updates.
\<close>

theorem update_counters_consistent:
  "processNotifications L i cfg st ns = Inr (st', es) \<Longrightarrow>
     counters_agree i (length (filter is_update ns)) es"
proof (induction ns arbitrary: st es)
  case Nil
  then show ?case by (simp add: counters_agree_def)
next
  case (Cons n ns)
  then obtain st1 xs ys where n: "processNotification L i cfg st n = Inr (st1, xs)"
    and ns: "processNotifications L i cfg st1 ns = Inr (st', ys)" and es: "es = xs @ ys"
    by (auto simp: go_bind_eq_Inr)
  from counters_agree_append [OF processNotification_counts [OF n] Cons.IH [OF ns]]
  show ?case by (simp add: es split: if_splits)
qed

theorem update_counters_consistent_witness:
  "\<exists>st' es. processNotifications plain_lib 1 example_config new_gateway_state
       [start_of_rib, new_route (example_route 5 2), end_of_rib] = Inr (st', es)
     \<and> counters_agree 1 1 es"
proof -
  obtain st' es where run: "processNotifications plain_lib 1 example_config new_gateway_state
       [start_of_rib, new_route (example_route 5 2), end_of_rib] = Inr (st', es)"
    using processNotifications_implements [OF gateway_ok_new] unfolding go_ok_def by blast
  from update_counters_consistent [OF run] run show ?thesis
    by (simp add: is_update_def new_route_def)
qed

text \<open>
  The state gauge is not set when the gateway learns an already installed last-resort route
  from the kernel: the current route is known, but the gauge keeps the value it had (\<^verbatim>\<open>missing\<close>,
  or nothing at all), and the end of the RIB does not change that.
\<close>

theorem observed_route_leaves_gauge:
  assumes "to_Blackhole (To cfg) = False" and "candidateRoutes st = []"
    and "classify cfg n = TargetSeen r"
  shows "\<exists>es. processNotifications L i cfg st [n, end_of_rib] = Inr (st\<lparr>currentRoute := Some r\<rparr>, es)
     \<and> \<not> list_ex (\<lambda>e. case e of GaugeUpdate m v \<Rightarrow> True | _ \<Rightarrow> False) es"
proof -
  have keep: "keeps_current L cfg [] c" for c
    using assms(1) by (simp add: keeps_current_def targetRoute_Nil)
  have "processNotification L i cfg st n = Inr (st\<lparr>currentRoute := Some r\<rparr>,
      [CounterInc (gw_metric i ''.updates.total'') 1, CounterInc (gw_metric i ''.updates.target'') 1])"
    using assms keep
    by (simp add: process_stimulus installCandidateRoute_keep go_bind_emit_Inr)
  then show ?thesis
    using assms keep
    by (simp add: processNotification_def [of L i cfg _ end_of_rib] installCandidateRoute_keep
        go_bind_def go_return_def)
qed

theorem observed_route_leaves_gauge_witness:
  "\<exists>es. processNotifications plain_lib 1 no_blackhole_config (gateway_with [] None)
     [new_route (retarget (To no_blackhole_config) (example_route 5 2)), end_of_rib]
     = Inr ((gateway_with [] None)\<lparr>currentRoute :=
              Some (retarget (To no_blackhole_config) (example_route 5 2))\<rparr>, es)"
proof -
  have "to_Blackhole (To no_blackhole_config) = False"
    and "candidateRoutes (gateway_with [] None) = []"
    and "classify no_blackhole_config
           (new_route (retarget (To no_blackhole_config) (example_route 5 2)))
         = TargetSeen (retarget (To no_blackhole_config) (example_route 5 2))"
    by code_simp+
  from observed_route_leaves_gauge [OF this, of plain_lib 1] show ?thesis by blast
qed

end
