(* ===== verification/Gateway_Loop.thy ===== *)
theory Gateway_Loop
  imports Gateway_Handler
begin

text \<open>
  The goroutine of one gateway (\<^verbatim>\<open>runGateway\<close> of \<^verbatim>\<open>src/gateways/gateway.go\<close>): an endless \<^verbatim>\<open>select\<close>
  over the end of the component, the notification channel and the tick channel of a pending
  installation. Which ready case \<^verbatim>\<open>select\<close> takes, when a ticker fires, how long its backoff has
  been running and whether the kernel accepts the route are choices of the environment.
\<close>

section \<open>The cases of the select\<close>

text \<open>What makes a case ready, with what it receives.\<close>

datatype 'x select_case =
    Dying
  | Notified "'x notification"
  | InstallTick duration "string option"

datatype 'x loop_result = Continue "'x gateway_state" | Return "'x gateway_state"

definition installFailureInfoDelay :: duration where
  "installFailureInfoDelay = 5 * second"

definition installFailureWarningDelay :: duration where
  "installFailureWarningDelay = 30 * second"

definition installFailureErrorDelay :: duration where
  "installFailureErrorDelay = 1 * minute"

text \<open>The level at which a failed installation is reported, by the age of the backoff.\<close>

definition install_alert :: "duration \<Rightarrow> log_level" where
  "install_alert elapsed =
     (if elapsed > installFailureErrorDelay then Error
      else if elapsed > installFailureWarningDelay then Warn
      else if elapsed > installFailureInfoDelay then Info
      else Debug)"

definition on_dying :: "'x gateway_state \<Rightarrow> ('x effect, 'x loop_result) go" where
  "on_dying st =
     (if installationTick st \<noteq> None
      then go_bind (stop_ticker (installationTicker st))
             (\<lambda>_. go_return (Return (st\<lparr>installationTick := None\<rparr>)))
      else go_return (Return st))"

text \<open>
  The tick of a pending installation; \<open>err\<close> is what \<^verbatim>\<open>AddRoute\<close> returns. Dereferencing
  \<^verbatim>\<open>currentRoute\<close> panics when it is \<^verbatim>\<open>nil\<close>.
\<close>

definition on_install_tick ::
    "nat \<Rightarrow> 'x gateway_state \<Rightarrow> duration \<Rightarrow> string option \<Rightarrow> ('x effect, 'x loop_result) go" where
  "on_install_tick i st elapsed err =
     (case currentRoute st of None \<Rightarrow> go_panic NilDereference
      | Some r \<Rightarrow>
        go_bind (go_emit [AddRoute r] ()) (\<lambda>_.
        (case err of
           Some e \<Rightarrow>
             (case installationBackoff st of None \<Rightarrow> go_panic NilDereference
              | Some b \<Rightarrow>
                go_emit [Log (install_alert elapsed) ''unable to install route'',
                         CounterInc (gw_metric i ''.install.errors'') 1,
                         CounterInc ''install.errors'' 1]
                  (Continue st))
         | None \<Rightarrow>
             go_bind (stop_ticker (installationTicker st)) (\<lambda>_.
             go_emit [GaugeUpdate (gw_metric i ''.state'') LRGStateInstalled]
               (Continue (st\<lparr>installationTick := None\<rparr>))))))"

definition run_case ::
    "'x netlink_lib \<Rightarrow> nat \<Rightarrow> lrg_config \<Rightarrow> 'x gateway_state \<Rightarrow> 'x select_case
      \<Rightarrow> ('x effect, 'x loop_result) go" where
  "run_case L i cfg st ev = (case ev of
      Dying \<Rightarrow> on_dying st
    | Notified n \<Rightarrow> go_bind (processNotification L i cfg st n) (\<lambda>st'. go_return (Continue st'))
    | InstallTick elapsed err \<Rightarrow> on_install_tick i st elapsed err)"

section \<open>The loop as a step relation\<close>

record 'x gateway_run =
  phase :: phase
  gstate :: "'x gateway_state"
  trace :: "'x effect list"

text \<open>
  \<^verbatim>\<open>select\<close> takes a case only when its channel is ready: a notification is the oldest one in
  the channel, and the tick channel must not be \<^verbatim>\<open>nil\<close>. \<open>Push\<close> is the subscriber's callback
  putting a notification into the channel, which has room for 100.
\<close>

definition channel_capacity :: nat where
  "channel_capacity = 100"

datatype 'x gateway_event = Push "'x notification" | Select "'x select_case"

definition ready :: "'x gateway_state \<Rightarrow> 'x select_case \<Rightarrow> 'x gateway_state option" where
  "ready st ev = (case ev of
      Dying \<Rightarrow> Some st
    | Notified n \<Rightarrow> (case notification st of [] \<Rightarrow> None
        | m # q \<Rightarrow> if m = n then Some (st\<lparr>notification := q\<rparr>) else None)
    | InstallTick elapsed err \<Rightarrow> if installationTick st = None then None else Some st)"

text \<open>The deferred calls when \<^verbatim>\<open>runGateway\<close> returns, last deferred first.\<close>

definition return_effects :: "'x effect list" where
  "return_effects = [CounterInc ''count'' (- 1), Log Info ''stopping handler for gateway'']"

inductive gateway_step ::
    "'x netlink_lib \<Rightarrow> nat \<Rightarrow> lrg_config \<Rightarrow> 'x gateway_run \<Rightarrow> 'x gateway_event \<Rightarrow> 'x gateway_run \<Rightarrow> bool"
  for L i cfg where
  push: "length (notification (gstate s)) < channel_capacity \<Longrightarrow>
     gateway_step L i cfg s (Push n)
       (s\<lparr>gstate := (gstate s)\<lparr>notification := notification (gstate s) @ [n]\<rparr>\<rparr>)"
| continue: "phase s = Running \<Longrightarrow> ready (gstate s) ev = Some st \<Longrightarrow>
     run_case L i cfg st ev = Inr (Continue st', es) \<Longrightarrow>
     gateway_step L i cfg s (Select ev) (s\<lparr>gstate := st', trace := trace s @ es\<rparr>)"
| return: "phase s = Running \<Longrightarrow> ready (gstate s) ev = Some st \<Longrightarrow>
     run_case L i cfg st ev = Inr (Return st', es) \<Longrightarrow>
     gateway_step L i cfg s (Select ev)
       (s\<lparr>phase := Returned, gstate := st', trace := trace s @ es @ return_effects\<rparr>)"
| panic: "phase s = Running \<Longrightarrow> ready (gstate s) ev = Some st \<Longrightarrow>
     run_case L i cfg st ev = Inl p \<Longrightarrow>
     gateway_step L i cfg s (Select ev) (s\<lparr>phase := Panicked p\<rparr>)"

inductive_cases gateway_step_SelectE: "gateway_step L i cfg s (Select ev) t"
inductive_cases gateway_step_PushE: "gateway_step L i cfg s (Push n) t"

text \<open>A goroutine starts on a fresh gateway; what it reports first comes before the loop.\<close>

definition gateway_start :: "'x gateway_run \<Rightarrow> bool" where
  "gateway_start s \<longleftrightarrow> s = \<lparr>phase = Running, gstate = new_gateway_state,
     trace = [Log Info ''starting handler for gateway'', CounterInc ''count'' 1]\<rparr>"

definition gateway_reach :: "'x netlink_lib \<Rightarrow> nat \<Rightarrow> lrg_config \<Rightarrow> 'x gateway_run \<Rightarrow> bool" where
  "gateway_reach L i cfg = reach gateway_start (gateway_step L i cfg)"

section \<open>Execution of the cases in a good state\<close>

lemma run_Dying:
  "tickers_ok st \<Longrightarrow>
     run_case L i cfg st Dying = Inr (Return (st\<lparr>installationTick := None\<rparr>), stop_current st)"
  by (cases "installationTick st")
     (auto simp: run_case_def on_dying_def stop_ticker_def stop_current_def tickers_ok_def
        go_bind_def go_emit_def go_return_def)

lemma run_Notified_eq:
  "processNotification L i cfg st n = Inr (st', es) \<Longrightarrow>
     run_case L i cfg st (Notified n) = Inr (Continue st', es)"
  by (simp add: run_case_def go_bind_def go_return_def)

lemma run_Tick_nil:
  "currentRoute st = None \<Longrightarrow> run_case L i cfg st (InstallTick elapsed err) = Inl NilDereference"
  by (simp add: run_case_def on_install_tick_def go_panic_def)

lemma run_Tick_fail:
  assumes "tickers_ok st" and "installationTick st = Some t" and "currentRoute st = Some r"
  shows "run_case L i cfg st (InstallTick elapsed (Some e)) = Inr (Continue st,
     [AddRoute r, Log (install_alert elapsed) ''unable to install route'',
      CounterInc (gw_metric i ''.install.errors'') 1, CounterInc ''install.errors'' 1])"
  using assms
  by (auto simp: run_case_def on_install_tick_def tickers_ok_def go_bind_def go_emit_def)

lemma run_Tick_ok:
  assumes "tickers_ok st" and "installationTick st = Some t" and "currentRoute st = Some r"
  shows "run_case L i cfg st (InstallTick elapsed None) =
     Inr (Continue (st\<lparr>installationTick := None\<rparr>),
       [AddRoute r, TickerStop t, GaugeUpdate (gw_metric i ''.state'') LRGStateInstalled])"
  using assms
  by (auto simp: run_case_def on_install_tick_def tickers_ok_def stop_ticker_def go_bind_def
      go_emit_def)

lemmas run_cases = run_Dying run_Notified_eq run_Tick_nil run_Tick_fail run_Tick_ok

text \<open>The outcomes of one step of the goroutine in a good state.\<close>

datatype 'x outcome =
    Handled "'x notification"
  | Stopped
  | Crashed
  | Refused "'x route" duration
  | Installed "'x route" nat

inductive outcome_of ::
    "'x netlink_lib \<Rightarrow> nat \<Rightarrow> lrg_config \<Rightarrow> 'x gateway_run \<Rightarrow> 'x outcome \<Rightarrow> 'x gateway_run \<Rightarrow> bool"
  for L i cfg where
  handled: "notification (gstate s) = n # q \<Longrightarrow>
     processNotification L i cfg ((gstate s)\<lparr>notification := q\<rparr>) n = Inr (st', es) \<Longrightarrow>
     outcome_of L i cfg s (Handled n) (s\<lparr>gstate := st', trace := trace s @ es\<rparr>)"
| stopped: "outcome_of L i cfg s Stopped
     (s\<lparr>phase := Returned, gstate := (gstate s)\<lparr>installationTick := None\<rparr>,
        trace := trace s @ stop_current (gstate s) @ return_effects\<rparr>)"
| crashed: "currentRoute (gstate s) = None \<Longrightarrow> installationTick (gstate s) \<noteq> None \<Longrightarrow>
     outcome_of L i cfg s Crashed (s\<lparr>phase := Panicked NilDereference\<rparr>)"
| refused: "currentRoute (gstate s) = Some r \<Longrightarrow> installationTick (gstate s) \<noteq> None \<Longrightarrow>
     outcome_of L i cfg s (Refused r elapsed)
       (s\<lparr>trace := trace s @ [AddRoute r, Log (install_alert elapsed) ''unable to install route'',
          CounterInc (gw_metric i ''.install.errors'') 1, CounterInc ''install.errors'' 1]\<rparr>)"
| installed: "currentRoute (gstate s) = Some r \<Longrightarrow> installationTick (gstate s) = Some t \<Longrightarrow>
     outcome_of L i cfg s (Installed r t)
       (s\<lparr>gstate := (gstate s)\<lparr>installationTick := None\<rparr>,
          trace := trace s @ [AddRoute r, TickerStop t,
            GaugeUpdate (gw_metric i ''.state'') LRGStateInstalled]\<rparr>)"

definition outcome :: "'x gateway_run \<Rightarrow> 'x select_case \<Rightarrow> 'x outcome" where
  "outcome s ev = (case ev of
      Dying \<Rightarrow> Stopped
    | Notified n \<Rightarrow> Handled n
    | InstallTick elapsed err \<Rightarrow> (case currentRoute (gstate s) of None \<Rightarrow> Crashed
        | Some r \<Rightarrow> (case err of Some e \<Rightarrow> Refused r elapsed
            | None \<Rightarrow> Installed r (the (installationTick (gstate s))))))"

lemma ready_Notified: "ready st (Notified n) = Some st' \<longleftrightarrow>
    (\<exists>q. notification st = n # q \<and> st' = st\<lparr>notification := q\<rparr>)"
  by (auto simp: ready_def split: list.splits if_splits)

lemma gateway_ok_runs:
  assumes "gateway_ok cfg st"
  obtains st' es where "processNotification L i cfg st n = Inr (st', es)"
  using processNotification_implements [OF assms, of L i n] by (auto simp: go_ok_def)

lemma step_outcome:
  assumes ok: "gateway_ok cfg (gstate s)" and step: "gateway_step L i cfg s (Select ev) t"
  shows "phase s = Running \<and> outcome_of L i cfg s (outcome s ev) t"
proof (cases ev)
  case Dying
  with step gateway_okD(1) [OF ok] show ?thesis
    by (auto elim!: gateway_step_SelectE simp: ready_def run_Dying outcome_def
        intro!: outcome_of.intros)
next
  case (Notified n)
  with step obtain q where q: "notification (gstate s) = n # q"
    by (auto elim!: gateway_step_SelectE simp: ready_Notified)
  from ok obtain st' es where
    run: "processNotification L i cfg ((gstate s)\<lparr>notification := q\<rparr>) n = Inr (st', es)"
    by (rule gateway_ok_runs [where st = "(gstate s)\<lparr>notification := q\<rparr>", OF gateway_ok_update(3) [THEN iffD2]])
  from Notified q step run_Notified_eq [OF run] outcome_of.handled [where L = L, OF q run] show ?thesis
    by (auto elim!: gateway_step_SelectE simp: ready_Notified outcome_def)
next
  case (InstallTick elapsed err)
  show ?thesis
  proof (cases "currentRoute (gstate s)")
    case None
    with InstallTick step show ?thesis
      by (auto elim!: gateway_step_SelectE simp: ready_def run_Tick_nil outcome_def
          split: if_splits intro!: outcome_of.intros)
  next
    case (Some r)
    with InstallTick step gateway_okD(1) [OF ok] show ?thesis
      by (cases err)
         (auto elim!: gateway_step_SelectE simp: ready_def run_Tick_fail run_Tick_ok outcome_def
            split: if_splits intro!: outcome_of.intros)
  qed
qed

section \<open>Tickers\<close>

text \<open>The tickers that were started and not stopped, after a trace.\<close>

fun live_after :: "nat list \<Rightarrow> 'x effect list \<Rightarrow> nat list" where
  "live_after live [] = live"
| "live_after live (TickerNew t b # es) = live_after (t # live) es"
| "live_after live (TickerStop t # es) = live_after (remove1 t live) es"
| "live_after live (e # es) = live_after live es"

definition live_tickers :: "'x effect list \<Rightarrow> nat list" where
  "live_tickers es = live_after [] es"

lemma live_after_append [simp]: "live_after live (es @ fs) = live_after (live_after live es) fs"
  by (induction live es rule: live_after.induct) simp_all

definition pending :: "'x gateway_state \<Rightarrow> nat list" where
  "pending st = (case installationTick st of None \<Rightarrow> [] | Some t \<Rightarrow> [t])"

lemma live_after_stop_current [simp]: "live_after (pending st) (stop_current st) = []"
  by (simp add: pending_def stop_current_def split: option.split)

lemma pending_simps [simp]:
  "pending (st\<lparr>currentRoute := r\<rparr>) = pending st"
  "pending (st\<lparr>candidateRoutes := cs\<rparr>) = pending st"
  "pending (st\<lparr>notification := q\<rparr>) = pending st"
  "pending (started st) = [next_ticker st]"
  by (simp_all add: pending_def)

lemma installCandidateRoute_tickers:
  assumes "gateway_ok cfg st"
  shows "go_ok (installCandidateRoute L i cfg st)
           (\<lambda>st' es. live_after (pending st) es = pending st')"
  using gateway_okD(1) [OF assms]
  by (cases "keeps_current L cfg (candidateRoutes st) (currentRoute st)")
     (auto simp: installCandidateRoute_keep installCandidateRoute_change)

lemma tickers_after:
  assumes "gateway_ok cfg st1" and "pending st1 = p"
  shows "go_ok (installCandidateRoute L i cfg st1) (\<lambda>st' es. live_after p es = pending st')"
  using installCandidateRoute_tickers [OF assms(1), of L i] assms(2) by simp

lemma processNotification_tickers:
  assumes ok: "gateway_ok cfg st"
  shows "go_ok (processNotification L i cfg st n)
           (\<lambda>st' es. live_after (pending st) es = pending st')"
proof (cases "StartOfRIB n \<or> EndOfRIB n \<or> RouteUpdate n = None")
  case True
  with ok show ?thesis
    by (auto simp: processNotification_def intro!: tickers_after)
next
  case False
  then obtain u where "RouteUpdate n = Some u" "\<not> StartOfRIB n" "\<not> EndOfRIB n" by blast
  with ok gateway_okD [OF ok] show ?thesis
    by (auto simp: processNotification_def process_target_def process_source_def
        removeCandidateRoute_eq addCandidateRoute_eq sources_ok_remove sources_ok_add
        intro!: tickers_after)
qed

section \<open>Invariant of the loop\<close>

text \<open>
  The state is well-formed; the tickers that are alive are exactly the pending one; a gateway
  without a current route has no candidate, and with a blackhole configured an installation is
  pending only while there is a current route.
\<close>

definition armed :: "lrg_config \<Rightarrow> 'x gateway_spec \<Rightarrow> bool" where
  "armed cfg s \<longleftrightarrow> (if sp_current s = None then sp_candidates s = []
       \<and> (if to_Blackhole (To cfg) then \<not> sp_pending s else True) else True)"

definition loop_inv :: "lrg_config \<Rightarrow> 'x gateway_run \<Rightarrow> bool" where
  "loop_inv cfg s \<longleftrightarrow> gateway_ok cfg (gstate s)
     \<and> live_tickers (trace s) = pending (gstate s)
     \<and> armed cfg (abs_gateway (gstate s))
     \<and> length (notification (gstate s)) \<le> channel_capacity
     \<and> (case phase s of Running \<Rightarrow> True
        | Returned \<Rightarrow> installationTick (gstate s) = None
        | Panicked p \<Rightarrow> p = NilDereference \<and> currentRoute (gstate s) = None
            \<and> installationTick (gstate s) \<noteq> None)"

lemma armed_settle: "armed cfg (spec_settle L cfg s)" if "sp_candidates s = [] \<longrightarrow>
    \<not> to_Blackhole (To cfg) \<or> sp_current s = None \<or> armed cfg s"
proof (cases "targetRoute L (sp_candidates s) (To cfg)")
  case None
  then show ?thesis
    by (auto simp: spec_settle_def keeps_current_def armed_def targetRoute_None)
next
  case (Some t)
  then show ?thesis
    by (auto simp: spec_settle_def keeps_current_def armed_def split: option.splits)
qed

lemma armed_step: "armed cfg s \<Longrightarrow> armed cfg (spec_step L cfg e s)"
proof (cases "e = Reset \<or> e = Ignored")
  case True
  assume "armed cfg s"
  with True show ?thesis
    by (auto simp: spec_step_def spec_learn_def armed_def)
next
  case False
  assume a: "armed cfg s"
  have "armed cfg (spec_settle L cfg (spec_learn L e s))"
    by (rule armed_settle) (cases e; use a in \<open>auto simp: spec_learn_def armed_def\<close>)
  with False show ?thesis by (simp add: spec_step_def)
qed

lemma live_tickers_append: "live_tickers (es @ fs) = live_after (live_tickers es) fs"
  by (simp add: live_tickers_def)

lemma pending_tick_None [simp]:
  "pending (st\<lparr>installationTick := None\<rparr>) = []"
  "tickers_ok (st\<lparr>installationTick := None\<rparr>)"
  "gateway_ok cfg (st\<lparr>installationTick := None\<rparr>) = sources_ok cfg (candidateRoutes st)"
  by (simp_all add: pending_def tickers_ok_def gateway_ok_def)

lemma abs_tick_None [simp]:
  "abs_gateway (st\<lparr>installationTick := None\<rparr>) = (abs_gateway st)\<lparr>sp_pending := False\<rparr>"
  by (simp add: abs_gateway_def)

lemma armed_pending_False: "armed cfg s \<Longrightarrow> armed cfg (s\<lparr>sp_pending := False\<rparr>)"
  by (auto simp: armed_def)

lemma loop_inv_outcome:
  assumes inv: "loop_inv cfg s" and run: "phase s = Running" and out: "outcome_of L i cfg s out t"
  shows "loop_inv cfg t"
  using out
proof cases
  case (handled n q st' es)
  let ?st = "(gstate s)\<lparr>notification := q\<rparr>"
  have ok: "gateway_ok cfg ?st" using inv by (simp add: loop_inv_def)
  have "implements L cfg ?st (spec_step L cfg (classify cfg n) (abs_gateway ?st)) st'"
    by (rule go_okD [OF processNotification_implements [OF ok] handled(4)])
  moreover have "live_after (pending ?st) es = pending st'"
    by (rule go_okD [OF processNotification_tickers [OF ok] handled(4)])
  moreover have "length q \<le> channel_capacity"
    using inv handled(3) by (simp add: loop_inv_def)
  ultimately show ?thesis
    using inv run handled by (simp add: loop_inv_def implements_def live_tickers_append armed_step)
next
  case stopped
  have "live_after [] return_effects = []" by (simp add: return_effects_def)
  with inv stopped show ?thesis
    by (simp add: loop_inv_def live_tickers_append gateway_ok_def armed_pending_False)
next
  case crashed
  with inv show ?thesis by (simp add: loop_inv_def)
next
  case (refused r elapsed)
  with inv run show ?thesis by (simp add: loop_inv_def live_tickers_append)
next
  case (installed r tk)
  then have "pending (gstate s) = [tk]" by (simp add: pending_def)
  with installed inv run show ?thesis
    by (simp add: loop_inv_def live_tickers_append gateway_ok_def armed_pending_False)
qed

interpretation gw: step_system gateway_start "gateway_step L i cfg" "loop_inv cfg"
  for L :: "'x netlink_lib" and i cfg
proof
  show "gateway_start s \<Longrightarrow> loop_inv cfg s" for s :: "'x gateway_run"
    by (auto simp: gateway_start_def loop_inv_def live_tickers_def pending_def armed_def
        new_gateway_state_def tickers_ok_def gateway_ok_def)
  show "loop_inv cfg t" if inv: "loop_inv cfg s" and step: "gateway_step L i cfg s ev t"
    for s t :: "'x gateway_run" and ev
  proof (cases ev)
    case (Push n)
    with step inv show ?thesis
      by (auto elim!: gateway_step_PushE simp: loop_inv_def split: phase.splits)
  next
    case (Select c)
    from inv have "gateway_ok cfg (gstate s)" by (simp add: loop_inv_def)
    from step_outcome [OF this step [unfolded Select]] show ?thesis
      using loop_inv_outcome [OF inv] by blast
  qed
qed

section \<open>Properties of the loop\<close>

lemma gateway_reach_inv: "gateway_reach L i cfg s \<Longrightarrow> loop_inv cfg s"
  unfolding gateway_reach_def by (rule gw.reach_inv)

lemma gateway_reach_step:
  "gateway_reach L i cfg s \<Longrightarrow> gateway_step L i cfg s ev t \<Longrightarrow> gateway_reach L i cfg t"
  unfolding gateway_reach_def by (rule reach_step)

definition run_from :: "'x gateway_state \<Rightarrow> 'x effect list \<Rightarrow> 'x gateway_run" where
  "run_from st es = \<lparr>phase = Running, gstate = st, trace = es\<rparr>"

definition start_effects :: "'x effect list" where
  "start_effects = [Log Info ''starting handler for gateway'', CounterInc ''count'' 1]"

lemma reach_run_from_start [simp]: "gateway_reach L i cfg (run_from new_gateway_state start_effects)"
  unfolding gateway_reach_def
  by (rule reach_start) (simp add: gateway_start_def run_from_def start_effects_def)

text \<open>
  C11. No ticker leaks: in every reachable state at most one ticker is running, the one whose
  tick channel the loop listens to, and none once the goroutine has returned.
\<close>

theorem no_ticker_leak:
  assumes "gateway_reach L i cfg s"
  shows "live_tickers (trace s) = (case installationTick (gstate s) of None \<Rightarrow> [] | Some t \<Rightarrow> [t])
     \<and> (if phase s = Returned then live_tickers (trace s) = [] else True)"
  using gateway_reach_inv [OF assms]
  by (auto simp: loop_inv_def pending_def split: option.splits)

theorem no_ticker_leak_witness:
  "live_tickers (trace (run_from new_gateway_state start_effects :: nat gateway_run)) = []"
  using no_ticker_leak [OF reach_run_from_start [of plain_lib 1 example_config]]
  by (simp add: run_from_def new_gateway_state_def)

text \<open>Pushing a notification into an empty channel and handling it.\<close>

lemma handle_run:
  assumes empty: "notification st = []" and run: "processNotification L i cfg st n = Inr (st', fs)"
  shows "execution (gateway_step L i cfg) (run_from st es) [Push n, Select (Notified n)]
    (run_from st' (es @ fs))"
proof (rule execution_cons)
  show "gateway_step L i cfg (run_from st es) (Push n) (run_from (st\<lparr>notification := [n]\<rparr>) es)"
    using gateway_step.push [of "run_from st es" L i cfg n] empty
    by (simp add: run_from_def channel_capacity_def)
  have "st\<lparr>notification := []\<rparr> = st" using empty by (cases st) simp
  then have "gateway_step L i cfg (run_from (st\<lparr>notification := [n]\<rparr>) es) (Select (Notified n))
      (run_from st' (es @ fs))"
    using gateway_step.continue [of "run_from (st\<lparr>notification := [n]\<rparr>) es" "Notified n" st L i cfg st' fs]
      run_Notified_eq [OF run]
    by (simp add: run_from_def ready_Notified)
  then show "execution (gateway_step L i cfg) (run_from (st\<lparr>notification := [n]\<rparr>) es)
      [Select (Notified n)] (run_from st' (es @ fs))"
    by (rule execution_cons) (rule execution_nil)
qed

lemma reach_handle:
  assumes "gateway_reach L i cfg (run_from st es)" and "notification st = []"
    and "processNotification L i cfg st n = Inr (st', fs)"
  shows "gateway_reach L i cfg (run_from st' (es @ fs))"
  using assms(1) unfolding gateway_reach_def
  by (rule execution_reach_from [OF handle_run [OF assms(2,3)]])

lemma reach_panic:
  assumes reach: "gateway_reach L i cfg (run_from st es)"
    and "installationTick st = Some t" and "currentRoute st = None"
  shows "gateway_reach L i cfg ((run_from st es)\<lparr>phase := Panicked NilDereference\<rparr>)"
  using gateway_step.panic [of "run_from st es" "InstallTick 0 None" st L i cfg NilDereference] assms
    run_Tick_nil [of st L i cfg 0 None]
  by (intro gateway_reach_step [OF reach]) (auto simp: run_from_def ready_def)

lemma classify_source_updates:
  assumes "from_Match (From cfg) r" and "\<not> to_Match (To cfg) r"
  shows "classify cfg (new_route r) = SourceSeen r" "classify cfg (del_route r) = SourceGone r"
  using assms by (simp_all add: classify_def new_route_def del_route_def RTM_NEWROUTE_def RTM_DELROUTE_def)

lemma classify_target_updates:
  assumes "to_Match (To cfg) r"
  shows "classify cfg (new_route r) = TargetSeen r" "classify cfg (del_route r) = TargetGone"
  using assms by (simp_all add: classify_def new_route_def del_route_def RTM_NEWROUTE_def RTM_DELROUTE_def)

text \<open>
  A source route appears, so an installation is pending; the source route disappears again; the
  kernel reports the deletion of a route that matches the \<^verbatim>\<open>to\<close> block (one left by an earlier
  run, say). Then the pending tick finds no route.
\<close>

lemma panic_scenario:
  fixes L :: "'x netlink_lib"
  assumes bh: "to_Blackhole (To cfg) = False" and r: "from_Match (From cfg) r" "\<not> to_Match (To cfg) r"
    and eq: "route_Equal L r r"
  shows "\<exists>s. gateway_reach L i cfg s \<and> phase s = Panicked NilDereference"
proof -
  let ?t = "retarget (To cfg) r"
  define st0 :: "'x gateway_state" where "st0 = new_gateway_state"
  define st1 where "st1 = started (st0\<lparr>candidateRoutes := [r], currentRoute := Some ?t\<rparr>)"
  define st2 where "st2 = st1\<lparr>candidateRoutes := []\<rparr>"
  define st3 where "st3 = st2\<lparr>currentRoute := None\<rparr>"
  have new: "tickers_ok st0" "sources_ok cfg (candidateRoutes st0)" "candidateRoutes st0 = []"
      "currentRoute st0 = None" "notification st0 = []" "next_ticker st0 = 0"
    by (simp_all add: st0_def new_gateway_state_def tickers_ok_def)
  have target: "targetRoute L [r] (To cfg) = Some ?t" "targetRoute L [] (To cfg) = None"
    using bh by (simp_all add: targetRoute_def bestCandidateRoute_def)
  have add: "candidates_add L r [] = [r]" and rem: "candidates_remove L r [r] = []"
    using eq by (simp_all add: candidates_add_def candidates_remove_def)
  have "\<exists>fs. processNotification L i cfg st0 (new_route r) = Inr (st1, fs)"
    using new target add
    by (simp add: process_SourceSeen [OF classify_source_updates(1) [OF r]] keeps_current_def
        installCandidateRoute_change go_bind_emit_Inr st1_def)
  moreover have "\<exists>fs. processNotification L i cfg st1 (del_route r) = Inr (st2, fs)"
    using target rem
    by (simp add: process_SourceGone [OF classify_source_updates(2) [OF r]] keeps_current_def
        installCandidateRoute_keep go_bind_emit_Inr st1_def st2_def)
  moreover have "\<exists>fs. processNotification L i cfg st2 (del_route ?t) = Inr (st3, fs)"
    using target
    by (simp add: process_TargetGone [OF classify_target_updates(2)] keeps_current_def
        installCandidateRoute_keep go_bind_emit_Inr st2_def st3_def)
  moreover have "notification st1 = []" "notification st2 = []" "currentRoute st3 = None"
      "installationTick st3 = Some 0"
    using new by (simp_all add: st1_def st2_def st3_def)
  moreover have "gateway_reach L i cfg (run_from st0 start_effects)"
    unfolding st0_def by (rule reach_run_from_start)
  ultimately obtain es where "gateway_reach L i cfg (run_from st3 es)"
    using reach_handle new(5) by metis
  from reach_panic [OF this \<open>installationTick st3 = Some 0\<close> \<open>currentRoute st3 = None\<close>]
  show ?thesis by (intro exI [of _ "(run_from st3 es)\<lparr>phase := Panicked NilDereference\<rparr>"]) simp
qed

text \<open>
  C12. The only panic a gateway goroutine can run into is the dereference of a \<^verbatim>\<open>nil\<close> current
  route when an installation tick arrives, and that needs a gateway without blackhole, without
  a candidate and without a current route whose installation is nevertheless pending. With
  \<^verbatim>\<open>blackhole\<close> set it never panics.
\<close>

theorem only_panic_is_nil_current_route:
  assumes "gateway_reach L i cfg s" and "phase s = Panicked p"
  shows "p = NilDereference \<and> to_Blackhole (To cfg) = False \<and> candidateRoutes (gstate s) = []
     \<and> currentRoute (gstate s) = None \<and> (\<exists>t. installationTick (gstate s) = Some t)"
  using gateway_reach_inv [OF assms(1)] assms(2)
  by (auto simp: loop_inv_def armed_def split: if_splits)

theorem only_panic_is_nil_current_route_witness:
  "\<exists>s. gateway_reach plain_lib 1 no_blackhole_config s \<and> currentRoute (gstate s) = None"
proof -
  have "to_Blackhole (To no_blackhole_config) = False"
    and "from_Match (From no_blackhole_config) (example_route 5 2)"
    and "\<not> to_Match (To no_blackhole_config) (example_route 5 2)"
    and "route_Equal plain_lib (example_route 5 2) (example_route 5 2)"
    by code_simp+
  then obtain s where s: "gateway_reach plain_lib 1 no_blackhole_config s"
      "phase s = Panicked NilDereference"
    using panic_scenario by blast
  from only_panic_is_nil_current_route [OF s] s(1) show ?thesis by blast
qed

text \<open>
  C13. That panic is reachable for every gateway without blackhole and every source route: the
  source route comes and goes while its copy is not installed yet, and the kernel reports the
  deletion of a route that matches the \<^verbatim>\<open>to\<close> block.
\<close>

theorem nil_current_route_panic_reachable:
  assumes "to_Blackhole (To cfg) = False" and "from_Match (From cfg) r"
    and "\<not> to_Match (To cfg) r" and "route_Equal L r r"
  shows "\<exists>s. gateway_reach L i cfg s \<and> phase s = Panicked NilDereference"
  by (rule panic_scenario [OF assms])

theorem nil_current_route_panic_reachable_witness:
  "\<exists>s. gateway_reach plain_lib 1 no_blackhole_config s \<and> phase s = Panicked NilDereference"
  by (rule nil_current_route_panic_reachable [where r = "example_route 5 2"]) code_simp+

section \<open>Retrying until the kernel accepts the route\<close>

text \<open>Ticks of a pending installation, one after the other, while nothing else happens.\<close>

definition tick_events :: "(duration \<times> string) list \<Rightarrow> duration \<Rightarrow> 'x gateway_event list" where
  "tick_events fails d = map (\<lambda>(e, msg). Select (InstallTick e (Some msg))) fails
     @ [Select (InstallTick d None)]"

definition fail_effects :: "nat \<Rightarrow> 'x route \<Rightarrow> duration \<times> string \<Rightarrow> 'x effect list" where
  "fail_effects i r f = [AddRoute r, Log (install_alert (fst f)) ''unable to install route'',
     CounterInc (gw_metric i ''.install.errors'') 1, CounterInc ''install.errors'' 1]"

lemma failing_ticks:
  assumes "tickers_ok st" and "installationTick st = Some t" and "currentRoute st = Some r"
  shows "execution (gateway_step L i cfg) (run_from st es)
    (map (\<lambda>(e, msg). Select (InstallTick e (Some msg))) fails)
    (run_from st (es @ concat (map (fail_effects i r) fails)))"
proof (induction fails rule: rev_induct)
  case Nil
  show ?case by (simp add: execution_nil)
next
  case (snoc f fails)
  obtain e msg where f: "f = (e, msg)" by (cases f)
  have "gateway_step L i cfg (run_from st (es @ concat (map (fail_effects i r) fails)))
      (Select (InstallTick e (Some msg)))
      (run_from st (es @ concat (map (fail_effects i r) (fails @ [f]))))"
    using gateway_step.continue [of "run_from st (es @ concat (map (fail_effects i r) fails))"
        "InstallTick e (Some msg)" st L i cfg st "fail_effects i r f"]
      run_Tick_fail [OF assms, of L i cfg e msg] assms(2)
    by (simp add: run_from_def ready_def fail_effects_def f)
  with snoc.IH show ?case by (auto simp: f intro: execution_snoc)
qed

lemma success_tick:
  assumes ok: "tickers_ok st" "installationTick st = Some t" "currentRoute st = Some r"
  shows "gateway_step L i cfg (run_from st es) (Select (InstallTick d None))
    (run_from (st\<lparr>installationTick := None\<rparr>)
      (es @ [AddRoute r, TickerStop t, GaugeUpdate (gw_metric i ''.state'') LRGStateInstalled]))"
  using gateway_step.continue [of "run_from st es" "InstallTick d None" st L i cfg]
    run_Tick_ok [OF ok, of L i cfg d] ok(2)
  by (simp add: run_from_def ready_def)

text \<open>
  C14. A pending installation is retried until it succeeds: however often the kernel refuses
  the route, each tick asks for exactly the current route again, reports the failure (the level
  rising with the age of the backoff) and leaves state and ticker as they are; the first
  success stops the ticker, ends the installation and sets the gauge to \<^verbatim>\<open>installed\<close>.
\<close>

theorem installation_retried_until_success:
  assumes ok: "tickers_ok st" "installationTick st = Some t" "currentRoute st = Some r"
  shows "execution (gateway_step L i cfg) (run_from st es) (tick_events fails d)
    (run_from (st\<lparr>installationTick := None\<rparr>)
       (es @ concat (map (fail_effects i r) fails)
        @ [AddRoute r, TickerStop t, GaugeUpdate (gw_metric i ''.state'') LRGStateInstalled]))"
proof -
  note final = success_tick [OF ok, of L i cfg "es @ concat (map (fail_effects i r) fails)" d]
  show ?thesis
    unfolding tick_events_def
    by (rule execution_snoc [OF failing_ticks [OF ok]]) (use final in simp)
qed

theorem installation_retried_until_success_witness:
  "execution (gateway_step plain_lib 1 example_config)
     (run_from (started (gateway_with [] (Some (example_route 100 2)))) [])
     (tick_events [(1, ''busy''), (second * 40, ''busy'')] (minute * 2))
     (run_from ((started (gateway_with [] (Some (example_route 100 2))))\<lparr>installationTick := None\<rparr>)
       ([] @ concat (map (fail_effects 1 (example_route 100 2)) [(1, ''busy''), (second * 40, ''busy'')])
        @ [AddRoute (example_route 100 2), TickerStop 0,
           GaugeUpdate (gw_metric 1 ''.state'') LRGStateInstalled]))"
  by (rule installation_retried_until_success) simp_all

section \<open>Notifications are handled once and in order\<close>

definition pushed :: "'x gateway_event list \<Rightarrow> 'x notification list" where
  "pushed evs = concat (map (\<lambda>e. case e of Push n \<Rightarrow> [n] | Select c \<Rightarrow> []) evs)"

definition handled :: "'x gateway_event list \<Rightarrow> 'x notification list" where
  "handled evs = concat (map (\<lambda>e. case e of Select (Notified n) \<Rightarrow> [n] | _ \<Rightarrow> []) evs)"

lemma event_history_simps [simp]:
  "pushed [] = []" "pushed (evs @ fs) = pushed evs @ pushed fs"
  "pushed [Push n] = [n]" "pushed [Select c] = []"
  "handled [] = []" "handled (evs @ fs) = handled evs @ handled fs"
  "handled [Push n] = []" "handled [Select (Notified n)] = [n]"
  "handled [Select Dying] = []" "handled [Select (InstallTick e err)] = []"
  by (simp_all add: pushed_def handled_def)

text \<open>The part of the specification that installation ticks do not touch.\<close>

definition core :: "'x gateway_spec \<Rightarrow> 'x route list \<times> 'x route option" where
  "core s = (sp_candidates s, sp_current s)"

lemma core_spec_step: "core s = core s' \<Longrightarrow> core (spec_step L cfg e s) = core (spec_step L cfg e s')"
  by (cases e) (simp_all add: core_def spec_step_def spec_learn_def spec_settle_def)

definition knows :: "'x netlink_lib \<Rightarrow> lrg_config \<Rightarrow> 'x notification list \<Rightarrow> 'x route list \<times> 'x route option" where
  "knows L cfg ns = core (spec_steps L cfg (map (classify cfg) ns) (abs_gateway new_gateway_state))"

lemma knows_snoc:
  "knows L cfg ns = core s \<Longrightarrow> knows L cfg (ns @ [n]) = core (spec_step L cfg (classify cfg n) s)"
  unfolding knows_def by (simp add: spec_steps_append) (erule core_spec_step)

lemma outcome_history:
  assumes ok: "gateway_ok cfg (gstate s)" and out: "outcome_of L i cfg s (outcome s c) t"
    and k: "knows L cfg ns = core (abs_gateway (gstate s))"
  shows "knows L cfg (ns @ handled [Select c]) = core (abs_gateway (gstate t))
    \<and> notification (gstate s) = handled [Select c] @ notification (gstate t)"
proof (cases c)
  case (Notified n)
  with out obtain q st' es where q: "notification (gstate s) = n # q"
    and run: "processNotification L i cfg ((gstate s)\<lparr>notification := q\<rparr>) n = Inr (st', es)"
    and t: "t = s\<lparr>gstate := st', trace := trace s @ es\<rparr>"
    by (auto simp: outcome_def elim: outcome_of.cases)
  have "gateway_ok cfg ((gstate s)\<lparr>notification := q\<rparr>)" using ok by simp
  from go_okD [OF processNotification_implements [OF this] run] knows_snoc [OF k, of n]
  show ?thesis by (simp add: Notified t q implements_def)
next
  case Dying
  with out k show ?thesis
    by (auto simp: outcome_def core_def elim!: outcome_of.cases)
next
  case (InstallTick e err)
  with out k show ?thesis
    by (auto simp: outcome_def core_def elim!: outcome_of.cases split: option.splits)
qed

lemma history_invariant:
  assumes "execution (gateway_step L i cfg) s evs t" and "gateway_start s"
  shows "pushed evs = handled evs @ notification (gstate t)
    \<and> knows L cfg (handled evs) = core (abs_gateway (gstate t))"
  using assms
proof (induction rule: execution.induct)
  case (execution_nil s)
  then show ?case
    by (simp add: gateway_start_def new_gateway_state_def knows_def)
next
  case (execution_snoc s evs t e u)
  have "gateway_reach L i cfg t"
    unfolding gateway_reach_def by (rule execution_reach [where start = gateway_start, OF execution_snoc.hyps(1) execution_snoc.prems])
  then have ok: "gateway_ok cfg (gstate t)"
    using gateway_reach_inv by (auto simp: loop_inv_def)
  show ?case
  proof (cases e)
    case (Push n)
    with execution_snoc show ?thesis
      by (auto elim!: gateway_step_PushE)
  next
    case (Select c)
    from step_outcome [OF ok execution_snoc.hyps(2) [unfolded Select]]
      outcome_history [OF ok, of L i c u "handled evs"] execution_snoc
    show ?thesis by (auto simp: Select)
  qed
qed

text \<open>
  C15. The goroutine refines the specification: what was pushed is what was handled, in order
  and without loss or repetition, followed by what is still in the channel (at most 100); and
  the candidates and the current route are exactly those the specification computes from the
  handled notifications, however installation ticks, failures and successes are interleaved.
\<close>

theorem loop_refines_spec:
  assumes "gateway_start s" and "execution (gateway_step L i cfg) s evs t"
  shows "pushed evs = handled evs @ notification (gstate t)
    \<and> length (notification (gstate t)) \<le> channel_capacity
    \<and> (candidateRoutes (gstate t), currentRoute (gstate t)) = knows L cfg (handled evs)"
proof -
  have "gateway_reach L i cfg t"
    unfolding gateway_reach_def by (rule execution_reach [where start = gateway_start, OF assms(2,1)])
  then have "length (notification (gstate t)) \<le> channel_capacity"
    using gateway_reach_inv by (auto simp: loop_inv_def)
  with history_invariant [OF assms(2,1)] show ?thesis by (simp add: core_def)
qed

theorem loop_refines_spec_witness:
  "\<exists>t. execution (gateway_step plain_lib 1 example_config)
       (run_from new_gateway_state start_effects) ([] @ [Push start_of_rib]) t
     \<and> (candidateRoutes (gstate t), currentRoute (gstate t)) = knows plain_lib example_config []"
proof -
  have start: "gateway_start (run_from new_gateway_state start_effects)"
    by (simp add: gateway_start_def run_from_def start_effects_def)
  have "\<exists>t. gateway_step plain_lib 1 example_config (run_from new_gateway_state start_effects)
      (Push start_of_rib) t"
    by (rule exI, rule gateway_step.push)
       (simp add: run_from_def new_gateway_state_def channel_capacity_def)
  then obtain t where t: "execution (gateway_step plain_lib 1 example_config)
      (run_from new_gateway_state start_effects) ([] @ [Push start_of_rib]) t"
    by (blast intro: execution_snoc execution_nil)
  from loop_refines_spec [OF start t] t show ?thesis by auto
qed

section \<open>Only routes of the \<open>to\<close> block are written\<close>

fun written :: "'x effect list \<Rightarrow> 'x route list" where
  "written [] = []"
| "written (AddRoute r # es) = r # written es"
| "written (e # es) = written es"

lemma written_append [simp]: "written (es @ fs) = written es @ written fs"
  by (induction es rule: written.induct) simp_all

definition writes_own_routes :: "lrg_config \<Rightarrow> 'x gateway_run \<Rightarrow> bool" where
  "writes_own_routes cfg s \<longleftrightarrow> loop_inv cfg s
     \<and> pred_option (to_Match (To cfg)) (currentRoute (gstate s))
     \<and> list_all (to_Match (To cfg)) (written (trace s))"

lemma spec_step_own:
  assumes "pred_option (to_Match (To cfg)) (sp_current s)"
  shows "pred_option (to_Match (To cfg)) (sp_current (spec_step L cfg (classify cfg n) s))"
proof -
  have "pred_option (to_Match (To cfg)) (sp_current (spec_learn L (classify cfg n) s))"
    using assms by (auto simp: spec_learn_def classify_def Let_def split: option.splits)
  moreover have "pred_option (to_Match (To cfg)) (targetRoute L cs (To cfg))" for cs
    using targetRoute_retarget [of L cs "To cfg"] by (cases "targetRoute L cs (To cfg)") auto
  ultimately show ?thesis by (simp add: spec_step_def spec_settle_def)
qed

lemma stop_current_written [simp]: "written (stop_current st) = []"
  by (simp add: stop_current_def split: option.split)

lemma installCandidateRoute_written:
  "installCandidateRoute L i cfg st = Inr (st', es) \<Longrightarrow> written es = []"
  by (auto simp: installCandidateRoute_def installRoute_def stop_ticker_def go_bind_eq_Inr Let_def
      split: option.splits if_splits)

lemma processNotification_written:
  "processNotification L i cfg st n = Inr (st', es) \<Longrightarrow> written es = []"
  using installCandidateRoute_written [of L i cfg]
  by (fastforce simp: processNotification_def process_target_def process_source_def go_bind_eq_Inr
      dest!: candidate_ops_silent split: if_splits option.splits)

lemma writes_own_outcome:
  assumes inv: "writes_own_routes cfg s" and run: "phase s = Running"
    and out: "outcome_of L i cfg s out t"
  shows "writes_own_routes cfg t"
proof -
  have t: "loop_inv cfg t"
    using loop_inv_outcome [OF _ run out] inv by (simp add: writes_own_routes_def)
  from out show ?thesis
  proof cases
    case (handled n q st' es)
    have "gateway_ok cfg ((gstate s)\<lparr>notification := q\<rparr>)"
      using inv by (simp add: writes_own_routes_def loop_inv_def)
    from go_okD [OF processNotification_implements [OF this] handled(4)]
    have "currentRoute st' = sp_current (spec_step L cfg (classify cfg n) (abs_gateway (gstate s)))"
      by (auto simp: implements_def simp flip: abs_gateway_simps(2))
    with inv t handled spec_step_own [of cfg "abs_gateway (gstate s)" L n]
      processNotification_written [OF handled(4)]
    show ?thesis by (simp add: writes_own_routes_def)
  qed (use inv t in \<open>auto simp: writes_own_routes_def return_effects_def\<close>)
qed

interpretation gw_own: step_system gateway_start "gateway_step L i cfg" "writes_own_routes cfg"
  for L :: "'x netlink_lib" and i cfg
proof
  show "gateway_start s \<Longrightarrow> writes_own_routes cfg s" for s :: "'x gateway_run"
    using gw.inv_start [of s cfg]
    by (auto simp: gateway_start_def writes_own_routes_def new_gateway_state_def)
  show "writes_own_routes cfg t" if inv: "writes_own_routes cfg s" and step: "gateway_step L i cfg s ev t"
    for s t :: "'x gateway_run" and ev
  proof (cases ev)
    case (Push n)
    have "loop_inv cfg t"
      using gw.inv_step [OF _ step] inv by (simp add: writes_own_routes_def)
    with step inv Push show ?thesis
      by (auto elim!: gateway_step_PushE simp: writes_own_routes_def)
  next
    case (Select c)
    from inv have "gateway_ok cfg (gstate s)" by (simp add: writes_own_routes_def loop_inv_def)
    from step_outcome [OF this step [unfolded Select]] show ?thesis
      using writes_own_outcome [OF inv] by blast
  qed
qed

text \<open>
  C16. The daemon only ever writes its own routes: in every execution of a gateway, each route
  handed to \<^verbatim>\<open>AddRoute\<close> matches the \<^verbatim>\<open>to\<close> block (its prefix, protocol, metric and table), and so
  does the route the gateway considers current.
\<close>

theorem only_own_routes_written:
  assumes "gateway_reach L i cfg s"
  shows "list_all (to_Match (To cfg)) (written (trace s))
    \<and> pred_option (to_Match (To cfg)) (currentRoute (gstate s))"
  using gw_own.reach_inv [OF assms [unfolded gateway_reach_def]]
  by (simp add: writes_own_routes_def)

theorem only_own_routes_written_witness:
  "list_all (to_Match (To example_config)) (written (start_effects :: nat effect list))"
  using only_own_routes_written [OF reach_run_from_start [of plain_lib 1 example_config]]
  by (simp add: run_from_def)

end
