(* ===== verification/Gateways_Component.thy ===== *)
theory Gateways_Component
  imports Gateway_Loop
begin

text \<open>
  The gateway component (\<^verbatim>\<open>src/gateways/root.go\<close>): construction, \<^verbatim>\<open>Start\<close> with its two range
  loops, the subscriber's callback that distributes a notification, and \<^verbatim>\<open>Stop\<close>.

  \<^verbatim>\<open>Start\<close> takes the address of a range variable and captures another one in a closure. Before
  Go 1.22 (the repository asks for Go 1.8 or later and has no module file that would select the
  newer rule) a range variable is one variable for the whole loop. So the component is modelled
  with an explicit store: the cells that hold gateway configurations and the gateway states have
  addresses, and a \<^verbatim>\<open>gateway\<close> value holds addresses.
\<close>

type_synonym addr = nat

record gateway =
  gw_index :: nat
  gw_config :: addr
  gw_state :: addr

record 'x component =
  comp_config :: "lrg_config list"
  gateways :: "gateway list"
  config_cells :: "addr \<Rightarrow> lrg_config option"
  state_cells :: "'x gateway_state list"
  alive :: bool

definition New :: "lrg_config list \<Rightarrow> 'x component" where
  "New configuration = \<lparr>comp_config = configuration, gateways = [], config_cells = (\<lambda>_. None),
     state_cells = [], alive = True\<rparr>"

text \<open>
  \<^verbatim>\<open>newGateway\<close> allocates a state with an empty notification channel and keeps the pointer to
  the configuration.
\<close>

definition newGateway :: "nat \<Rightarrow> addr \<Rightarrow> 'x component \<Rightarrow> gateway \<times> 'x component" where
  "newGateway i config c =
     (\<lparr>gw_index = i, gw_config = config, gw_state = length (state_cells c)\<rparr>,
      c\<lparr>state_cells := state_cells c @ [new_gateway_state]\<rparr>)"

text \<open>The address of the range variable \<^verbatim>\<open>gwConfig\<close> of \<^verbatim>\<open>Start\<close>.\<close>

definition gwConfig :: addr where
  "gwConfig = 0"

text \<open>
  The first loop of \<^verbatim>\<open>Start\<close>, from position \<open>i\<close> on: each round stores the next configuration in
  the range variable and passes its address on.
\<close>

fun create_gateways :: "nat \<Rightarrow> lrg_config list \<Rightarrow> 'x component \<Rightarrow> 'x component" where
  "create_gateways i [] c = c"
| "create_gateways i (config # rest) c =
     (let c1 = c\<lparr>config_cells := (config_cells c)(gwConfig := Some config)\<rparr>;
          (gw, c2) = newGateway (i + 1) gwConfig c1
      in create_gateways (i + 1) rest (c2\<lparr>gateways := gateways c2 @ [gw]\<rparr>))"

definition Start_gateways :: "'x component \<Rightarrow> 'x component" where
  "Start_gateways c = create_gateways 0 (comp_config c) c"

text \<open>What \<^verbatim>\<open>*gateway.config\<close> is when the goroutine of a gateway reads it.\<close>

definition config_of :: "'x component \<Rightarrow> gateway \<Rightarrow> lrg_config option" where
  "config_of c gw = config_cells c (gw_config gw)"

section \<open>Distributing notifications\<close>

text \<open>
  \<^verbatim>\<open>pushNotification\<close> sends on a channel with room for 100 notifications; \<open>None\<close> is a send that
  blocks until someone receives from the channel.
\<close>

definition pushNotification :: "gateway \<Rightarrow> 'x notification \<Rightarrow> 'x component \<Rightarrow> 'x component option" where
  "pushNotification gw n c =
     (let st = state_cells c ! gw_state gw in
      if length (notification st) < channel_capacity
      then Some (c\<lparr>state_cells := (state_cells c)[gw_state gw :=
                     st\<lparr>notification := notification st @ [n]\<rparr>]\<rparr>)
      else None)"

fun push_all :: "gateway list \<Rightarrow> 'x notification \<Rightarrow> 'x component
    \<Rightarrow> ('x component \<times> 'x effect list) option" where
  "push_all [] n c = Some (c, [])"
| "push_all (gw # gws) n c =
     (case pushNotification gw n c of None \<Rightarrow> None
      | Some c1 \<Rightarrow> (case push_all gws n c1 of None \<Rightarrow> None
          | Some (c2, es) \<Rightarrow> Some (c2, CounterInc ''notification.count'' 1 # es)))"

text \<open>The callback \<^verbatim>\<open>Start\<close> subscribes with the netlink component.\<close>

definition on_notification :: "'x notification \<Rightarrow> 'x component \<Rightarrow> ('x component \<times> 'x effect list) option" where
  "on_notification n c = (if alive c then push_all (gateways c) n c else Some (c, []))"

text \<open>\<^verbatim>\<open>Stop\<close> kills the tomb; from then on the callback does nothing and every goroutine returns.\<close>

definition Stop :: "'x component \<Rightarrow> 'x component \<times> 'x effect list" where
  "Stop c = (c\<lparr>alive := False\<rparr>,
     [Log Info ''shutting down gateway component'', Log Info ''gateway component stopped''])"

section \<open>Starting the goroutines\<close>

text \<open>
  The second loop of \<^verbatim>\<open>Start\<close> runs in a goroutine of its own. Each round assigns the range
  variable \<^verbatim>\<open>gw\<close> and starts a goroutine whose function reads \<^verbatim>\<open>gw\<close> when it gets to run, which
  may be after later rounds.
\<close>

record spawner =
  todo :: "gateway list"
  gw_var :: "gateway option"
  waiting :: nat
  running :: "gateway list"

definition spawner_start :: "gateway list \<Rightarrow> spawner" where
  "spawner_start gws = \<lparr>todo = gws, gw_var = None, waiting = 0, running = []\<rparr>"

datatype spawn_event = Round | Launch

inductive spawn_step :: "spawner \<Rightarrow> spawn_event \<Rightarrow> spawner \<Rightarrow> bool" where
  round: "todo s = gw # rest \<Longrightarrow>
     spawn_step s Round (s\<lparr>todo := rest, gw_var := Some gw, waiting := Suc (waiting s)\<rparr>)"
| launch: "waiting s = Suc k \<Longrightarrow> gw_var s = Some gw \<Longrightarrow>
     spawn_step s Launch (s\<lparr>waiting := k, running := running s @ [gw]\<rparr>)"

inductive_cases spawn_stepE: "spawn_step s e t"

definition all_started :: "spawner \<Rightarrow> bool" where
  "all_started s \<longleftrightarrow> todo s = [] \<and> waiting s = 0"

section \<open>The gateways that Start creates\<close>

definition created :: "nat \<Rightarrow> lrg_config list \<Rightarrow> 'x component \<Rightarrow> 'x component \<Rightarrow> bool" where
  "created i cfgs c c' \<longleftrightarrow> (let n = length cfgs in
     map gw_index (gateways c') = map gw_index (gateways c) @ map Suc [i..<i + n]
     \<and> map gw_config (gateways c') = map gw_config (gateways c) @ replicate n gwConfig
     \<and> map gw_state (gateways c') = map gw_state (gateways c)
          @ [length (state_cells c)..<length (state_cells c) + n]
     \<and> state_cells c' = state_cells c @ replicate n new_gateway_state
     \<and> comp_config c' = comp_config c \<and> alive c' = alive c
     \<and> config_cells c' = (if cfgs = [] then config_cells c
                          else (config_cells c)(gwConfig := Some (last cfgs))))"

definition one_round :: "nat \<Rightarrow> lrg_config \<Rightarrow> 'x component \<Rightarrow> 'x component" where
  "one_round i config c = c\<lparr>
     config_cells := (config_cells c)(gwConfig := Some config),
     state_cells := state_cells c @ [new_gateway_state],
     gateways := gateways c @ [\<lparr>gw_index = i + 1, gw_config = gwConfig,
                                gw_state = length (state_cells c)\<rparr>]\<rparr>"

lemma create_gateways_Cons:
  "create_gateways i (config # rest) c = create_gateways (i + 1) rest (one_round i config c)"
  by (simp add: newGateway_def Let_def one_round_def)

lemma created_Cons:
  "created (i + 1) rest (one_round i config c) c' \<Longrightarrow> created i (config # rest) c c'"
  by (simp add: created_def Let_def one_round_def upt_conv_Cons del: upt_Suc)

lemma create_gateways_props: "created i cfgs c (create_gateways i cfgs c)"
proof (induction cfgs arbitrary: i c)
  case Nil
  then show ?case by (simp add: created_def)
next
  case (Cons config rest)
  show ?case
    unfolding create_gateways_Cons by (rule created_Cons) (rule Cons)
qed

lemma start_props:
  fixes c :: "'x component"
  assumes "c = Start_gateways (New cfgs)"
  shows "map gw_index (gateways c) = map Suc [0..<length cfgs]"
    and "map gw_config (gateways c) = replicate (length cfgs) gwConfig"
    and "map gw_state (gateways c) = [0..<length cfgs]"
    and "state_cells c = replicate (length cfgs) new_gateway_state"
    and "alive c"
    and "cfgs \<noteq> [] \<Longrightarrow> config_cells c gwConfig = Some (last cfgs)"
    and "length (gateways c) = length cfgs"
proof -
  have c: "c = create_gateways 0 cfgs (New cfgs)"
    by (simp add: assms Start_gateways_def New_def)
  note props = create_gateways_props [of 0 cfgs "New cfgs :: 'x component", folded c]
  show "map gw_index (gateways c) = map Suc [0..<length cfgs]"
    and "map gw_config (gateways c) = replicate (length cfgs) gwConfig"
    and st: "map gw_state (gateways c) = [0..<length cfgs]"
    and "state_cells c = replicate (length cfgs) new_gateway_state"
    and "alive c"
    and "cfgs \<noteq> [] \<Longrightarrow> config_cells c gwConfig = Some (last cfgs)"
    using props by (simp_all add: created_def New_def Let_def)
  from arg_cong [OF st, of length] show "length (gateways c) = length cfgs" by simp
qed

text \<open>
  C23. \<^verbatim>\<open>Start\<close> creates one gateway per configured item, numbered from 1, each with a state of its
  own; but every gateway holds the address of the same range variable, so the configuration
  each of them reads is the last one of the list, not its own.
\<close>

theorem every_gateway_reads_last_config:
  assumes c: "c = Start_gateways (New cfgs)" and i: "i < length cfgs"
  shows "length (gateways c) = length cfgs
     \<and> gw_index (gateways c ! i) = i + 1 \<and> gw_state (gateways c ! i) = i
     \<and> state_cells c ! i = new_gateway_state
     \<and> config_of c (gateways c ! i) = Some (last cfgs)"
proof -
  note props = start_props [OF c]
  have "map gw_config (gateways c) ! i = gwConfig" "map gw_index (gateways c) ! i = i + 1"
    "map gw_state (gateways c) ! i = i"
    unfolding props(1-3) using i by simp_all
  moreover have "cfgs \<noteq> []" using i by auto
  ultimately show ?thesis
    using props(4,6,7) i by (simp add: config_of_def)
qed

text \<open>Two gateways with different prefixes, as in the documentation's example.\<close>

definition other_config :: lrg_config where
  "other_config = example_config\<lparr>From := (From example_config)\<lparr>
     from_Prefix := \<lparr>IP = [10, 0, 0, 0], Mask = [255, 0, 0, 0]\<rparr>\<rparr>\<rparr>"

theorem every_gateway_reads_last_config_witness:
  "config_of (Start_gateways (New [example_config, other_config] :: nat component))
     (gateways (Start_gateways (New [example_config, other_config] :: nat component)) ! 0)
     = Some other_config \<and> other_config \<noteq> example_config"
proof -
  have "from_Prefix (From other_config) \<noteq> from_Prefix (From example_config)"
    by code_simp
  then have "other_config \<noteq> example_config" by auto
  then show ?thesis
    using every_gateway_reads_last_config
      [of "Start_gateways (New [example_config, other_config]) :: nat component", OF refl, of 0]
    by simp
qed

section \<open>Which gateway a goroutine handles\<close>

text \<open>
  After \<open>d\<close> rounds the range variable is the last visited gateway; the \<open>k\<close>-th goroutine to run
  reads a gateway at position \<open>k\<close> or later.
\<close>

definition spawn_inv :: "gateway list \<Rightarrow> spawner \<Rightarrow> bool" where
  "spawn_inv gws s \<longleftrightarrow> (\<exists>d. todo s = drop d gws \<and> d \<le> length gws
     \<and> waiting s + length (running s) = d
     \<and> gw_var s = (if d = 0 then None else Some (gws ! (d - 1)))
     \<and> (\<forall>k < length (running s). \<exists>j \<ge> k. j < d \<and> running s ! k = gws ! j))"

lemma spawn_inv_round:
  assumes inv: "spawn_inv gws s" and todo: "todo s = gw # rest"
  shows "spawn_inv gws (s\<lparr>todo := rest, gw_var := Some gw, waiting := Suc (waiting s)\<rparr>)"
proof -
  from inv obtain d where d: "todo s = drop d gws" "d \<le> length gws"
      "waiting s + length (running s) = d"
      "\<forall>k < length (running s). \<exists>j \<ge> k. j < d \<and> running s ! k = gws ! j"
    by (auto simp: spawn_inv_def)
  have lt: "d < length gws" using d(1,2) todo by (cases "d = length gws") auto
  then have "drop d gws = gws ! d # drop (Suc d) gws" by (simp add: Cons_nth_drop_Suc)
  with d(1) todo have "gw = gws ! d" "rest = drop (Suc d) gws" by simp_all
  moreover have "\<forall>k < length (running s). \<exists>j \<ge> k. j < Suc d \<and> running s ! k = gws ! j"
    using d(4) less_SucI by blast
  ultimately show ?thesis
    using d lt unfolding spawn_inv_def by (intro exI [of _ "Suc d"]) simp
qed

lemma spawn_inv_launch:
  assumes inv: "spawn_inv gws s" and w: "waiting s = Suc k" and v: "gw_var s = Some gw"
  shows "spawn_inv gws (s\<lparr>waiting := k, running := running s @ [gw]\<rparr>)"
proof -
  from inv obtain d where d: "todo s = drop d gws" "d \<le> length gws"
      "waiting s + length (running s) = d"
      "gw_var s = (if d = 0 then None else Some (gws ! (d - 1)))"
      "\<forall>k < length (running s). \<exists>j \<ge> k. j < d \<and> running s ! k = gws ! j"
    by (auto simp: spawn_inv_def)
  have "gw = gws ! (d - 1)" "length (running s) \<le> d - 1" "d - 1 < d"
    using d(3,4) v w by (auto split: if_splits)
  with d(5) have "\<forall>m < length (running s @ [gw]). \<exists>j \<ge> m. j < d \<and> (running s @ [gw]) ! m = gws ! j"
    by (auto simp: nth_append less_Suc_eq intro!: exI [of _ "d - 1"])
  with d w show ?thesis
    unfolding spawn_inv_def by (intro exI [of _ d]) simp
qed

interpretation spawn: step_system "\<lambda>s. s = spawner_start gws" spawn_step "spawn_inv gws"
  for gws
proof
  show "s = spawner_start gws \<Longrightarrow> spawn_inv gws s" for s
    by (auto simp: spawn_inv_def spawner_start_def intro: exI [of _ 0])
  show "spawn_inv gws s \<Longrightarrow> spawn_step s e t \<Longrightarrow> spawn_inv gws t" for s e t
    by (auto elim!: spawn_stepE intro: spawn_inv_round spawn_inv_launch)
qed

text \<open>A schedule: first all rounds, then all goroutines.\<close>

lemma spawn_rounds:
  "reach P spawn_step s \<Longrightarrow> \<exists>t. reach P spawn_step t \<and> todo t = [] \<and> running t = running s
     \<and> waiting t = waiting s + length (todo s)
     \<and> gw_var t = (if todo s = [] then gw_var s else Some (last (todo s)))"
proof (induction "todo s" arbitrary: s)
  case Nil
  then show ?case by (intro exI [of _ s]) simp
next
  case (Cons gw rest)
  let ?s1 = "s\<lparr>todo := rest, gw_var := Some gw, waiting := Suc (waiting s)\<rparr>"
  have "spawn_step s Round ?s1" using Cons.hyps(2) by (intro spawn_step.round) simp
  with Cons.prems have "reach P spawn_step ?s1" by (rule reach_step)
  with Cons.hyps(1) [of ?s1] Cons.hyps(2) [symmetric] show ?case by (auto split: if_splits)
qed

lemma spawn_launches:
  "reach P spawn_step s \<Longrightarrow> gw_var s = Some gw \<Longrightarrow>
     \<exists>t. reach P spawn_step t \<and> todo t = todo s \<and> waiting t = 0
       \<and> running t = running s @ replicate (waiting s) gw"
proof (induction "waiting s" arbitrary: s)
  case 0
  then show ?case by (intro exI [of _ s]) simp
next
  case (Suc k)
  let ?s1 = "s\<lparr>waiting := k, running := running s @ [gw]\<rparr>"
  have "spawn_step s Launch ?s1" using Suc.hyps(2) Suc.prems(2) by (intro spawn_step.launch) simp_all
  with Suc.prems(1) have "reach P spawn_step ?s1" by (rule reach_step)
  with Suc.hyps(1) [of ?s1] Suc.hyps(2) [symmetric] Suc.prems(2) show ?case
    by (auto simp: replicate_app_Cons_same)
qed

lemma all_last_schedule:
  assumes "gws \<noteq> []"
  shows "\<exists>s. reach (\<lambda>s. s = spawner_start gws) spawn_step s \<and> all_started s
     \<and> running s = replicate (length gws) (last gws)"
proof -
  have "reach (\<lambda>s. s = spawner_start gws) spawn_step (spawner_start gws)"
    by (rule reach_start) simp
  from spawn_rounds [OF this] obtain t where
    t: "reach (\<lambda>s. s = spawner_start gws) spawn_step t" "todo t = []" "running t = []"
      "waiting t = length gws" "gw_var t = Some (last gws)"
    using assms by (auto simp: spawner_start_def)
  from spawn_launches [OF t(1,5)] t show ?thesis
    by (auto simp: all_started_def)
qed

text \<open>
  Once all goroutines run there are as many as gateways, each handles one of the
  gateways, and the one started last handles the last gateway; so with a single gateway the
  start is right whatever the scheduler does.
\<close>

theorem goroutines_after_start:
  assumes "reach (\<lambda>s. s = spawner_start gws) spawn_step s" and "all_started s" and "gws \<noteq> []"
  shows "length (running s) = length gws \<and> set (running s) \<subseteq> set gws
     \<and> last (running s) = last gws"
proof -
  from spawn.reach_inv [OF assms(1)] assms(2) obtain d where d: "drop d gws = []" "d \<le> length gws"
      "length (running s) = d"
      and run: "\<forall>k < length (running s). \<exists>j \<ge> k. j < d \<and> running s ! k = gws ! j"
    by (auto simp: spawn_inv_def all_started_def)
  then have len: "length (running s) = length gws" by simp
  have "set (running s) \<subseteq> set gws"
    using run len d by (auto simp: in_set_conv_nth) metis
  moreover have "running s \<noteq> []" using len assms(3) by auto
  moreover from this run d len have "running s ! (length gws - 1) = gws ! (length gws - 1)"
    by (metis One_nat_def Suc_pred diff_less le_antisym length_greater_0_conv less_Suc_eq_le zero_less_one)
  ultimately show ?thesis
    using len assms(3) by (simp add: last_conv_nth)
qed

definition example_gateway :: "nat \<Rightarrow> gateway" where
  "example_gateway i = \<lparr>gw_index = i, gw_config = gwConfig, gw_state = i\<rparr>"

theorem goroutines_after_start_witness:
  "\<exists>s. reach (\<lambda>s. s = spawner_start [example_gateway 1]) spawn_step s \<and> length (running s) = 1
     \<and> last (running s) = example_gateway 1"
proof -
  obtain s where s: "reach (\<lambda>s. s = spawner_start [example_gateway 1]) spawn_step s" "all_started s"
    using all_last_schedule [of "[example_gateway 1]"] by blast
  from goroutines_after_start [OF s] s show ?thesis by auto
qed

text \<open>
  With several gateways the captured range variable lets all goroutines handle the last
  gateway: there is a schedule of \<^verbatim>\<open>Start\<close> after which no goroutine handles any other one.
\<close>

theorem all_goroutines_may_handle_last:
  assumes "gws \<noteq> []"
  shows "\<exists>s. reach (\<lambda>s. s = spawner_start gws) spawn_step s \<and> all_started s
     \<and> running s = replicate (length gws) (last gws)"
  by (rule all_last_schedule [OF assms])

theorem all_goroutines_may_handle_last_witness:
  "\<exists>s. reach (\<lambda>s. s = spawner_start [example_gateway 1, example_gateway 2]) spawn_step s
     \<and> all_started s \<and> example_gateway 1 \<notin> set (running s)"
proof -
  obtain s where "reach (\<lambda>s. s = spawner_start [example_gateway 1, example_gateway 2]) spawn_step s"
      "all_started s" "running s = [example_gateway 2, example_gateway 2]"
    using all_goroutines_may_handle_last [of "[example_gateway 1, example_gateway 2]"] by auto
  then show ?thesis by (intro exI [of _ s]) (simp add: example_gateway_def)
qed

section \<open>Delivery\<close>

definition component_ok :: "'x component \<Rightarrow> bool" where
  "component_ok c \<longleftrightarrow> distinct (map gw_state (gateways c))
     \<and> list_all (\<lambda>gw. gw_state gw < length (state_cells c)) (gateways c)"

lemma component_ok_start:
  assumes c: "c = Start_gateways (New cfgs)"
  shows "component_ok c"
proof -
  note props = start_props [OF c]
  have "gw_state gw < length cfgs" if "gw \<in> set (gateways c)" for gw
    using that props(3) by (metis atLeastLessThan_iff image_eqI set_map set_upt)
  with props(3,4) show ?thesis by (simp add: component_ok_def list_all_iff)
qed

definition queue :: "'x component \<Rightarrow> addr \<Rightarrow> 'x notification list" where
  "queue c a = notification (state_cells c ! a)"

lemma push_frame:
  assumes "pushNotification gw n c = Some c'"
  shows "length (state_cells c') = length (state_cells c)"
    and "gateways c' = gateways c"
    and "alive c' = alive c"
    and "config_cells c' = config_cells c"
    and "a < length (state_cells c) \<Longrightarrow>
           queue c' a = (if a = gw_state gw then queue c a @ [n] else queue c a)"
  using assms by (auto simp: pushNotification_def Let_def queue_def split: if_splits)

lemma push_Some_iff:
  "(\<exists>c'. pushNotification gw n c = Some c') \<longleftrightarrow> length (queue c (gw_state gw)) < channel_capacity"
  by (auto simp: pushNotification_def Let_def queue_def)

lemma push_None_iff:
  "pushNotification gw n c = None \<longleftrightarrow> channel_capacity \<le> length (queue c (gw_state gw))"
  by (auto simp: pushNotification_def Let_def queue_def)

lemma push_all_delivers:
  assumes "distinct (map gw_state gws)"
    and "list_all (\<lambda>gw. gw_state gw < length (state_cells c)
           \<and> length (queue c (gw_state gw)) < channel_capacity) gws"
  shows "\<exists>c'. push_all gws n c = Some (c', replicate (length gws) (CounterInc ''notification.count'' 1))
     \<and> gateways c' = gateways c \<and> alive c' = alive c
     \<and> length (state_cells c') = length (state_cells c)
     \<and> (\<forall>a < length (state_cells c).
          queue c' a = (if a \<in> gw_state ` set gws then queue c a @ [n] else queue c a))"
  using assms
proof (induction gws arbitrary: c)
  case Nil
  then show ?case by simp
next
  case (Cons gw gws)
  then obtain c1 where c1: "pushNotification gw n c = Some c1"
    using push_Some_iff [of gw n c] by auto
  note frame = push_frame [OF c1]
  have room: "list_all (\<lambda>g. gw_state g < length (state_cells c1)
      \<and> length (queue c1 (gw_state g)) < channel_capacity) gws"
  proof -
    have "gw_state g \<noteq> gw_state gw" if "g \<in> set gws" for g
      using Cons.prems(1) that by (auto simp: image_iff)
    with Cons.prems(2) show ?thesis by (simp add: list_all_iff frame)
  qed
  from Cons.IH [OF _ room] Cons.prems(1) obtain c2 where c2:
      "push_all gws n c1 = Some (c2, replicate (length gws) (CounterInc ''notification.count'' 1))"
      "gateways c2 = gateways c" "alive c2 = alive c"
      "length (state_cells c2) = length (state_cells c)"
      "\<forall>a < length (state_cells c). queue c2 a =
         (if a \<in> gw_state ` set gws then queue c1 a @ [n] else queue c1 a)"
    by (auto simp: frame)
  with Cons.prems(1) show ?case
    by (auto simp: c1 frame)
qed

lemma push_all_blocks:
  assumes "gw \<in> set gws" and "list_all (\<lambda>g. gw_state g < length (state_cells c)) gws"
    and "channel_capacity \<le> length (queue c (gw_state gw))"
  shows "push_all gws n c = None"
  using assms
proof (induction gws arbitrary: c)
  case Nil
  then show ?case by simp
next
  case (Cons g gws)
  show ?case
  proof (cases "pushNotification g n c")
    case None
    then show ?thesis by simp
  next
    case (Some c1)
    note frame = push_frame [OF Some]
    have "gw \<noteq> g" using Some Cons.prems(3) push_None_iff [of g n c] by auto
    with Cons.prems have "gw \<in> set gws" by simp
    moreover have "channel_capacity \<le> length (queue c1 (gw_state gw))"
      using Cons.prems \<open>gw \<in> set gws\<close> by (auto simp: frame list_all_iff)
    ultimately have "push_all gws n c1 = None"
      using Cons.prems(2) by (intro Cons.IH) (simp_all add: frame)
    with Some show ?thesis by simp
  qed
qed

text \<open>
  The callback delivers: while the component is alive and no channel is full, a
  notification is appended to the channel of each gateway exactly once and nothing else
  changes; after \<^verbatim>\<open>Stop\<close> it changes nothing.
\<close>

theorem notification_reaches_every_gateway:
  assumes ok: "component_ok c"
    and room: "list_all (\<lambda>gw. length (queue c (gw_state gw)) < channel_capacity) (gateways c)"
  shows "(\<exists>c'. on_notification n c = Some (c', if alive c
              then replicate (length (gateways c)) (CounterInc ''notification.count'' 1) else [])
       \<and> gateways c' = gateways c \<and> component_ok c'
       \<and> list_all (\<lambda>gw. queue c' (gw_state gw) =
            (if alive c then queue c (gw_state gw) @ [n] else queue c (gw_state gw))) (gateways c))
     \<and> on_notification n (fst (Stop c)) = Some (fst (Stop c), [])"
proof -
  have pre: "list_all (\<lambda>gw. gw_state gw < length (state_cells c)
      \<and> length (queue c (gw_state gw)) < channel_capacity) (gateways c)"
    using ok room by (auto simp: component_ok_def list_all_iff)
  have "distinct (map gw_state (gateways c))" using ok by (simp add: component_ok_def)
  from push_all_delivers [OF this pre, of n] ok show ?thesis
    by (auto simp: on_notification_def Stop_def component_ok_def list_all_iff)
qed

theorem notification_reaches_every_gateway_witness:
  "\<exists>c'. on_notification start_of_rib (Start_gateways (New [example_config, other_config]) :: nat component)
     = Some (c', replicate 2 (CounterInc ''notification.count'' 1))"
proof -
  let ?c = "Start_gateways (New [example_config, other_config]) :: nat component"
  note props = start_props [of ?c "[example_config, other_config]", OF refl]
  have room: "list_all (\<lambda>gw. length (queue ?c (gw_state gw)) < channel_capacity) (gateways ?c)"
  proof (unfold list_all_iff, rule ballI)
    fix gw assume "gw \<in> set (gateways ?c)"
    then have "gw_state gw \<in> set (map gw_state (gateways ?c))" by simp
    then have "gw_state gw = 0 \<or> gw_state gw = 1" by (auto simp: props)
    then show "length (queue ?c (gw_state gw)) < channel_capacity"
      by (auto simp: queue_def props channel_capacity_def new_gateway_state_def)
  qed
  from notification_reaches_every_gateway [OF component_ok_start [OF refl] room, of start_of_rib] show ?thesis
    by (auto simp: props numeral_2_eq_2)
qed

text \<open>
  A gateway that nobody handles stops the whole daemon: as soon as its channel holds 100
  notifications the callback, and with it the netlink component that calls it, blocks on the
  next one, whatever room the other gateways have.
\<close>

theorem unhandled_gateway_blocks_everyone:
  assumes "component_ok c" and "alive c" and "gw \<in> set (gateways c)"
    and "length (queue c (gw_state gw)) = 100"
  shows "on_notification n c = None"
  using push_all_blocks [OF assms(3), of c n] assms
  by (simp add: on_notification_def component_ok_def channel_capacity_def)

definition stalled_component :: "nat component" where
  "stalled_component = \<lparr>comp_config = [example_config], gateways = [example_gateway 0],
     config_cells = [gwConfig \<mapsto> example_config],
     state_cells = [new_gateway_state\<lparr>notification := replicate 100 start_of_rib\<rparr>], alive = True\<rparr>"

theorem unhandled_gateway_blocks_everyone_witness:
  "on_notification end_of_rib stalled_component = None"
  by (rule unhandled_gateway_blocks_everyone [where gw = "example_gateway 0"])
     (simp_all add: stalled_component_def component_ok_def example_gateway_def queue_def)

end
