(* ===== verification/Gateways_Shutdown.thy ===== *)
theory Gateways_Shutdown
  imports Gateways_Component
begin

text \<open>
  The gateways component at run time (\<^verbatim>\<open>src/gateways/root.go\<close>, \<^verbatim>\<open>gateway.go\<close>): the goroutines of the
  gateways, the callback in the goroutine of the netlink component, and \<^verbatim>\<open>Stop\<close>. A goroutine is the
  gateway value it was given and its phase; it takes the steps of \<^verbatim>\<open>runGateway\<close> on the cell of that
  gateway, with the configuration the gateway's pointer leads to. Several goroutines may have the
  same gateway (see the loop variables of \<^verbatim>\<open>Start\<close>); a case of their \<^verbatim>\<open>select\<close> is one step.

  The callback tests \<^verbatim>\<open>Alive\<close> once, then sends to one gateway after the other; each send may have to
  wait. The effects of the parts are those of the theories before this one and are not recorded again.
\<close>

section \<open>The steps\<close>

record 'x gateways_run =
  gr_comp :: "'x component"
  gr_workers :: "(gateway \<times> phase) list"
  gr_callback :: "('x notification \<times> gateway list) option"

datatype 'x gateways_event =
    EnterCallback "'x notification"
  | PushOne
  | LeaveCallback
  | Work nat "'x select_case"
  | StopAll

definition enter_callback :: "'x notification \<Rightarrow> 'x component \<Rightarrow> 'x notification \<times> gateway list" where
  "enter_callback n c = (n, if alive c then gateways c else [])"

text \<open>What a goroutine sees: its phase and the state of its gateway.\<close>

definition cell :: "'x component \<Rightarrow> gateway \<Rightarrow> 'x gateway_state" where
  "cell c gw = state_cells c ! gw_state gw"

definition view_of :: "'x component \<Rightarrow> gateway \<times> phase \<Rightarrow> 'x gateway_run" where
  "view_of c w = \<lparr>phase = snd w, gstate = cell c (fst w), trace = []\<rparr>"

definition store_cell :: "gateway \<Rightarrow> 'x gateway_state \<Rightarrow> 'x component \<Rightarrow> 'x component" where
  "store_cell gw st c = c\<lparr>state_cells := (state_cells c)[gw_state gw := st]\<rparr>"

text \<open>A panic of a goroutine ends the process: no step follows.\<close>

definition no_panic :: "'x gateways_run \<Rightarrow> bool" where
  "no_panic s \<longleftrightarrow> list_all (\<lambda>w. snd w = Running \<or> snd w = Returned) (gr_workers s)"

definition may_take :: "'x component \<Rightarrow> 'x select_case \<Rightarrow> bool" where
  "may_take c ev \<longleftrightarrow> (if ev = Dying then \<not> alive c else True)"

inductive gateways_step ::
    "'x netlink_lib \<Rightarrow> 'x gateways_run \<Rightarrow> 'x gateways_event \<Rightarrow> 'x gateways_run \<Rightarrow> bool" for L where
  enter: "no_panic s \<Longrightarrow> gr_callback s = None \<Longrightarrow>
     gateways_step L s (EnterCallback n) (s\<lparr>gr_callback := Some (enter_callback n (gr_comp s))\<rparr>)"
| push_one: "no_panic s \<Longrightarrow> gr_callback s = Some (n, gw # gws) \<Longrightarrow>
     pushNotification gw n (gr_comp s) = Some c \<Longrightarrow>
     gateways_step L s PushOne (s\<lparr>gr_comp := c, gr_callback := Some (n, gws)\<rparr>)"
| leave: "no_panic s \<Longrightarrow> gr_callback s = Some (n, []) \<Longrightarrow>
     gateways_step L s LeaveCallback (s\<lparr>gr_callback := None\<rparr>)"
| work: "no_panic s \<Longrightarrow> k < length (gr_workers s) \<Longrightarrow> gr_workers s ! k = (gw, ph) \<Longrightarrow>
     may_take (gr_comp s) ev \<Longrightarrow> config_of (gr_comp s) gw = Some cfg \<Longrightarrow>
     gateway_step L (gw_index gw) cfg (view_of (gr_comp s) (gw, ph)) (Select ev) v \<Longrightarrow>
     gateways_step L s (Work k ev)
       (s\<lparr>gr_comp := store_cell gw (gstate v) (gr_comp s),
          gr_workers := (gr_workers s)[k := (gw, phase v)]\<rparr>)"
| stop_all: "no_panic s \<Longrightarrow>
     gateways_step L s StopAll (s\<lparr>gr_comp := fst (Stop (gr_comp s))\<rparr>)"

inductive_cases gateways_stepE: "gateways_step L s ev t"

text \<open>\<^verbatim>\<open>Start\<close> has created the gateways and all its goroutines run, on whatever gateways they got.\<close>

definition gateways_start :: "lrg_config list \<Rightarrow> 'x gateways_run \<Rightarrow> bool" where
  "gateways_start cfgs s \<longleftrightarrow> gr_comp s = Start_gateways (New cfgs) \<and> gr_callback s = None
     \<and> set (map fst (gr_workers s)) \<subseteq> set (gateways (gr_comp s))
     \<and> list_all (\<lambda>w. snd w = Running) (gr_workers s)"

text \<open>\<^verbatim>\<open>Stop\<close> waits until the tomb is dead: every goroutine has returned.\<close>

definition stopped_all :: "'x gateways_run \<Rightarrow> bool" where
  "stopped_all s \<longleftrightarrow> \<not> alive (gr_comp s) \<and> list_all (\<lambda>w. snd w = Returned) (gr_workers s)"

section \<open>Invariant\<close>

definition system_inv :: "lrg_config list \<Rightarrow> 'x gateways_run \<Rightarrow> bool" where
  "system_inv cfgs s \<longleftrightarrow> component_ok (gr_comp s)
     \<and> set (map fst (gr_workers s)) \<subseteq> set (gateways (gr_comp s))
     \<and> list_all (\<lambda>gw. config_of (gr_comp s) gw = Some (last cfgs)) (gateways (gr_comp s))
     \<and> list_all (\<lambda>st. gateway_ok (last cfgs) st \<and> length (notification st) \<le> channel_capacity)
         (state_cells (gr_comp s))
     \<and> (case gr_callback s of None \<Rightarrow> True
        | Some (n, gws) \<Rightarrow> set gws \<subseteq> set (gateways (gr_comp s)))"

lemma store_cell_simps [simp]:
  "gateways (store_cell gw st c) = gateways c"
  "config_of (store_cell gw st c) = config_of c"
  "alive (store_cell gw st c) = alive c"
  "component_ok (store_cell gw st c) = component_ok c"
  "state_cells (store_cell gw st c) = (state_cells c)[gw_state gw := st]"
  by (simp_all add: store_cell_def config_of_def component_ok_def fun_eq_iff)

lemma pushNotification_store:
  "pushNotification gw n c = (if length (notification (cell c gw)) < channel_capacity
     then Some (store_cell gw ((cell c gw)\<lparr>notification := notification (cell c gw) @ [n]\<rparr>) c) else None)"
  by (simp add: pushNotification_def store_cell_def cell_def Let_def)

lemma stop_simps [simp]:
  "gateways (fst (Stop c)) = gateways c" "config_of (fst (Stop c)) = config_of c"
  "alive (fst (Stop c)) = False" "component_ok (fst (Stop c)) = component_ok c"
  "state_cells (fst (Stop c)) = state_cells c"
  by (simp_all add: Stop_def config_of_def component_ok_def fun_eq_iff)

lemma system_inv_cell:
  assumes "system_inv cfgs s" and "gw \<in> set (gateways (gr_comp s))"
  shows "gw_state gw < length (state_cells (gr_comp s))" "gateway_ok (last cfgs) (cell (gr_comp s) gw)"
    "length (notification (cell (gr_comp s) gw)) \<le> channel_capacity"
    "config_of (gr_comp s) gw = Some (last cfgs)"
  using assms by (auto simp: system_inv_def component_ok_def list_all_iff cell_def)

lemma list_all_update: "list_all P xs \<Longrightarrow> P x \<Longrightarrow> list_all P (xs[i := x])"
  using set_update_subset_insert [of xs i x] by (auto simp: list_all_iff)

lemma select_keeps_cell:
  assumes ok: "gateway_ok cfg (gstate v)" and "length (notification (gstate v)) \<le> channel_capacity"
    and step: "gateway_step L i cfg v (Select ev) v'"
  shows "gateway_ok cfg (gstate v') \<and> length (notification (gstate v')) \<le> channel_capacity"
proof -
  from step_outcome [OF ok step] have "outcome_of L i cfg v (outcome v ev) v'" by simp
  then show ?thesis
  proof cases
    case (handled n q st' es)
    have "gateway_ok cfg ((gstate v)\<lparr>notification := q\<rparr>)" using ok by simp
    from go_okD [OF processNotification_implements [OF this] handled(4)] handled assms(2) show ?thesis
      by (simp add: implements_def)
  qed (use ok assms(2) in \<open>auto simp: gateway_ok_def\<close>)
qed

lemma new_notification [simp]: "notification new_gateway_state = []"
  by (simp add: new_gateway_state_def)

lemma gateways_start_inv:
  assumes "gateways_start cfgs s"
  shows "system_inv cfgs s"
proof -
  have c: "gr_comp s = Start_gateways (New cfgs)" using assms(1) by (simp add: gateways_start_def)
  note props = start_props [OF c]
  have "gw_config gw = gwConfig \<and> cfgs \<noteq> []" if "gw \<in> set (gateways (gr_comp s))" for gw
    using that props(2,7) by (metis image_eqI in_set_replicate length_pos_if_in_set length_0_conv less_nat_zero_code set_map)
  with assms props component_ok_start [OF c] show ?thesis
    by (auto simp: system_inv_def gateways_start_def config_of_def list_all_iff channel_capacity_def
        dest: in_set_replicate [THEN iffD1])
qed

lemma gateways_step_inv:
  assumes inv: "system_inv cfgs s" and step: "gateways_step L s ev t"
  shows "system_inv cfgs t"
  using step
proof cases
  case (push_one n gw gws c)
  then have "gw \<in> set (gateways (gr_comp s))" using inv by (auto simp: system_inv_def)
  from system_inv_cell [OF inv this] inv push_one show ?thesis
    by (auto simp: system_inv_def pushNotification_store intro!: list_all_update split: if_splits)
next
  case (work k gw ph c cfg v)
  have gw: "gw \<in> set (gateways (gr_comp s))"
    using work(4,5) inv by (force simp: system_inv_def dest: nth_mem)
  note cell = system_inv_cell [OF inv gw]
  have "cfg = last cfgs" using work(7) cell(4) by simp
  with cell have "gateway_ok (last cfgs) (gstate v) \<and> length (notification (gstate v)) \<le> channel_capacity"
    using select_keeps_cell [OF _ _ work(8)] by (simp add: view_of_def)
  with inv work gw show ?thesis
    using set_update_subset_insert [of "map fst (gr_workers s)" k gw]
    by (auto simp: system_inv_def map_update intro!: list_all_update split: option.splits)
qed (use inv in \<open>auto simp: system_inv_def enter_callback_def split: option.splits\<close>)

interpretation gws: step_system "gateways_start cfgs" "gateways_step L" "system_inv cfgs"
  for L cfgs
  by unfold_locales (blast intro: gateways_start_inv gateways_step_inv)+

section \<open>The callback\<close>

text \<open>
  While the goroutines of the gateways do nothing, the steps of the callback are one call of
  \<open>on_notification\<close>.
\<close>

lemma push_all_run:
  assumes "push_all gws n (gr_comp s) = Some (c, es)" and "no_panic s"
    and "gr_callback s = Some (n, gws)"
  shows "execution (gateways_step L) s (replicate (length gws) PushOne)
    (s\<lparr>gr_comp := c, gr_callback := Some (n, [])\<rparr>)"
  using assms
proof (induction gws arbitrary: s es)
  case Nil
  then have "s\<lparr>gr_comp := c, gr_callback := Some (n, [])\<rparr> = s" by (cases s) simp
  then show ?case by (simp add: execution_nil)
next
  case (Cons gw gws)
  then obtain c1 fs where c1: "pushNotification gw n (gr_comp s) = Some c1"
    and rest: "push_all gws n c1 = Some (c, fs)"
    by (auto split: option.splits)
  let ?s1 = "s\<lparr>gr_comp := c1, gr_callback := Some (n, gws)\<rparr>"
  have "gateways_step L s PushOne ?s1"
    using Cons.prems c1 by (intro gateways_step.push_one)
  moreover have "execution (gateways_step L) ?s1 (replicate (length gws) PushOne)
      (?s1\<lparr>gr_comp := c, gr_callback := Some (n, [])\<rparr>)"
    using Cons.prems(2) rest by (intro Cons.IH) (simp_all add: no_panic_def)
  ultimately show ?case by (simp add: execution_cons)
qed

definition callback_events :: "'x notification \<Rightarrow> 'x component \<Rightarrow> 'x gateways_event list" where
  "callback_events n c = EnterCallback n
     # replicate (length (snd (enter_callback n c))) PushOne @ [LeaveCallback]"

lemma on_notification_run:
  assumes "on_notification n (gr_comp s) = Some (c, es)" and "no_panic s" and "gr_callback s = None"
  shows "execution (gateways_step L) s (callback_events n (gr_comp s)) (s\<lparr>gr_comp := c\<rparr>)"
proof -
  let ?gws = "snd (enter_callback n (gr_comp s))"
  let ?s1 = "s\<lparr>gr_callback := Some (enter_callback n (gr_comp s))\<rparr>"
  let ?s2 = "s\<lparr>gr_comp := c, gr_callback := Some (n, [])\<rparr>"
  have "gateways_step L s (EnterCallback n) ?s1"
    using assms(2,3) by (rule gateways_step.enter)
  moreover have "push_all ?gws n (gr_comp ?s1) = Some (c, es)"
    using assms(1) by (simp add: on_notification_def enter_callback_def split: if_splits)
  then have "execution (gateways_step L) ?s1 (replicate (length ?gws) PushOne)
      (?s1\<lparr>gr_comp := c, gr_callback := Some (n, [])\<rparr>)"
    by (rule push_all_run) (use assms(2) in \<open>simp_all add: enter_callback_def no_panic_def\<close>)
  moreover have "gateways_step L ?s2 LeaveCallback (?s2\<lparr>gr_callback := None\<rparr>)"
    using assms(2) by (intro gateways_step.leave) (simp_all add: no_panic_def)
  then have "gateways_step L ?s2 LeaveCallback (s\<lparr>gr_comp := c\<rparr>)"
    using assms(3) by (cases s) simp
  ultimately show ?thesis
    unfolding callback_events_def
    by (auto intro: execution_cons execution_snoc)
qed

section \<open>Stop\<close>

text \<open>A goroutine takes the \<open>Dying\<close> case.\<close>

definition retire :: "nat \<Rightarrow> 'x gateways_run \<Rightarrow> 'x gateways_run" where
  "retire k s = (let gw = fst (gr_workers s ! k) in
     s\<lparr>gr_comp := store_cell gw ((cell (gr_comp s) gw)\<lparr>installationTick := None\<rparr>) (gr_comp s),
       gr_workers := (gr_workers s)[k := (gw, Returned)]\<rparr>)"

lemma retire_step:
  assumes inv: "system_inv cfgs s" and "\<not> alive (gr_comp s)" and "no_panic s"
    and k: "k < length (gr_workers s)" "snd (gr_workers s ! k) = Running"
  shows "gateways_step L s (Work k Dying) (retire k s)"
proof -
  obtain gw where gw: "gr_workers s ! k = (gw, Running)" using k(2) by (cases "gr_workers s ! k") simp
  have "gw \<in> set (gateways (gr_comp s))"
    using gw k(1) inv by (force simp: system_inv_def dest: nth_mem)
  note cell = system_inv_cell [OF inv this]
  let ?v = "view_of (gr_comp s) (gw, Running)"
  let ?st = "cell (gr_comp s) gw"
  have "run_case L (gw_index gw) (last cfgs) ?st Dying
      = Inr (Return (?st\<lparr>installationTick := None\<rparr>), stop_current ?st)"
    by (rule run_Dying [OF gateway_okD(1) [OF cell(2)]])
  then have "gateway_step L (gw_index gw) (last cfgs) ?v (Select Dying)
      (?v\<lparr>phase := Returned, gstate := ?st\<lparr>installationTick := None\<rparr>,
          trace := trace ?v @ stop_current ?st @ return_effects\<rparr>)"
    by (intro gateway_step.return) (simp_all add: view_of_def ready_def)
  from gateways_step.work [OF assms(3) k(1) gw _ cell(4) this] assms(2) show ?thesis
    by (simp add: may_take_def retire_def gw Let_def)
qed

lemma retire_simps [simp]:
  "gr_callback (retire k s) = gr_callback s" "alive (gr_comp (retire k s)) = alive (gr_comp s)"
  "gateways (gr_comp (retire k s)) = gateways (gr_comp s)"
  "length (gr_workers (retire k s)) = length (gr_workers s)"
  "map snd (gr_workers (retire k s)) = (map snd (gr_workers s))[k := Returned]"
  by (simp_all add: retire_def Let_def map_update)

lemma retire_queue:
  "queue (gr_comp (retire k s)) a = queue (gr_comp s) a"
  by (cases "gw_state (fst (gr_workers s ! k)) = a"; cases "a < length (state_cells (gr_comp s))")
     (simp_all add: retire_def Let_def queue_def cell_def list_update_beyond)

text \<open>The number of goroutines that run.\<close>

definition active :: "'x gateways_run \<Rightarrow> nat" where
  "active s = length (filter (\<lambda>w. snd w = Running) (gr_workers s))"

lemma filter_update_less:
  "k < length xs \<Longrightarrow> P (xs ! k) \<Longrightarrow> \<not> P y \<Longrightarrow>
     length (filter P xs) = Suc (length (filter P (xs[k := y])))"
  by (induction xs arbitrary: k) (auto simp: less_Suc_eq_0_disj split: nat.splits)

lemma active_retire:
  "k < length (gr_workers s) \<Longrightarrow> snd (gr_workers s ! k) = Running \<Longrightarrow>
     active s = Suc (active (retire k s))"
  by (simp add: active_def retire_def Let_def filter_update_less)

lemma active_zero: "active s = 0 \<Longrightarrow> no_panic s \<Longrightarrow> list_all (\<lambda>w. snd w = Returned) (gr_workers s)"
  by (auto simp: active_def no_panic_def list_all_iff filter_empty_conv)

lemma active_Suc: "active s = Suc m \<Longrightarrow> \<exists>k. k < length (gr_workers s) \<and> snd (gr_workers s ! k) = Running"
  by (metis (mono_tags, lifting) active_def filter_empty_conv in_set_conv_nth list.size(3) nat.distinct(1))

lemma retire_all:
  assumes "system_inv cfgs s" and "\<not> alive (gr_comp s)" and "no_panic s"
  shows "\<exists>ks t. execution (gateways_step L) s (map (\<lambda>k. Work k Dying) ks) t
     \<and> length ks = active s \<and> stopped_all t \<and> gr_callback t = gr_callback s
     \<and> gateways (gr_comp t) = gateways (gr_comp s) \<and> queue (gr_comp t) = queue (gr_comp s)"
  using assms
proof (induction "active s" arbitrary: s)
  case 0
  then have "stopped_all s" by (simp add: stopped_all_def active_zero)
  with 0 show ?case
    by (intro exI [of _ "[]"] exI [of _ s]) (simp add: execution_nil)
next
  case (Suc m)
  then obtain k where k: "k < length (gr_workers s)" "snd (gr_workers s ! k) = Running"
    using active_Suc [of s m] by auto
  note step = retire_step [OF Suc.prems k, of L]
  have "m = active (retire k s)" using Suc.hyps(2) active_retire [OF k] by simp
  moreover have "no_panic (retire k s)"
    using Suc.prems(3) by (auto simp: no_panic_def retire_def Let_def intro!: list_all_update)
  moreover have "queue (gr_comp (retire k s)) = queue (gr_comp s)"
    by (rule ext) (rule retire_queue)
  ultimately obtain ks t where t: "execution (gateways_step L) (retire k s) (map (\<lambda>k. Work k Dying) ks) t"
      "length ks = m" "stopped_all t" "gr_callback t = gr_callback s"
      "gateways (gr_comp t) = gateways (gr_comp s)" "queue (gr_comp t) = queue (gr_comp s)"
    using Suc.hyps(1) [of "retire k s"] gateways_step_inv [OF Suc.prems(1) step] Suc.prems(2) by auto
  have "execution (gateways_step L) s (map (\<lambda>k. Work k Dying) (k # ks)) t"
    using execution_cons [OF step t(1)] by simp
  moreover have "length (k # ks) = active s" using t(2) Suc.hyps(2) by simp
  ultimately show ?case using t(3-6) by blast
qed

text \<open>
  C24. \<^verbatim>\<open>Stop\<close> of the gateways component can return whatever the callback is doing, even when it
  is blocked on a full channel: in every reachable state of a component that was told to stop and
  did not crash, one step of each goroutine that still runs ends them all, and leaves the callback
  and the channels as they are.
\<close>

theorem gateways_stop_returns:
  assumes "reach (gateways_start cfgs) (gateways_step L) s" and "\<not> alive (gr_comp s)" and "no_panic s"
  shows "\<exists>ks t. execution (gateways_step L) s (map (\<lambda>k. Work k Dying) ks) t
     \<and> length ks = active s \<and> stopped_all t \<and> gr_callback t = gr_callback s
     \<and> queue (gr_comp t) = queue (gr_comp s)"
  using retire_all [OF gws.reach_inv [OF assms(1)] assms(2,3)] by blast

section \<open>A callback that never returns\<close>

text \<open>
  The callback waits for room in the channel of a gateway, and every goroutine that could make
  room has returned.
\<close>

definition stuck :: "'x gateways_run \<Rightarrow> bool" where
  "stuck s \<longleftrightarrow> list_all (\<lambda>w. snd w = Returned) (gr_workers s)
     \<and> (case gr_callback s of Some (n, gw # gws) \<Rightarrow>
          channel_capacity \<le> length (queue (gr_comp s) (gw_state gw)) | _ \<Rightarrow> False)"

lemma stuck_step:
  assumes "stuck s" and "gateways_step L s ev t"
  shows "stuck t \<and> gr_callback t = gr_callback s"
  using assms(2)
proof cases
  case (push_one n gw gws c)
  with assms(1) show ?thesis
    using push_None_iff [of gw n "gr_comp s"] by (simp add: stuck_def)
next
  case (work k gw ph c cfg v)
  then have "ph = Returned" using assms(1) nth_mem [OF work(4)] by (simp add: stuck_def list_all_iff) force
  with work(8) show ?thesis by (auto elim!: gateway_step_SelectE simp: view_of_def)
qed (use assms(1) in \<open>auto simp: stuck_def queue_def split: option.splits list.splits\<close>)

lemma stuck_forever:
  assumes "execution (gateways_step L) s evs t" and "stuck s"
  shows "stuck t \<and> gr_callback t = gr_callback s"
  using assms by (induction rule: execution.induct) (auto dest: stuck_step)

text \<open>The notifications the callback was entered with in a run.\<close>

definition entered :: "'x gateways_event list \<Rightarrow> 'x notification list" where
  "entered evs = concat (map (\<lambda>e. case e of EnterCallback n \<Rightarrow> [n] | _ \<Rightarrow> []) evs)"

lemma entered_simps [simp]:
  "entered [] = []" "entered (es @ fs) = entered es @ entered fs"
  "entered (EnterCallback n # es) = n # entered es" "entered (PushOne # es) = entered es"
  "entered (LeaveCallback # es) = entered es" "entered (Work k c # es) = entered es"
  "entered (StopAll # es) = entered es"
  by (simp_all add: entered_def)

lemma entered_callback [simp]: "entered (callback_events n c) = [n]"
proof -
  have "entered (replicate m PushOne) = []" for m by (induction m) simp_all
  then show ?thesis by (simp add: callback_events_def)
qed

lemma entered_retire [simp]: "entered (map (\<lambda>k. Work k Dying) ks) = []"
  by (induction ks) simp_all

text \<open>Filling the channels: the callback runs while the goroutines of the gateways are not scheduled.\<close>

definition queues_are :: "'x notification list \<Rightarrow> 'x component \<Rightarrow> bool" where
  "queues_are ns c \<longleftrightarrow> list_all (\<lambda>gw. queue c (gw_state gw) = ns) (gateways c)"

lemma notify_once:
  assumes ok: "component_ok c" "alive c" and q: "queues_are ns c" and room: "length ns < channel_capacity"
  shows "\<exists>c' es. on_notification n c = Some (c', es) \<and> component_ok c' \<and> alive c'
     \<and> gateways c' = gateways c \<and> queues_are (ns @ [n]) c'"
proof -
  have pre: "list_all (\<lambda>gw. gw_state gw < length (state_cells c)
      \<and> length (queue c (gw_state gw)) < channel_capacity) (gateways c)"
    using ok q room by (auto simp: component_ok_def queues_are_def list_all_iff)
  have "distinct (map gw_state (gateways c))" using ok by (simp add: component_ok_def)
  from push_all_delivers [OF this pre, of n] ok q show ?thesis
    by (auto simp: on_notification_def component_ok_def queues_are_def list_all_iff)
qed

lemma fill_channels:
  assumes ok: "component_ok (gr_comp s)" "alive (gr_comp s)" "queues_are [] (gr_comp s)"
    and "no_panic s" and "gr_callback s = None" and "length ns \<le> channel_capacity"
  shows "\<exists>evs c. execution (gateways_step L) s evs (s\<lparr>gr_comp := c\<rparr>)
     \<and> component_ok c \<and> alive c \<and> gateways c = gateways (gr_comp s) \<and> queues_are ns c \<and> entered evs = ns"
  using assms(6)
proof (induction ns rule: rev_induct)
  case Nil
  have "s\<lparr>gr_comp := gr_comp s\<rparr> = s" by simp
  with ok show ?case by (metis execution_nil entered_simps(1))
next
  case (snoc n ns)
  then obtain evs c where c: "execution (gateways_step L) s evs (s\<lparr>gr_comp := c\<rparr>)"
      "component_ok c" "alive c" "gateways c = gateways (gr_comp s)" "queues_are ns c" "entered evs = ns"
    by auto
  from notify_once [OF c(2,3,5), of n] snoc.prems obtain c' es
    where c': "on_notification n c = Some (c', es)" "component_ok c'" "alive c'"
      "gateways c' = gateways c" "queues_are (ns @ [n]) c'"
    by auto
  have "execution (gateways_step L) (s\<lparr>gr_comp := c\<rparr>)
      (callback_events n (gr_comp (s\<lparr>gr_comp := c\<rparr>))) (s\<lparr>gr_comp := c\<rparr>\<lparr>gr_comp := c'\<rparr>)"
    by (rule on_notification_run) (use c' assms(4,5) in \<open>simp_all add: no_panic_def\<close>)
  then have "execution (gateways_step L) s (evs @ callback_events n c) (s\<lparr>gr_comp := c'\<rparr>)"
    using execution_append [OF _ c(1)] by simp
  with c c' show ?case by (intro exI conjI) auto
qed

text \<open>The callback waits for room, and nothing was told to stop.\<close>

lemma full_run:
  fixes ns :: "'x notification list"
  assumes start: "gateways_start cfgs s" and "cfgs \<noteq> []" and full: "length ns = channel_capacity"
  shows "\<exists>evs t gw gws. execution (gateways_step L) s evs t \<and> alive (gr_comp t) \<and> no_panic t
     \<and> gr_callback t = Some (n, gw # gws) \<and> queue (gr_comp t) (gw_state gw) = ns
     \<and> entered evs = ns @ [n]"
proof -
  have c: "gr_comp s = Start_gateways (New cfgs)" and idle: "gr_callback s = None" "no_panic s"
    using start by (auto simp: gateways_start_def no_panic_def list_all_iff)
  note props = start_props [OF c]
  have "queues_are [] (gr_comp s)"
    unfolding queues_are_def list_all_iff
  proof
    fix gw assume "gw \<in> set (gateways (gr_comp s))"
    then have "gw_state gw < length cfgs"
      using props(3) by (metis atLeastLessThan_iff image_eqI set_map set_upt)
    then show "queue (gr_comp s) (gw_state gw) = []" by (simp add: queue_def props(4))
  qed
  from fill_channels [OF component_ok_start [OF c] props(5) this idle(2,1), of ns L] full
  obtain evs c1 where c1: "execution (gateways_step L) s evs (s\<lparr>gr_comp := c1\<rparr>)"
      "component_ok c1" "alive c1" "gateways c1 = gateways (gr_comp s)" "queues_are ns c1" "entered evs = ns"
    by auto
  obtain gw gws where gws: "gateways c1 = gw # gws"
    using c1(4) props(7) assms(2) by (metis length_0_conv neq_Nil_conv)
  let ?s1 = "s\<lparr>gr_comp := c1\<rparr>"
  let ?s2 = "?s1\<lparr>gr_callback := Some (n, gateways c1)\<rparr>"
  have "gateways_step L ?s1 (EnterCallback n) ?s2"
    using gateways_step.enter [of ?s1 L n] idle c1(3) by (simp add: enter_callback_def no_panic_def)
  with c1(1) have run: "execution (gateways_step L) s (evs @ [EnterCallback n]) ?s2" by (rule execution_snoc)
  show ?thesis
    by (rule exI [of _ "evs @ [EnterCallback n]"], rule exI [of _ ?s2], rule exI [of _ gw], rule exI [of _ gws])
      (use run c1(3,5,6) idle(2) gws in \<open>simp add: no_panic_def queues_are_def queue_def\<close>)
qed

lemma blocked_run:
  fixes ns :: "'x notification list"
  assumes start: "gateways_start cfgs s" and "cfgs \<noteq> []" and full: "length ns = channel_capacity"
  shows "\<exists>evs t gw gws. execution (gateways_step L) s evs t \<and> stopped_all t \<and> stuck t
     \<and> gr_callback t = Some (n, gw # gws) \<and> queue (gr_comp t) (gw_state gw) = ns
     \<and> entered evs = ns @ [n]"
proof -
  from full_run [OF assms, of L n] obtain evs u gw gws where
    u: "execution (gateways_step L) s evs u" "no_panic u" "gr_callback u = Some (n, gw # gws)"
      "queue (gr_comp u) (gw_state gw) = ns" "entered evs = ns @ [n]" by blast
  let ?s3 = "u\<lparr>gr_comp := fst (Stop (gr_comp u))\<rparr>"
  have run: "execution (gateways_step L) s (evs @ [StopAll]) ?s3"
    by (rule execution_snoc [OF u(1) gateways_step.stop_all [OF u(2)]])
  have "reach (gateways_start cfgs) (gateways_step L) ?s3"
    by (rule execution_reach [where start = "gateways_start cfgs", OF run start])
  then have inv: "system_inv cfgs ?s3" by (rule gws.reach_inv)
  obtain ks t where t: "execution (gateways_step L) ?s3 (map (\<lambda>k. Work k Dying) ks) t" "stopped_all t"
      "gr_callback t = Some (n, gw # gws)" "queue (gr_comp t) = queue (gr_comp ?s3)"
    using retire_all [OF inv, of L] u(2,3) by (auto simp: no_panic_def)
  have q: "queue (gr_comp t) (gw_state gw) = ns" using u(4) by (simp add: t(4) queue_def)
  with t(2,3) full have "stuck t" by (simp add: stuck_def stopped_all_def)
  moreover have "entered ((evs @ [StopAll]) @ map (\<lambda>k. Work k Dying) ks) = ns @ [n]" by (simp add: u(5))
  ultimately show ?thesis using execution_append [OF t(1) run] t(2,3) q by blast
qed

text \<open>
  \<^verbatim>\<open>Stop\<close> can leave the callback blocked for ever: whatever gateways are configured, there is
  a run in which the callback, called for a notification while it was alive, waits for room in a
  channel with 100 notifications, the component is stopped and all its goroutines return; from then
  on the callback makes no step in any continuation. The goroutine of the netlink component
  is the one that runs the callback, so it never sees that it should end, and the daemon, which stops
  the netlink component next, waits for it without end.
\<close>

theorem callback_blocked_after_stop:
  fixes ns :: "'x notification list"
  assumes "gateways_start cfgs s" and "cfgs \<noteq> []" and "length ns = channel_capacity"
  shows "\<exists>evs t gw gws. execution (gateways_step L) s evs t \<and> stopped_all t
     \<and> gr_callback t = Some (n, gw # gws) \<and> queue (gr_comp t) (gw_state gw) = ns
     \<and> (\<forall>evs' u. execution (gateways_step L) t evs' u \<longrightarrow> gr_callback u = Some (n, gw # gws))"
  using blocked_run [OF assms, of L n] stuck_forever by (metis (no_types, lifting))

text \<open>The example configuration with a goroutine for its gateway.\<close>

definition example_system :: "nat gateways_run" where
  "example_system = \<lparr>gr_comp = Start_gateways (New [example_config]),
     gr_workers = [(example_gateway 0\<lparr>gw_index := 1\<rparr>, Running)], gr_callback = None\<rparr>"

lemma example_system_start: "gateways_start [example_config] example_system"
  by (simp add: gateways_start_def example_system_def Start_gateways_def New_def newGateway_def
      Let_def example_gateway_def)

theorem callback_blocked_after_stop_witness:
  "\<exists>evs t. execution (gateways_step plain_lib) example_system evs t \<and> stopped_all t
     \<and> gr_callback t \<noteq> None"
proof -
  have "length (replicate 100 start_of_rib :: nat notification list) = channel_capacity"
    by (simp add: channel_capacity_def)
  from callback_blocked_after_stop [OF example_system_start _ this, of plain_lib end_of_rib]
  show ?thesis by auto
qed

theorem gateways_stop_returns_witness:
  "\<exists>ks t. execution (gateways_step plain_lib) (example_system\<lparr>gr_comp := fst (Stop (gr_comp example_system))\<rparr>)
     (map (\<lambda>k. Work k Dying) ks) t \<and> length ks = 1 \<and> stopped_all t"
proof -
  let ?s = "example_system\<lparr>gr_comp := fst (Stop (gr_comp example_system))\<rparr>"
  have panic: "no_panic example_system" "no_panic ?s" by (simp_all add: no_panic_def example_system_def)
  have reach: "reach (gateways_start [example_config]) (gateways_step plain_lib) ?s"
  proof (rule reach_step)
    show "reach (gateways_start [example_config]) (gateways_step plain_lib) example_system"
      by (rule reach_start) (rule example_system_start)
    show "gateways_step plain_lib example_system StopAll ?s"
      by (rule gateways_step.stop_all [OF panic(1)])
  qed
  from gateways_stop_returns [OF reach _ panic(2)] show ?thesis
    by (auto simp: active_def example_system_def)
qed

end
