(* ===== verification/Gateways_History.thy ===== *)
theory Gateways_History
  imports Gateways_Shutdown
begin

text \<open>
  What happened to the notifications the gateways component was given
  (\<^verbatim>\<open>src/gateways/root.go\<close>, \<^verbatim>\<open>gateway.go\<close>), read off the events of a run: every notification the
  callback was entered with is, for each gateway, handled, in its channel, or about to be pushed, in
  this order and once; and the state of a gateway is what its specification makes of the handled ones.
\<close>

section \<open>Histories\<close>

text \<open>What the goroutines of the gateways with the cell \<open>a\<close> handled; \<open>gws\<close> is the gateway of each goroutine.\<close>

definition handled_cell :: "gateway list \<Rightarrow> addr \<Rightarrow> 'x gateways_event list \<Rightarrow> 'x notification list" where
  "handled_cell gws a evs = concat (map (\<lambda>e. case e of
      Work k (Notified n) \<Rightarrow> if gw_state (gws ! k) = a then [n] else [] | _ \<Rightarrow> []) evs)"

definition in_flight :: "gateway \<Rightarrow> 'x gateways_run \<Rightarrow> 'x notification list" where
  "in_flight gw s = (case gr_callback s of None \<Rightarrow> []
     | Some (n, gws) \<Rightarrow> if gw \<in> set gws then [n] else [])"

abbreviation worker_gateways :: "'x gateways_run \<Rightarrow> gateway list" where
  "worker_gateways s \<equiv> map fst (gr_workers s)"

lemma handled_cell_simps [simp]:
  "handled_cell gws a [] = []" "handled_cell gws a (es @ fs) = handled_cell gws a es @ handled_cell gws a fs"
  "handled_cell gws a [EnterCallback n] = []" "handled_cell gws a [PushOne] = []"
  "handled_cell gws a [LeaveCallback] = []" "handled_cell gws a [StopAll] = []"
  "handled_cell gws a [Work k c] = (if gw_state (gws ! k) = a then handled [Select c] else [])"
  by (simp_all add: handled_cell_def handled_def split: select_case.split)

section \<open>The invariant\<close>

text \<open>The callback visits the gateways in their order: what is left is a suffix.\<close>

definition callback_suffix :: "'x gateways_run \<Rightarrow> bool" where
  "callback_suffix s \<longleftrightarrow> (case gr_callback s of None \<Rightarrow> True
     | Some (n, gws) \<Rightarrow> distinct (map gw_state gws) \<and> set gws \<subseteq> set (gateways (gr_comp s)))"

definition cell_history ::
    "'x netlink_lib \<Rightarrow> lrg_config \<Rightarrow> gateway list \<Rightarrow> 'x gateways_event list \<Rightarrow> 'x gateways_run \<Rightarrow> gateway \<Rightarrow> bool" where
  "cell_history L cfg gws evs s gw \<longleftrightarrow>
     knows L cfg (handled_cell gws (gw_state gw) evs) = core (abs_gateway (cell (gr_comp s) gw))
     \<and> (if alive (gr_comp s)
        then entered evs = handled_cell gws (gw_state gw) evs @ queue (gr_comp s) (gw_state gw) @ in_flight gw s
        else True)"

lemma queue_cell: "queue c (gw_state gw) = notification (cell c gw)"
  by (simp add: queue_def cell_def)

lemma cell_store:
  assumes "gw_state gw < length (state_cells c)"
  shows "cell (store_cell gw st c) g = (if gw_state g = gw_state gw then st else cell c g)"
  using assms by (simp add: cell_def)

lemma component_ok_eq:
  "component_ok c \<Longrightarrow> g \<in> set (gateways c) \<Longrightarrow> h \<in> set (gateways c) \<Longrightarrow> gw_state g = gw_state h \<longleftrightarrow> g = h"
  by (auto simp: component_ok_def distinct_map inj_on_def)

lemma map_fst_update: "ws ! k = (g, p) \<Longrightarrow> map fst (ws[k := (g, q)]) = map fst ws"
  by (metis fst_conv list_update_beyond list_update_id map_update not_less nth_map)

lemma step_frame:
  assumes "gateways_step L s ev t"
  shows "worker_gateways t = worker_gateways s" "gateways (gr_comp t) = gateways (gr_comp s)"
    "alive (gr_comp t) \<Longrightarrow> alive (gr_comp s)"
  using assms
  by (cases; auto simp: pushNotification_store map_fst_update split: if_splits)+

definition history_inv ::
    "'x netlink_lib \<Rightarrow> lrg_config list \<Rightarrow> 'x gateways_event list \<Rightarrow> 'x gateways_run \<Rightarrow> bool" where
  "history_inv L cfgs evs s \<longleftrightarrow> system_inv cfgs s \<and> callback_suffix s
     \<and> list_all (cell_history L (last cfgs) (worker_gateways s) evs s) (gateways (gr_comp s))"

lemma history_invD:
  assumes "history_inv L cfgs evs s"
  shows "system_inv cfgs s" "callback_suffix s" "component_ok (gr_comp s)"
    "gw \<in> set (gateways (gr_comp s)) \<Longrightarrow> cell_history L (last cfgs) (worker_gateways s) evs s gw"
  using assms by (auto simp: history_inv_def system_inv_def list_all_iff)

text \<open>What one step of a goroutine does to the cell of its gateway.\<close>

lemma work_cell:
  assumes ok: "gateway_ok cfg (cell c gw)"
    and step: "gateway_step L i cfg (view_of c (gw, ph)) (Select ev) v"
    and k: "knows L cfg ns = core (abs_gateway (cell c gw))"
  shows "knows L cfg (ns @ handled [Select ev]) = core (abs_gateway (gstate v))
    \<and> notification (cell c gw) = handled [Select ev] @ notification (gstate v)"
proof -
  have "outcome_of L i cfg (view_of c (gw, ph)) (outcome (view_of c (gw, ph)) ev) v"
    using step_outcome [OF _ step] ok by (auto simp: view_of_def)
  from outcome_history [OF _ this] ok k show ?thesis by (simp add: view_of_def)
qed

lemma history_push:
  assumes inv: "history_inv L cfgs evs s" and cb: "gr_callback s = Some (n, gw # gws)"
    and push: "pushNotification gw n (gr_comp s) = Some c" and g: "g \<in> set (gateways (gr_comp s))"
  shows "cell_history L (last cfgs) (worker_gateways s) (evs @ [PushOne])
    (s\<lparr>gr_comp := c, gr_callback := Some (n, gws)\<rparr>) g"
proof -
  have gw: "gw \<in> set (gateways (gr_comp s))" "gw \<notin> set gws"
    using history_invD(2) [OF inv] cb by (auto simp: callback_suffix_def)
  note eq = component_ok_eq [OF history_invD(3) [OF inv] g gw(1)]
  note room = system_inv_cell(1) [OF history_invD(1) [OF inv] gw(1)]
  show ?thesis
    using history_invD(4) [OF inv g] push gw(2) cb eq
    by (auto simp: cell_history_def pushNotification_store cell_store [OF room] queue_cell in_flight_def
        split: if_splits)
qed

lemma history_work:
  assumes inv: "history_inv L cfgs evs s" and k: "k < length (gr_workers s)" "gr_workers s ! k = (gw, ph)"
    and cfg: "config_of (gr_comp s) gw = Some cfg"
    and step: "gateway_step L (gw_index gw) cfg (view_of (gr_comp s) (gw, ph)) (Select ev) v"
    and g: "g \<in> set (gateways (gr_comp s))"
  shows "cell_history L (last cfgs) (worker_gateways s) (evs @ [Work k ev])
    (s\<lparr>gr_comp := store_cell gw (gstate v) (gr_comp s), gr_workers := (gr_workers s)[k := (gw, phase v)]\<rparr>) g"
proof -
  have gw: "gw \<in> set (gateways (gr_comp s))"
    using k history_invD(1) [OF inv] by (force simp: system_inv_def dest: nth_mem)
  note c = system_inv_cell [OF history_invD(1) [OF inv] gw]
  have cfg': "cfg = last cfgs" using cfg c(4) by simp
  have w: "worker_gateways s ! k = gw" using k by simp
  note here = history_invD(4) [OF inv g]
  show ?thesis
  proof (cases "g = gw")
    case True
    with here have "knows L (last cfgs) (handled_cell (worker_gateways s) (gw_state gw) evs)
        = core (abs_gateway (cell (gr_comp s) gw))"
      by (simp add: cell_history_def)
    from work_cell [OF c(2) step [unfolded cfg'] this]
    have "knows L (last cfgs) (handled_cell (worker_gateways s) (gw_state gw) evs @ handled [Select ev])
        = core (abs_gateway (gstate v))"
      and "queue (gr_comp s) (gw_state gw) = handled [Select ev] @ notification (gstate v)"
      by (simp_all add: queue_cell)
    with here True w show ?thesis
      by (simp add: cell_history_def cell_store [OF c(1)] queue_cell in_flight_def)
  next
    case False
    with component_ok_eq [OF history_invD(3) [OF inv] g gw] here w show ?thesis
      by (simp add: cell_history_def cell_store [OF c(1)] queue_cell in_flight_def)
  qed
qed

lemma history_step:
  assumes inv: "history_inv L cfgs evs s" and step: "gateways_step L s ev t"
  shows "history_inv L cfgs (evs @ [ev]) t"
proof -
  have sys: "system_inv cfgs t" by (rule gateways_step_inv [OF history_invD(1) [OF inv] step])
  note frame = step_frame(1,2) [OF step]
  have "callback_suffix t"
    using step history_invD(2,3) [OF inv] frame(2)
    by cases (auto simp: callback_suffix_def enter_callback_def component_ok_def split: option.splits)
  moreover have "cell_history L (last cfgs) (worker_gateways s) (evs @ [ev]) t g"
    if g: "g \<in> set (gateways (gr_comp s))" for g
    using step
  proof cases
    case (push_one n gw gws c)
    with history_push [OF inv _ _ g] show ?thesis by simp
  next
    case (work k gw ph c cfg v)
    with history_work [OF inv _ _ _ _ g] show ?thesis by simp
  qed (use history_invD(4) [OF inv g] g in
      \<open>auto simp: cell_history_def in_flight_def enter_callback_def queue_def cell_def\<close>)
  ultimately show ?thesis
    using sys by (simp add: history_inv_def frame list_all_iff)
qed

lemma history_start:
  assumes "gateways_start cfgs s"
  shows "history_inv L cfgs [] s"
proof -
  have c: "gr_comp s = Start_gateways (New cfgs)" "gr_callback s = None"
    using assms by (simp_all add: gateways_start_def)
  have "cell (gr_comp s) gw = new_gateway_state" if "gw \<in> set (gateways (gr_comp s))" for gw
    using that start_props(4) [OF c(1)] gateways_start_inv [OF assms]
    by (auto simp: cell_def system_inv_def component_ok_def list_all_iff)
  then show ?thesis
    using gateways_start_inv [OF assms] c(2)
    by (auto simp: history_inv_def callback_suffix_def cell_history_def list_all_iff knows_def queue_cell
        in_flight_def)
qed

lemma history_execution:
  assumes "execution (gateways_step L) s evs t" and "gateways_start cfgs s"
  shows "history_inv L cfgs evs t \<and> worker_gateways t = worker_gateways s"
  using assms
proof (induction rule: execution.induct)
  case (execution_nil s)
  then show ?case by (simp add: history_start)
next
  case (execution_snoc s evs t e u)
  then show ?case using history_step step_frame(1) by metis
qed

section \<open>Draining the channels\<close>

text \<open>Every gateway has a goroutine that runs; nothing is left to handle.\<close>

definition attended :: "'x gateways_run \<Rightarrow> bool" where
  "attended s \<longleftrightarrow> list_all (\<lambda>gw. (gw, Running) \<in> set (gr_workers s)) (gateways (gr_comp s))"

definition drained :: "'x gateways_run \<Rightarrow> bool" where
  "drained s \<longleftrightarrow> gr_callback s = None \<and> list_all (\<lambda>gw. queue (gr_comp s) (gw_state gw) = []) (gateways (gr_comp s))"

text \<open>Going on with the callback and handling notifications, and what these steps make smaller.\<close>

definition serving :: "'x gateways_event \<Rightarrow> bool" where
  "serving e \<longleftrightarrow> e = PushOne \<or> e = LeaveCallback \<or> (\<exists>k n. e = Work k (Notified n))"

definition callback_size :: "'x gateways_run \<Rightarrow> nat" where
  "callback_size s = (case gr_callback s of None \<Rightarrow> 0 | Some (n, gws) \<Rightarrow> Suc (length gws))"

definition queued :: "'x gateways_run \<Rightarrow> nat" where
  "queued s = (\<Sum>gw \<in> set (gateways (gr_comp s)). length (queue (gr_comp s) (gw_state gw)))"

abbreviation healthy :: "'x gateways_run \<Rightarrow> bool" where
  "healthy s \<equiv> alive (gr_comp s) \<and> no_panic s \<and> attended s"

lemma handle_step:
  assumes inv: "system_inv cfgs s" and gw: "gw \<in> set (gateways (gr_comp s))" and ok: "healthy s"
    and q: "queue (gr_comp s) (gw_state gw) = n # ns"
  shows "\<exists>k st. gateways_step L s (Work k (Notified n)) (s\<lparr>gr_comp := store_cell gw st (gr_comp s)\<rparr>)
    \<and> notification st = ns"
proof -
  note c = system_inv_cell [OF inv gw]
  have "(gw, Running) \<in> set (gr_workers s)" using ok gw by (simp add: attended_def list_all_iff)
  then obtain k where k: "k < length (gr_workers s)" "gr_workers s ! k = (gw, Running)"
    by (auto simp: in_set_conv_nth)
  let ?st = "(cell (gr_comp s) gw)\<lparr>notification := ns\<rparr>"
  let ?v = "view_of (gr_comp s) (gw, Running)"
  have "gateway_ok (last cfgs) ?st" using c(2) by simp
  from processNotification_implements [OF this, of L "gw_index gw" n] obtain st es where
    run: "processNotification L (gw_index gw) (last cfgs) ?st n = Inr (st, es)" and st: "notification st = ns"
    by (auto simp: go_ok_def implements_def)
  have "gateway_step L (gw_index gw) (last cfgs) ?v (Select (Notified n)) (?v\<lparr>gstate := st, trace := trace ?v @ es\<rparr>)"
    using q by (intro gateway_step.continue [where st = ?st] run_Notified_eq [OF run])
      (simp_all add: view_of_def ready_Notified queue_cell)
  from gateways_step.work [OF _ k _ c(4) this] ok
  have "gateways_step L s (Work k (Notified n)) (s\<lparr>gr_comp := store_cell gw st (gr_comp s),
      gr_workers := (gr_workers s)[k := (gw, Running)]\<rparr>)"
    by (simp add: may_take_def view_of_def)
  moreover have "(gr_workers s)[k := (gw, Running)] = gr_workers s" using k(2) by (metis list_update_id)
  ultimately show ?thesis using st by (intro exI [of _ k] exI [of _ st]) simp
qed

lemma queue_store:
  "gw_state gw < length (state_cells c) \<Longrightarrow>
     queue (store_cell gw st c) a = (if a = gw_state gw then notification st else queue c a)"
  by (simp add: queue_def)

lemma serve_step:
  assumes inv: "history_inv L cfgs evs s" and ok: "healthy s" and "\<not> drained s"
  shows "\<exists>e t. gateways_step L s e t \<and> serving e \<and> healthy t \<and> (t, s) \<in> measures [callback_size, queued]"
proof (cases "\<exists>gw \<in> set (gateways (gr_comp s)). queue (gr_comp s) (gw_state gw) \<noteq> []")
  case True
  then obtain gw n ns where gw: "gw \<in> set (gateways (gr_comp s))" and q: "queue (gr_comp s) (gw_state gw) = n # ns"
    by (auto simp: neq_Nil_conv)
  note sys = history_invD(1) [OF inv]
  from handle_step [OF sys gw ok q] obtain k st where
    step: "gateways_step L s (Work k (Notified n)) (s\<lparr>gr_comp := store_cell gw st (gr_comp s)\<rparr>)"
    and st: "notification st = ns" by blast
  let ?t = "s\<lparr>gr_comp := store_cell gw st (gr_comp s)\<rparr>"
  have less: "length (queue (gr_comp ?t) (gw_state g)) \<le> length (queue (gr_comp s) (gw_state g))"
    "length (queue (gr_comp ?t) (gw_state gw)) < length (queue (gr_comp s) (gw_state gw))" for g
    using q st by (simp_all add: queue_store [OF system_inv_cell(1) [OF sys gw]])
  have "(\<Sum>g \<in> set (gateways (gr_comp s)). length (queue (gr_comp ?t) (gw_state g)))
      < (\<Sum>g \<in> set (gateways (gr_comp s)). length (queue (gr_comp s) (gw_state g)))"
    using less gw by (intro sum_strict_mono_ex1) auto
  then have "queued ?t < queued s" by (simp add: queued_def)
  then have "(?t, s) \<in> measures [callback_size, queued]" by (simp add: callback_size_def)
  with step ok show ?thesis
    by (intro exI [of _ "Work k (Notified n)"] exI [of _ ?t]) (simp add: serving_def no_panic_def attended_def)
next
  case False
  with assms(3) obtain n gws where cb: "gr_callback s = Some (n, gws)"
    by (auto simp: drained_def list_all_iff)
  show ?thesis
  proof (cases gws)
    case Nil
    with gateways_step.leave [of s n L] cb ok show ?thesis
      by (intro exI [of _ LeaveCallback] exI [of _ "s\<lparr>gr_callback := None\<rparr>"])
         (simp add: serving_def no_panic_def attended_def callback_size_def)
  next
    case (Cons gw rest)
    then have "gw \<in> set (gateways (gr_comp s))"
      using history_invD(2) [OF inv] cb by (simp add: callback_suffix_def)
    with False have "notification (cell (gr_comp s) gw) = []" by (simp add: queue_cell)
    then obtain st where "pushNotification gw n (gr_comp s) = Some (store_cell gw st (gr_comp s))"
      by (simp add: pushNotification_store channel_capacity_def)
    from gateways_step.push_one [where s = s and L = L and gws = rest, OF _ _ this] cb Cons ok show ?thesis
      by (intro exI [of _ PushOne] exI [of _ "s\<lparr>gr_comp := store_cell gw st (gr_comp s), gr_callback := Some (n, rest)\<rparr>"])
         (simp add: serving_def no_panic_def attended_def callback_size_def)
  qed
qed

lemma gateways_drain:
  assumes "history_inv L cfgs evs s" and "healthy s"
  shows "\<exists>fs t. execution (gateways_step L) s fs t \<and> list_all serving fs \<and> healthy t \<and> drained t"
  using assms
proof (induction s arbitrary: evs rule: wf_induct_rule [OF wf_measures [of "[callback_size, queued]"]])
  case (1 s)
  show ?case
  proof (cases "drained s")
    case True
    with 1 show ?thesis by (intro exI [of _ "[]"] exI [of _ s]) (simp add: execution_nil)
  next
    case False
    from serve_step [OF 1(2,3) False] obtain e t where
      step: "gateways_step L s e t" "serving e" "healthy t" "(t, s) \<in> measures [callback_size, queued]"
      by blast
    from 1(1) [OF step(4) history_step [OF 1(2) step(1)] step(3)] obtain fs u where
      "execution (gateways_step L) t fs u" "list_all serving fs" "healthy u" "drained u" by blast
    with execution_cons [where step = "gateways_step L", OF step(1)] step(2) show ?thesis
      by (intro exI [of _ "e # fs"] exI [of _ u]) simp
  qed
qed

end
