(* ===== verification/Netlink_Observer.thy ===== *)
theory Netlink_Observer
  imports Kernel_Route
begin

text \<open>
  The observer of the netlink component (\<^verbatim>\<open>src/netlink/observer.go\<close>): one replaceable callback,
  and a channel that is closed by the first subscription and only by it. The lock makes
  \<^verbatim>\<open>Subscribe\<close> and \<^verbatim>\<open>notify\<close> atomic with respect to each other.
\<close>

text \<open>
  The \<^verbatim>\<open>subscribed\<close> channel never carries a value: it is open, closed, or set to \<^verbatim>\<open>nil\<close> by the
  component's loop. A callback is named by a number; \<open>None\<close> is the \<^verbatim>\<open>nil\<close> function.
\<close>

datatype signal = Open | Closed | NilChan

type_synonym callback_name = nat

record observer =
  callback :: "callback_name option"
  subscribed :: signal
  once_done :: bool

definition newObserver :: observer where
  "newObserver = \<lparr>callback = None, subscribed = Open, once_done = False\<rparr>"

definition close_signal :: "signal \<Rightarrow> panic + signal" where
  "close_signal c = (case c of Open \<Rightarrow> Inr Closed
     | Closed \<Rightarrow> Inl CloseOfClosedChannel | NilChan \<Rightarrow> Inl NilDereference)"

definition Subscribe :: "callback_name option \<Rightarrow> observer \<Rightarrow> panic + observer" where
  "Subscribe cb obs =
     (let obs' = obs\<lparr>callback := cb\<rparr> in
      if once_done obs' then Inr obs'
      else case close_signal (subscribed obs') of
          Inl p \<Rightarrow> Inl p
        | Inr c \<Rightarrow> Inr (obs'\<lparr>once_done := True, subscribed := c\<rparr>))"

text \<open>\<^verbatim>\<open>notify\<close> calls the callback in place, if any; the value is the list of calls made.\<close>

definition notify :: "observer \<Rightarrow> 'x notification \<Rightarrow> (callback_name \<times> 'x notification) list" where
  "notify obs n = (case callback obs of None \<Rightarrow> [] | Some cb \<Rightarrow> [(cb, n)])"

fun subscribe_all :: "callback_name option list \<Rightarrow> observer \<Rightarrow> panic + observer" where
  "subscribe_all [] obs = Inr obs"
| "subscribe_all (cb # cbs) obs = (case Subscribe cb obs of
     Inl p \<Rightarrow> Inl p | Inr obs' \<Rightarrow> subscribe_all cbs obs')"

text \<open>The loop sets the channel to \<^verbatim>\<open>nil\<close> only after it was closed.\<close>

definition observer_ok :: "observer \<Rightarrow> bool" where
  "observer_ok obs \<longleftrightarrow> (once_done obs \<longleftrightarrow> subscribed obs \<noteq> Open)"

lemma observer_ok_new [simp]: "observer_ok newObserver"
  by (simp add: observer_ok_def newObserver_def)

lemma Subscribe_ok:
  assumes "observer_ok obs"
  shows "Subscribe cb obs = Inr \<lparr>callback = cb, 
           subscribed = (if subscribed obs = Open then Closed else subscribed obs), once_done = True\<rparr>"
  using assms
  by (cases obs) (auto simp: Subscribe_def observer_ok_def close_signal_def split: signal.splits)

lemma subscribe_all_ok:
  assumes "observer_ok obs" and "cbs \<noteq> []"
  shows "subscribe_all cbs obs = Inr \<lparr>callback = last cbs, 
           subscribed = (if subscribed obs = Open then Closed else subscribed obs), once_done = True\<rparr>"
  using assms
proof (induction cbs arbitrary: obs)
  case Nil
  then show ?case by simp
next
  case (Cons cb cbs)
  show ?case
  proof (cases "cbs = []")
    case True
    with Subscribe_ok [OF Cons.prems(1)] show ?thesis by simp
  next
    case False
    moreover have "observer_ok \<lparr>callback = cb, 
        subscribed = (if subscribed obs = Open then Closed else subscribed obs), once_done = True\<rparr>"
      by (simp add: observer_ok_def)
    ultimately show ?thesis
      using Cons.IH Subscribe_ok [OF Cons.prems(1)] by simp
  qed
qed

text \<open>
  Any number of subscriptions closes the channel that starts the component exactly once
  (a second close would panic), and from then on every notification goes to the last
  subscriber, and to it only.
\<close>

theorem subscriptions_start_once:
  assumes "cbs \<noteq> []"
  shows "\<exists>obs. subscribe_all (map Some cbs) newObserver = Inr obs \<and> subscribed obs = Closed
     \<and> notify obs n = [(last cbs, n)]"
  using assms subscribe_all_ok [OF observer_ok_new, of "map Some cbs"]
  by (simp add: newObserver_def notify_def last_map)

theorem subscriptions_start_once_witness:
  "\<exists>obs. subscribe_all [Some 3, Some 5] newObserver = Inr obs
     \<and> notify obs end_of_rib = [(5, end_of_rib)]"
  using subscriptions_start_once [of "[3, 5]" end_of_rib] by auto

end
