(* ===== verification/Netlink_Config.thy ===== *)
theory Netlink_Config
  imports LRG_Prelude
begin

text \<open>
  The configuration of the netlink component (\<^verbatim>\<open>src/netlink/config.go\<close>) and its decoding. The YAML
  decoder is a parameter: a function that overwrites what the document gives in the value it is
  handed, or fails.
\<close>

record netlink_config =
  SocketSize :: go_uint
  ChannelSize :: go_uint
  BackoffInterval :: duration
  BackoffMaxInterval :: duration
  CureInterval :: duration

definition DefaultConfiguration :: netlink_config where
  "DefaultConfiguration = \<lparr>SocketSize = 0, ChannelSize = 100,
     BackoffInterval = 10 * millisecond, BackoffMaxInterval = 10 * second,
     CureInterval = 30 * second\<rparr>"

text \<open>
  \<^verbatim>\<open>UnmarshalYAML\<close>: the previous value of the target is not looked at, and it is kept when the
  decoder fails (the result is then the wrapped error).
\<close>

definition unmarshal_netlink ::
    "(netlink_config \<Rightarrow> 'e + netlink_config) \<Rightarrow> (string \<times> 'e) + netlink_config" where
  "unmarshal_netlink decode = (case decode DefaultConfiguration of
      Inl e \<Rightarrow> Inl (''unable to decode netlink component configuration'', e)
    | Inr raw \<Rightarrow> Inr raw)"

end
