(* ===== verification/Netlink_FSM.thy ===== *)
theory Netlink_FSM
  imports Netlink_Observer Netlink_Config
begin

text \<open>
  The netlink component (\<^verbatim>\<open>src/netlink/root.go\<close>): the channels it allocates, the goroutines that
  inject the initial routes, the transition function and the cases of the \<^verbatim>\<open>select\<close> in \<^verbatim>\<open>run\<close>.
  What the kernel answers to a subscription and to a request for the list of routes is an
  argument. The calls to collaborators are recorded as effects, in order.
\<close>

section \<open>Errors, answers of the kernel, effects\<close>

text \<open>An error is a \<^verbatim>\<open>syscall.Errno\<close>, another error, or a wrapped one.\<close>

datatype nl_error = Errno nat | OtherError string | Wrapped nl_error string

definition ENOBUFS :: nat where
  "ENOBUFS = 105"

definition FAMILY_V4 :: nat where
  "FAMILY_V4 = 2"

definition FAMILY_V6 :: nat where
  "FAMILY_V6 = 10"

lemma family_distinct [simp]: "FAMILY_V4 \<noteq> FAMILY_V6" "FAMILY_V6 \<noteq> FAMILY_V4"
  by (simp_all add: FAMILY_V4_def FAMILY_V6_def)

record 'x kernel =
  subscribe_answer :: "nl_error option"
  list_answer :: "nat \<Rightarrow> nl_error + 'x route list"
  replace_answer :: "'x route \<Rightarrow> nl_error option"

datatype 'x nl_effect =
    Notify "callback_name option" "'x notification"
  | Count string
  | Report log_level string
  | ReportError nl_error string
  | SubscribeCall nat "nl_error option"
  | ListCall nat "nl_error + 'x route list"
  | TickerStart nat backoff
  | TickerHalt nat
  | AfterCall duration

text \<open>\<^verbatim>\<open>AddRoute\<close> of \<^verbatim>\<open>src/netlink/add.go\<close>: one attempt, the error is wrapped.\<close>

definition netlink_AddRoute :: "'x kernel \<Rightarrow> 'x route \<Rightarrow> nl_error option" where
  "netlink_AddRoute K r = (case replace_answer K r of
      None \<Rightarrow> None | Some e \<Rightarrow> Some (Wrapped e ''cannot install route''))"

section \<open>State\<close>

datatype fsm_state = idle | ipv4Routes | ipv6Routes | updateRoutes

text \<open>
  A channel is its content, oldest first, and whether it is closed. Channels are named by their
  index in the list of all channels the component ever made; \<open>None\<close> is the \<^verbatim>\<open>nil\<close> channel.
\<close>

record 'x chan =
  buf :: "'x route_update list"
  closed :: bool

text \<open>
  An injection goroutine. The operand of a send is evaluated when its \<^verbatim>\<open>select\<close> is entered: it is
  at the head of its loop, or blocked in the \<^verbatim>\<open>select\<close> on the channel it read from \<^verbatim>\<open>c.updates\<close>.
\<close>

datatype inj_phase = Head | Sending "nat option"

record 'x injector =
  inj_family :: nat
  todo :: "'x route list"
  at :: inj_phase

text \<open>
  \<^verbatim>\<open>realComponent\<close> with the local variables of \<^verbatim>\<open>run\<close> and the goroutines it started. A ticker is
  named by a number, and so is its channel. \<open>subscriptions\<close> are the channels in the hands of the
  netlink library, each with a flag that tells that the error callback was called for it.
\<close>

record 'x netlink =
  conf :: netlink_config
  updates :: "nat option"
  liveUpdates :: "nat option"
  fsm :: fsm_state
  subscribeError :: "nl_error option"
  obs :: observer
  transitionBackoff :: "backoff option"
  transitionTicker :: "nat option"
  transitionTick :: "nat option"
  cureTick :: bool
  tickers :: nat
  channels :: "'x chan list"
  injectors :: "'x injector list"
  subscriptions :: "(nat \<times> bool) list"
  dying :: bool

definition netlink_New :: "netlink_config \<Rightarrow> 'x netlink" where
  "netlink_New cfg = \<lparr>conf = cfg, updates = None, liveUpdates = None, fsm = idle,
     subscribeError = None, obs = newObserver, transitionBackoff = None,
     transitionTicker = None, transitionTick = None, cureTick = False, tickers = 0,
     channels = [], injectors = [], subscriptions = [], dying = False\<rparr>"

text \<open>\<^verbatim>\<open>Stop\<close> kills the tomb; the goroutines see it dying.\<close>

definition netlink_Stop :: "'x netlink \<Rightarrow> 'x netlink" where
  "netlink_Stop c = c\<lparr>dying := True\<rparr>"

declare netlink_Stop_def [simp]

definition capacity :: "'x netlink \<Rightarrow> nat" where
  "capacity c = unat (ChannelSize (conf c))"

text \<open>\<^verbatim>\<open>make(chan netlink.RouteUpdate, c.config.ChannelSize)\<close>: the new channel and its name.\<close>

definition make_chan :: "'x netlink \<Rightarrow> nat \<times> 'x netlink" where
  "make_chan c = (length (channels c),
     c\<lparr>channels := channels c @ [\<lparr>buf = [], closed = False\<rparr>]\<rparr>)"

definition notify_all :: "'x notification \<Rightarrow> 'x netlink \<Rightarrow> ('x nl_effect, unit) go" where
  "notify_all n c = go_emit [Notify (callback (obs c)) n] ()"

section \<open>Injection of the routes of a family\<close>

definition new_update :: "'x route \<Rightarrow> 'x route_update" where
  "new_update r = \<lparr>ru_Type = RTM_NEWROUTE, ru_Route = r\<rparr>"

text \<open>
  \<^verbatim>\<open>injectRoutes\<close>: the value is the error it returns and the state; the goroutine it starts
  takes its steps below.
\<close>

definition injectRoutes ::
    "'x kernel \<Rightarrow> nat \<Rightarrow> 'x netlink \<Rightarrow> ('x nl_effect, nl_error option \<times> 'x netlink) go" where
  "injectRoutes K family c =
     go_bind (go_emit [ListCall family (list_answer K family)] ()) (\<lambda>_.
       case list_answer K family of
         Inl e \<Rightarrow> go_return (Some e, c)
       | Inr routes \<Rightarrow>
           if family = FAMILY_V4 \<or> family = FAMILY_V6
           then go_return (None,
             c\<lparr>injectors := injectors c @ [\<lparr>inj_family = family, todo = routes, at = Head\<rparr>]\<rparr>)
           else go_panic UnknownFamily)"

definition family_metric :: "nat \<Rightarrow> string" where
  "family_metric family =
     (if family = FAMILY_V4 then ''route.initial.ipv4'' else ''route.initial.ipv6'')"

text \<open>Putting a value into a channel; the send blocks (\<open>None\<close>) while there is no room.\<close>

definition chan_put :: "nat \<Rightarrow> 'x route_update \<Rightarrow> 'x netlink \<Rightarrow> (panic + 'x netlink) option" where
  "chan_put a u c =
     (if closed (channels c ! a) then Some (Inl SendOnClosedChannel)
      else if length (buf (channels c ! a)) < capacity c
      then Some (Inr (c\<lparr>channels := (channels c)[a := (channels c ! a)
              \<lparr>buf := buf (channels c ! a) @ [u]\<rparr>]\<rparr>))
      else None)"

definition chan_close :: "nat option \<Rightarrow> 'x netlink \<Rightarrow> panic + 'x netlink" where
  "chan_close ch c = (case ch of
      None \<Rightarrow> Inl NilDereference
    | Some a \<Rightarrow>
        if closed (channels c ! a) then Inl CloseOfClosedChannel
        else Inr (c\<lparr>channels := (channels c)[a := (channels c ! a)\<lparr>closed := True\<rparr>]\<rparr>))"

definition drop_injector :: "nat \<Rightarrow> 'x netlink \<Rightarrow> 'x netlink" where
  "drop_injector i c = c\<lparr>injectors := take i (injectors c) @ drop (Suc i) (injectors c)\<rparr>"

text \<open>The loop head: the next send is prepared on the current \<^verbatim>\<open>c.updates\<close>.\<close>

definition inject_select :: "nat \<Rightarrow> 'x netlink \<Rightarrow> 'x netlink option" where
  "inject_select i c =
     (let j = injectors c ! i in
      if at j = Head \<and> todo j \<noteq> []
      then Some (c\<lparr>injectors := (injectors c)[i := j\<lparr>at := Sending (updates c)\<rparr>]\<rparr>)
      else None)"

definition inject_advance :: "nat \<Rightarrow> 'x netlink \<Rightarrow> 'x netlink" where
  "inject_advance i c =
     (let j = injectors c ! i in
      c\<lparr>injectors := (injectors c)[i := j\<lparr>todo := tl (todo j), at := Head\<rparr>]\<rparr>)"

text \<open>The send case; \<open>None\<close> when it is blocked.\<close>

definition inject_send :: "nat \<Rightarrow> 'x netlink \<Rightarrow> ('x nl_effect, 'x netlink) go option" where
  "inject_send i c =
     (case (at (injectors c ! i), todo (injectors c ! i)) of
        (Sending (Some a), r # _) \<Rightarrow>
          (case chan_put a (new_update r) c of
             None \<Rightarrow> None
           | Some (Inl p) \<Rightarrow> Some (go_panic p)
           | Some (Inr c') \<Rightarrow>
               Some (go_emit [Count (family_metric (inj_family (injectors c ! i)))]
                      (inject_advance i c')))
      | _ \<Rightarrow> None)"

text \<open>The end of the goroutine: it closes the current \<^verbatim>\<open>c.updates\<close>.\<close>

definition inject_close :: "nat \<Rightarrow> 'x netlink \<Rightarrow> ('x nl_effect, 'x netlink) go option" where
  "inject_close i c =
     (if at (injectors c ! i) = Head \<and> todo (injectors c ! i) = []
      then Some (case chan_close (updates c) c of
          Inl p \<Rightarrow> go_panic p
        | Inr c' \<Rightarrow> go_return (drop_injector i c'))
      else None)"

text \<open>The other case of its \<^verbatim>\<open>select\<close>: the component is stopping.\<close>

definition inject_dying :: "nat \<Rightarrow> 'x netlink \<Rightarrow> 'x netlink option" where
  "inject_dying i c =
     (if dying c \<and> at (injectors c ! i) \<noteq> Head then Some (drop_injector i c) else None)"

section \<open>Transitions\<close>

definition transition_start ::
    "'x kernel \<Rightarrow> 'x netlink \<Rightarrow> ('x nl_effect, nl_error option \<times> 'x netlink) go" where
  "transition_start K c =
     (let (live, c) = make_chan c;
          c = c\<lparr>liveUpdates := Some live, subscribeError := None\<rparr> in
      go_bind (go_emit [SubscribeCall live (subscribe_answer K)] ()) (\<lambda>_.
      case subscribe_answer K of
        Some e \<Rightarrow> go_return (Some (Wrapped e ''cannot subscribe to route changes''), c)
      | None \<Rightarrow>
          let c = c\<lparr>subscriptions := subscriptions c @ [(live, False)]\<rparr>;
              (upd, c) = make_chan c;
              c = c\<lparr>updates := Some upd\<rparr> in
          go_bind (notify_all start_of_rib c) (\<lambda>_.
          go_bind (injectRoutes K FAMILY_V4 c) (\<lambda>(err, c).
          case err of
            Some e \<Rightarrow> go_return (Some (Wrapped e ''cannot transition from idle state''), c)
          | None \<Rightarrow> go_return (None, c\<lparr>fsm := ipv4Routes\<rparr>)))))"

definition transition_ipv4 ::
    "'x kernel \<Rightarrow> 'x netlink \<Rightarrow> ('x nl_effect, nl_error option \<times> 'x netlink) go" where
  "transition_ipv4 K c =
     (let (upd, c) = make_chan c;
          c = c\<lparr>updates := Some upd\<rparr> in
      go_bind (injectRoutes K FAMILY_V6 c) (\<lambda>(err, c).
      case err of
        Some e \<Rightarrow> go_return (Some (Wrapped e ''cannot transition from IPv4 route state''), c)
      | None \<Rightarrow> go_return (None, c\<lparr>fsm := ipv6Routes\<rparr>)))"

definition transition_ipv6 ::
    "'x netlink \<Rightarrow> ('x nl_effect, nl_error option \<times> 'x netlink) go" where
  "transition_ipv6 c =
     go_bind (notify_all end_of_rib c) (\<lambda>_.
       go_return (None, c\<lparr>updates := liveUpdates c, fsm := updateRoutes\<rparr>))"

definition transition ::
    "'x kernel \<Rightarrow> 'x netlink \<Rightarrow> ('x nl_effect, nl_error option \<times> 'x netlink) go" where
  "transition K c = (case fsm c of
      idle \<Rightarrow> transition_start K c
    | updateRoutes \<Rightarrow> transition_start K c
    | ipv4Routes \<Rightarrow> transition_ipv4 K c
    | ipv6Routes \<Rightarrow> transition_ipv6 c)"

section \<open>The cases of the select\<close>

datatype 'x nl_result = Next "'x netlink" | Exit "'x netlink"

definition halt_ticker :: "'x netlink \<Rightarrow> ('x nl_effect, unit) go" where
  "halt_ticker c = (case transitionTicker c of
      None \<Rightarrow> go_panic NilDereference | Some t \<Rightarrow> go_emit [TickerHalt t] ())"

definition case_dying :: "'x netlink \<Rightarrow> ('x nl_effect, 'x nl_result) go" where
  "case_dying c =
     go_bind (if transitionTick c \<noteq> None then halt_ticker c else go_return ())
       (\<lambda>_. go_return (Exit c))"

definition cannot_change_state :: "nl_error \<Rightarrow> 'x nl_effect" where
  "cannot_change_state e = ReportError e ''cannot change state''"

definition case_transition_tick :: "'x kernel \<Rightarrow> 'x netlink \<Rightarrow> ('x nl_effect, 'x nl_result) go" where
  "case_transition_tick K c =
     go_bind (transition K c) (\<lambda>(err, c).
     case err of
       Some e \<Rightarrow> go_emit [cannot_change_state e] (Next c)
     | None \<Rightarrow>
         go_bind (halt_ticker c) (\<lambda>_. go_return (Next (c\<lparr>transitionTick := None\<rparr>))))"

definition case_cure_tick :: "'x netlink \<Rightarrow> ('x nl_effect, 'x nl_result) go" where
  "case_cure_tick c = go_return (Next (c\<lparr>cureTick := False\<rparr>))"

definition case_subscribed :: "'x kernel \<Rightarrow> 'x netlink \<Rightarrow> ('x nl_effect, 'x nl_result) go" where
  "case_subscribed K c =
     go_bind (transition K c) (\<lambda>(err, c).
     case err of
       Some e \<Rightarrow> go_emit [cannot_change_state e] (Next c)
     | None \<Rightarrow> go_return (Next (c\<lparr>obs := (obs c)\<lparr>subscribed := NilChan\<rparr>\<rparr>)))"

text \<open>
  \<^verbatim>\<open>Error(err, "")\<close> of \<^verbatim>\<open>src/reporter/logging.go\<close> calls \<^verbatim>\<open>err.Error()\<close>, which panics on a \<^verbatim>\<open>nil\<close>
  error; \<^verbatim>\<open>errors.Wrapf\<close> of a \<^verbatim>\<open>nil\<close> error is \<^verbatim>\<open>nil\<close>.
\<close>

definition report_fatal :: "nl_error option \<Rightarrow> ('x nl_effect, unit) go" where
  "report_fatal err = (case err of
      None \<Rightarrow> go_panic NilDereference
    | Some e \<Rightarrow>
        go_emit [ReportError (Wrapped e ''fatal error while receiving route updates'') ''''] ())"

definition report_lost_updates :: "'x netlink \<Rightarrow> ('x nl_effect, unit) go" where
  "report_lost_updates c = (case subscribeError c of
      Some (Errno e) \<Rightarrow>
        if e = ENOBUFS
        then go_emit [Report Info ''netlink receive buffer too small'', Count ''error.overflow''] ()
        else go_bind (report_fatal (subscribeError c)) (\<lambda>_. go_emit [Count ''error.unknown1''] ())
    | err \<Rightarrow> go_bind (report_fatal err) (\<lambda>_. go_emit [Count ''error.unknown2''] ()))"

definition transition_backoff :: "netlink_config \<Rightarrow> backoff" where
  "transition_backoff cfg = \<lparr>InitialInterval = BackoffInterval cfg,
     MaxInterval = BackoffMaxInterval cfg, MaxElapsedTime = 0, Multiplier = 2\<rparr>"

definition arm_transition :: "'x netlink \<Rightarrow> ('x nl_effect, 'x netlink) go" where
  "arm_transition c =
     (if transitionTick c = None
      then let b = transition_backoff (conf c); t = tickers c in
        go_emit [TickerStart t b]
          (c\<lparr>tickers := Suc t, transitionBackoff := Some b, transitionTicker := Some t,
             transitionTick := Some t\<rparr>)
      else go_return c)"

definition arm_cure :: "'x netlink \<Rightarrow> ('x nl_effect, 'x netlink) go" where
  "arm_cure c =
     (if \<not> cureTick c then go_emit [AfterCall (CureInterval (conf c))] (c\<lparr>cureTick := True\<rparr>)
      else go_return c)"

text \<open>The tail of the case: the debug message reads the backoff, which must not be \<^verbatim>\<open>nil\<close>.\<close>

definition sleep_before_transition :: "'x netlink \<Rightarrow> ('x nl_effect, 'x nl_result) go" where
  "sleep_before_transition c =
     go_bind (arm_transition c) (\<lambda>c.
     go_bind (arm_cure c) (\<lambda>c.
     if transitionBackoff c = None then go_panic NilDereference else go_return (Next c)))"

text \<open>A received update whose table is zero means that the channel was closed.\<close>

definition case_closed :: "'x kernel \<Rightarrow> 'x netlink \<Rightarrow> ('x nl_effect, 'x nl_result) go" where
  "case_closed K c =
     (let c = c\<lparr>updates := None\<rparr> in
      if fsm c = updateRoutes
      then go_bind (report_lost_updates c) (\<lambda>_. sleep_before_transition c)
      else go_bind (transition K c) (\<lambda>(err, c).
        case err of
          Some e \<Rightarrow> go_bind (go_emit [cannot_change_state e] ()) (\<lambda>_. sleep_before_transition c)
        | None \<Rightarrow> go_return (Next c)))"

definition case_update ::
    "'x kernel \<Rightarrow> 'x route_update \<Rightarrow> 'x netlink \<Rightarrow> ('x nl_effect, 'x nl_result) go" where
  "case_update K u c =
     (if Table (ru_Route u) = RT_TABLE_UNSPEC then case_closed K c
      else go_bind (notify_all (route_notif u) c) (\<lambda>_.
        go_emit [Count ''route.updates'', Count ''callback.calls''] (Next c)))"

section \<open>Receiving\<close>

text \<open>The zero value a receive on a closed, drained channel gives.\<close>

definition zero_update :: "'x netlink_lib \<Rightarrow> 'x route_update" where
  "zero_update L = \<lparr>ru_Type = 0, ru_Route = \<lparr>Dst = None, Protocol = 0, Priority = 0, Table = 0,
     Tos = 0, rt_Type = 0, rt_rest = zero_rest L\<rparr>\<rparr>"

definition receive :: "'x netlink_lib \<Rightarrow> 'x netlink \<Rightarrow> ('x route_update \<times> 'x netlink) option" where
  "receive L c = (case updates c of
      None \<Rightarrow> None
    | Some a \<Rightarrow> (case buf (channels c ! a) of
        u # q \<Rightarrow> Some (u, c\<lparr>channels := (channels c)[a := (channels c ! a)\<lparr>buf := q\<rparr>]\<rparr>)
      | [] \<Rightarrow> if closed (channels c ! a) then Some (zero_update L, c) else None))"

end
