(* ===== verification/Netlink_Run.thy ===== *)
theory Netlink_Run
  imports Netlink_FSM
begin

text \<open>
  The netlink component at work: the \<^verbatim>\<open>select\<close> of \<^verbatim>\<open>run\<close>, the injection goroutines, the
  subscriber, the end of the component and the netlink library as the steps of one system. Which
  ready step is next, and what the kernel answers, are choices of the environment. The invariant
  shows that the component never panics, hands its subscriber complete dumps and never hangs.
\<close>

section \<open>Steps\<close>

datatype nl_case = NlDying | NlTick | NlCure | NlSubscribed | NlUpdate

text \<open>A case of the \<^verbatim>\<open>select\<close>; \<open>None\<close> when it is not ready.\<close>

definition nl_select ::
    "'x netlink_lib \<Rightarrow> 'x kernel \<Rightarrow> nl_case \<Rightarrow> 'x netlink \<Rightarrow> ('x nl_effect, 'x nl_result) go option" where
  "nl_select L K cs c = (case cs of
      NlDying \<Rightarrow> if dying c then Some (case_dying c) else None
    | NlTick \<Rightarrow> if transitionTick c \<noteq> None then Some (case_transition_tick K c) else None
    | NlCure \<Rightarrow> if cureTick c then Some (case_cure_tick c) else None
    | NlSubscribed \<Rightarrow> if subscribed (obs c) = Closed then Some (case_subscribed K c) else None
    | NlUpdate \<Rightarrow> (case receive L c of
          None \<Rightarrow> None | Some (u, c') \<Rightarrow> Some (case_update K u c')))"

text \<open>
  The steps of the whole component. \<open>LibUpdate\<close>, \<open>LibError\<close> and \<open>LibClose\<close> are the library
  sending an update to a channel it was given, calling the error callback and closing the
  channel. On a channel without buffer the two \<open>Handoff\<close> steps are the send and the receive at
  once.
\<close>

datatype 'x nl_event =
    Kill
  | AddSubscriber "callback_name option"
  | Loop "'x kernel" nl_case
  | InjSelect nat
  | InjSend nat
  | InjHandoff nat "'x kernel"
  | InjClose nat
  | InjDying nat
  | LibUpdate nat "'x route_update"
  | LibHandoff nat "'x route_update" "'x kernel"
  | LibError nat nl_error
  | LibClose nat

definition in_hand :: "nat \<Rightarrow> 'x netlink \<Rightarrow> bool" where
  "in_hand a c \<longleftrightarrow> a \<in> fst ` set (subscriptions c)"

definition next_state :: "('x nl_effect, 'x netlink) go \<Rightarrow> ('x nl_effect, 'x nl_result) go" where
  "next_state m = go_bind m (\<lambda>c. go_return (Next c))"

definition silent :: "'x netlink option \<Rightarrow> ('x nl_effect, 'x nl_result) go option" where
  "silent r = map_option (\<lambda>c. go_return (Next c)) r"

definition nl_handoff ::
    "nat \<Rightarrow> 'x kernel \<Rightarrow> 'x netlink \<Rightarrow> ('x nl_effect, 'x nl_result) go option" where
  "nl_handoff i K c = (case (at (injectors c ! i), todo (injectors c ! i)) of
      (Sending (Some a), r # _) \<Rightarrow>
        if capacity c = 0 \<and> updates c = Some a \<and> \<not> closed (channels c ! a)
        then Some (go_bind (go_emit [Count (family_metric (inj_family (injectors c ! i)))] ())
                     (\<lambda>_. case_update K (new_update r) (inject_advance i c)))
        else None
    | _ \<Rightarrow> None)"

definition lib_report :: "nat \<Rightarrow> nl_error \<Rightarrow> 'x netlink \<Rightarrow> 'x netlink" where
  "lib_report a e c = c\<lparr>subscribeError := Some e,
     subscriptions := map (\<lambda>(b, r). (b, r \<or> b = a)) (subscriptions c)\<rparr>"

definition lib_close :: "nat \<Rightarrow> 'x netlink \<Rightarrow> 'x netlink" where
  "lib_close a c = c\<lparr>subscriptions := filter (\<lambda>(b, r). b \<noteq> a) (subscriptions c),
     channels := (channels c)[a := (channels c ! a)\<lparr>closed := True\<rparr>]\<rparr>"

definition nl_next ::
    "'x netlink_lib \<Rightarrow> 'x nl_event \<Rightarrow> 'x netlink \<Rightarrow> ('x nl_effect, 'x nl_result) go option" where
  "nl_next L ev c = (case ev of
      Kill \<Rightarrow> Some (go_return (Next (netlink_Stop c)))
    | AddSubscriber cb \<Rightarrow> Some (case Subscribe cb (obs c) of
          Inl p \<Rightarrow> go_panic p | Inr o' \<Rightarrow> go_return (Next (c\<lparr>obs := o'\<rparr>)))
    | Loop K cs \<Rightarrow> nl_select L K cs c
    | InjSelect i \<Rightarrow> if i < length (injectors c) then silent (inject_select i c) else None
    | InjSend i \<Rightarrow> if i < length (injectors c) then map_option next_state (inject_send i c) else None
    | InjHandoff i K \<Rightarrow> if i < length (injectors c) then nl_handoff i K c else None
    | InjClose i \<Rightarrow> if i < length (injectors c) then map_option next_state (inject_close i c) else None
    | InjDying i \<Rightarrow> if i < length (injectors c) then silent (inject_dying i c) else None
    | LibUpdate a u \<Rightarrow> if in_hand a c
        then map_option (\<lambda>r. case r of Inl p \<Rightarrow> go_panic p | Inr c' \<Rightarrow> go_return (Next c'))
               (chan_put a u c)
        else None
    | LibHandoff a u K \<Rightarrow>
        if in_hand a c \<and> capacity c = 0 \<and> updates c = Some a then Some (case_update K u c) else None
    | LibError a e \<Rightarrow> if in_hand a c then Some (go_return (Next (lib_report a e c))) else None
    | LibClose a \<Rightarrow> if in_hand a c then Some (go_return (Next (lib_close a c))) else None)"

text \<open>The steps that only \<^verbatim>\<open>run\<close> can take: none once it returned.\<close>

definition of_run :: "'x nl_event \<Rightarrow> bool" where
  "of_run ev = (case ev of Loop K cs \<Rightarrow> True | InjHandoff i K \<Rightarrow> True
     | LibHandoff a u K \<Rightarrow> True | _ \<Rightarrow> False)"

record 'x netlink_run =
  nl_phase :: phase
  nl_comp :: "'x netlink"
  nl_trace :: "'x nl_effect list"

definition nl_may :: "phase \<Rightarrow> 'x nl_event \<Rightarrow> bool" where
  "nl_may p ev \<longleftrightarrow> p = Running \<or> p = Returned \<and> \<not> of_run ev"

inductive nl_step :: "'x netlink_lib \<Rightarrow> 'x netlink_run \<Rightarrow> 'x nl_event \<Rightarrow> 'x netlink_run \<Rightarrow> bool" for L where
  nl_step_next: "nl_may (nl_phase s) ev \<Longrightarrow> nl_next L ev (nl_comp s) = Some (Inr (Next c, es)) \<Longrightarrow>
     nl_step L s ev (s\<lparr>nl_comp := c, nl_trace := nl_trace s @ es\<rparr>)"
| nl_step_exit: "nl_may (nl_phase s) ev \<Longrightarrow> nl_next L ev (nl_comp s) = Some (Inr (Exit c, es)) \<Longrightarrow>
     nl_step L s ev (s\<lparr>nl_phase := Returned, nl_comp := c, nl_trace := nl_trace s @ es\<rparr>)"
| nl_step_panic: "nl_may (nl_phase s) ev \<Longrightarrow> nl_next L ev (nl_comp s) = Some (Inl p) \<Longrightarrow>
     nl_step L s ev (s\<lparr>nl_phase := Panicked p\<rparr>)"

definition nl_start :: "netlink_config \<Rightarrow> 'x netlink_run \<Rightarrow> bool" where
  "nl_start cfg s \<longleftrightarrow> s = \<lparr>nl_phase = Running, nl_comp = netlink_New cfg, nl_trace = []\<rparr>"

section \<open>What the library documents\<close>

text \<open>
  No route of the kernel is in table 0 (\<^verbatim>\<open>RT_TABLE_UNSPEC\<close>), and the library closes a channel only
  after it called the error callback for it, after which it sends no update.
\<close>

definition real_route :: "'x route \<Rightarrow> bool" where
  "real_route r \<longleftrightarrow> Table r \<noteq> RT_TABLE_UNSPEC"

definition real_kernel :: "'x kernel \<Rightarrow> bool" where
  "real_kernel K \<longleftrightarrow> (\<forall>f rs. list_answer K f = Inr rs \<longrightarrow> list_all real_route rs)"

definition documented :: "'x netlink \<Rightarrow> 'x nl_event \<Rightarrow> bool" where
  "documented c ev = (case ev of
      Loop K cs \<Rightarrow> real_kernel K
    | InjHandoff i K \<Rightarrow> real_kernel K
    | LibUpdate a u \<Rightarrow> real_route (ru_Route u) \<and> (a, False) \<in> set (subscriptions c)
    | LibHandoff a u K \<Rightarrow> real_kernel K \<and> real_route (ru_Route u) \<and> (a, False) \<in> set (subscriptions c)
    | LibClose a \<Rightarrow> (a, True) \<in> set (subscriptions c)
    | _ \<Rightarrow> True)"

definition documented_step :: "'x netlink_lib \<Rightarrow> 'x netlink_run \<Rightarrow> 'x nl_event \<Rightarrow> 'x netlink_run \<Rightarrow> bool" where
  "documented_step L s ev t \<longleftrightarrow> nl_step L s ev t \<and> documented (nl_comp s) ev"

definition nl_reach :: "'x netlink_lib \<Rightarrow> netlink_config \<Rightarrow> 'x netlink_run \<Rightarrow> bool" where
  "nl_reach L cfg = reach (nl_start cfg) (documented_step L)"

section \<open>The contract with the subscriber\<close>

text \<open>
  An observer of the trace: a synchronisation starts with a start-of-RIB notification and ends
  with an end-of-RIB one, which must come when the updates notified in between are exactly the
  routes the kernel listed for IPv4, then those it listed for IPv6. An update outside of a
  synchronisation, before the first one, is not accepted.
\<close>

datatype sync_mode = Unsynced | Dumping | Synced

record 'x session =
  mode :: sync_mode
  since_start :: "'x route_update list"
  listed4 :: "'x route list"
  listed6 :: "'x route list"

definition no_session :: "'x session" where
  "no_session = \<lparr>mode = Unsynced, since_start = [], listed4 = [], listed6 = []\<rparr>"

definition observe_notification :: "'x session \<Rightarrow> 'x notification \<Rightarrow> 'x session option" where
  "observe_notification s n =
     (if StartOfRIB n then Some (no_session\<lparr>mode := Dumping\<rparr>)
      else if EndOfRIB n then
        (if mode s = Dumping \<and> since_start s = map new_update (listed4 s @ listed6 s)
         then Some (s\<lparr>mode := Synced\<rparr>) else None)
      else case RouteUpdate n of
          None \<Rightarrow> None
        | Some u \<Rightarrow> if mode s = Unsynced then None
                    else Some (s\<lparr>since_start := since_start s @ [u]\<rparr>))"

definition observe :: "'x session \<Rightarrow> 'x nl_effect \<Rightarrow> 'x session option" where
  "observe s e = (case e of
      Notify cb n \<Rightarrow> observe_notification s n
    | ListCall f (Inr rs) \<Rightarrow> Some (if f = FAMILY_V4 then s\<lparr>listed4 := rs\<rparr> else s\<lparr>listed6 := rs\<rparr>)
    | _ \<Rightarrow> Some s)"

fun observe_all :: "'x session \<Rightarrow> 'x nl_effect list \<Rightarrow> 'x session option" where
  "observe_all s [] = Some s"
| "observe_all s (e # es) = (case observe s e of None \<Rightarrow> None | Some s' \<Rightarrow> observe_all s' es)"

lemma observe_all_append [simp]:
  "observe_all s (xs @ ys) = (case observe_all s xs of None \<Rightarrow> None | Some t \<Rightarrow> observe_all t ys)"
  by (induction xs arbitrary: s) (auto split: option.splits)

end
