(* ===== verification/Netlink_Invariant.thy ===== *)
theory Netlink_Invariant
  imports Netlink_Run
begin

text \<open>
  The invariant of the netlink component: which channel the loop reads in which state, who still
  feeds it, and how what is on its way to the subscriber relates to what the kernel listed.
\<close>

section \<open>Weakest preconditions over the contract with the subscriber\<close>

text \<open>The code does not panic, the contract accepts its effects, and the result satisfies \<open>Q\<close>.\<close>

definition keeps :: "('x nl_effect, 'a) go \<Rightarrow> 'x session \<Rightarrow> ('a \<Rightarrow> 'x session \<Rightarrow> bool) \<Rightarrow> bool" where
  "keeps m \<sigma> Q \<longleftrightarrow> go_ok m (\<lambda>a es. \<exists>\<sigma>'. observe_all \<sigma> es = Some \<sigma>' \<and> Q a \<sigma>')"

named_theorems wp

lemma keeps_bind [wp]: "keeps (go_bind m f) \<sigma> Q \<longleftrightarrow> keeps m \<sigma> (\<lambda>a \<sigma>'. keeps (f a) \<sigma>' Q)"
  by (auto simp: keeps_def go_ok_def go_bind_eq_Inr split: option.splits)

lemma keeps_return [wp]: "keeps (go_return a) \<sigma> Q \<longleftrightarrow> Q a \<sigma>"
  by (simp add: keeps_def)

lemma keeps_emit [wp]:
  "keeps (go_emit es a) \<sigma> Q \<longleftrightarrow> (case observe_all \<sigma> es of None \<Rightarrow> False | Some \<sigma>' \<Rightarrow> Q a \<sigma>')"
  by (simp add: keeps_def split: option.splits)

lemma keeps_panic [wp]: "\<not> keeps (go_panic p) \<sigma> Q"
  by (simp add: keeps_def)

lemma keeps_mono: "keeps m \<sigma> P \<Longrightarrow> (\<And>a \<sigma>'. P a \<sigma>' \<Longrightarrow> Q a \<sigma>') \<Longrightarrow> keeps m \<sigma> Q"
  by (auto simp: keeps_def go_ok_def)

lemma observe_simps [simp]:
  "observe \<sigma> (Count m) = Some \<sigma>"
  "observe \<sigma> (Report l m) = Some \<sigma>"
  "observe \<sigma> (ReportError e m) = Some \<sigma>"
  "observe \<sigma> (SubscribeCall a r) = Some \<sigma>"
  "observe \<sigma> (TickerStart t b) = Some \<sigma>"
  "observe \<sigma> (TickerHalt t) = Some \<sigma>"
  "observe \<sigma> (AfterCall d) = Some \<sigma>"
  "observe \<sigma> (ListCall f (Inl e)) = Some \<sigma>"
  "observe \<sigma> (ListCall FAMILY_V4 (Inr rs)) = Some (\<sigma>\<lparr>listed4 := rs\<rparr>)"
  "observe \<sigma> (ListCall FAMILY_V6 (Inr rs)) = Some (\<sigma>\<lparr>listed6 := rs\<rparr>)"
  "observe \<sigma> (Notify cb n) = observe_notification \<sigma> n"
  by (simp_all add: observe_def)

lemma observe_notification_simps [simp]:
  "observe_notification \<sigma> start_of_rib = Some (no_session\<lparr>mode := Dumping\<rparr>)"
  "observe_notification \<sigma> (route_notif u) =
     (if mode \<sigma> = Unsynced then None else Some (\<sigma>\<lparr>since_start := since_start \<sigma> @ [u]\<rparr>))"
  "observe_notification \<sigma> end_of_rib =
     (if mode \<sigma> = Dumping \<and> since_start \<sigma> = map new_update (listed4 \<sigma> @ listed6 \<sigma>)
      then Some (\<sigma>\<lparr>mode := Synced\<rparr>) else None)"
  by (simp_all add: observe_notification_def)

section \<open>The invariant\<close>

definition basic :: "'x netlink \<Rightarrow> bool" where
  "basic c \<longleftrightarrow>
     (\<forall>t. transitionTick c = Some t \<longrightarrow> transitionTicker c = Some t \<and> transitionBackoff c \<noteq> None)
     \<and> distinct (map fst (subscriptions c))
     \<and> (\<forall>p \<in> set (subscriptions c). fst p < length (channels c) \<and> \<not> closed (channels c ! fst p))
     \<and> observer_ok (obs c)
     \<and> (\<forall>ch \<in> set (channels c). \<forall>u \<in> set (buf ch). real_route (ru_Route u))
     \<and> (\<forall>ch \<in> set (channels c). length (buf ch) \<le> unat (ChannelSize (conf c)))
     \<and> (\<forall>j \<in> set (injectors c). \<forall>r \<in> set (todo j). real_route r)
     \<and> (\<forall>a. liveUpdates c = Some a \<longrightarrow> a < length (channels c)
          \<and> (closed (channels c ! a) \<or> (a, True) \<in> set (subscriptions c) \<longrightarrow> subscribeError c \<noteq> None))"

text \<open>A channel that nobody knows but \<^verbatim>\<open>c.updates\<close>: empty and open for ever.\<close>

definition fresh :: "'x netlink \<Rightarrow> nat \<Rightarrow> bool" where
  "fresh c a \<longleftrightarrow> a < length (channels c) \<and> channels c ! a = \<lparr>buf = [], closed = False\<rparr>
     \<and> \<not> in_hand a c"

definition parked :: "'x netlink \<Rightarrow> bool" where
  "parked c \<longleftrightarrow> injectors c = [] \<and> (case updates c of None \<Rightarrow> True | Some a \<Rightarrow> fresh c a)"

text \<open>The channel of an initial dump, with its goroutine until it is closed.\<close>

definition feeds :: "nat \<Rightarrow> nat \<Rightarrow> 'x injector \<Rightarrow> bool" where
  "feeds a family j \<longleftrightarrow> inj_family j = family \<and> (at j = Head \<or> at j = Sending (Some a) \<and> todo j \<noteq> [])"

definition feeding :: "'x netlink \<Rightarrow> nat \<Rightarrow> bool" where
  "feeding c family \<longleftrightarrow> (\<exists>a. updates c = Some a \<and> a < length (channels c) \<and> \<not> in_hand a c
     \<and> (if closed (channels c ! a) then injectors c = []
        else \<exists>j. injectors c = [j] \<and> feeds a family j))"

definition pipeline :: "'x netlink \<Rightarrow> 'x route_update list" where
  "pipeline c = (case updates c of None \<Rightarrow> [] | Some a \<Rightarrow> buf (channels c ! a))
     @ concat (map (map new_update \<circ> todo) (injectors c))"

definition live_open :: "'x netlink \<Rightarrow> bool" where
  "live_open c \<longleftrightarrow> (\<exists>a. liveUpdates c = Some a \<and> (in_hand a c \<or> closed (channels c ! a)))"

definition dumping :: "'x netlink \<Rightarrow> 'x session \<Rightarrow> 'x route list \<Rightarrow> bool" where
  "dumping c \<sigma> rs \<longleftrightarrow> mode \<sigma> = Dumping \<and> live_open c \<and> updates c \<noteq> liveUpdates c
     \<and> since_start \<sigma> @ pipeline c = map new_update rs"

text \<open>A dump whose goroutine gave up because the component is stopping: it will never end.\<close>

definition abandoned :: "'x netlink \<Rightarrow> 'x session \<Rightarrow> bool" where
  "abandoned c \<sigma> \<longleftrightarrow> dying c \<and> transitionTick c = None \<and> injectors c = [] \<and> mode \<sigma> = Dumping
     \<and> (\<exists>a. updates c = Some a \<and> a < length (channels c) \<and> \<not> closed (channels c ! a)
          \<and> \<not> in_hand a c \<and> liveUpdates c \<noteq> Some a)"

definition shape :: "'x netlink \<Rightarrow> 'x session \<Rightarrow> bool" where
  "shape c \<sigma> \<longleftrightarrow> (case fsm c of
      idle \<Rightarrow> parked c \<and> transitionTick c = None \<and> mode \<sigma> \<noteq> Synced
    | ipv4Routes \<Rightarrow> abandoned c \<sigma> \<or> dumping c \<sigma> (listed4 \<sigma>)
        \<and> (if transitionTick c = None then feeding c FAMILY_V4 else parked c)
    | ipv6Routes \<Rightarrow> abandoned c \<sigma> \<or> dumping c \<sigma> (listed4 \<sigma> @ listed6 \<sigma>)
        \<and> transitionTick c = None \<and> feeding c FAMILY_V6
    | updateRoutes \<Rightarrow> mode \<sigma> \<noteq> Unsynced
        \<and> (if transitionTick c = None
           then injectors c = [] \<and> live_open c \<and> updates c = liveUpdates c \<and> mode \<sigma> = Synced
           else parked c))"

definition good :: "'x netlink \<Rightarrow> 'x session \<Rightarrow> bool" where
  "good c \<sigma> \<longleftrightarrow> basic c \<and> shape c \<sigma> \<and> (fsm c = idle \<longleftrightarrow> subscribed (obs c) \<noteq> NilChan)"

definition good_result :: "'x nl_result \<Rightarrow> 'x session \<Rightarrow> bool" where
  "good_result r \<sigma> = (case r of Next c \<Rightarrow> good c \<sigma> | Exit c \<Rightarrow> good c \<sigma>)"

lemma good_result_simps [simp]:
  "good_result (Next c) \<sigma> = good c \<sigma>" "good_result (Exit c) \<sigma> = good c \<sigma>"
  by (simp_all add: good_result_def)

section \<open>Transitions\<close>

definition same_frame :: "'x netlink \<Rightarrow> 'x netlink \<Rightarrow> bool" where
  "same_frame c c' \<longleftrightarrow> transitionTick c' = transitionTick c \<and> transitionTicker c' = transitionTicker c
     \<and> transitionBackoff c' = transitionBackoff c \<and> obs c' = obs c"

lemma transition_start_keeps:
  assumes "basic c" "parked c" "real_kernel K"
  shows "keeps (transition_start K c) \<sigma> (\<lambda>(err, c') \<sigma>'. basic c' \<and> same_frame c c'
    \<and> (case err of
        Some e \<Rightarrow> fsm c' = fsm c \<and> parked c' \<and> (mode \<sigma>' = mode \<sigma> \<or> mode \<sigma>' = Dumping)
      | None \<Rightarrow> fsm c' = ipv4Routes \<and> dumping c' \<sigma>' (listed4 \<sigma>') \<and> feeding c' FAMILY_V4))"
proof (cases "subscribe_answer K")
  case (Some e)
  with assms show ?thesis
    by (auto simp: transition_start_def make_chan_def wp basic_def same_frame_def parked_def fresh_def
        in_hand_def nth_append Let_def split: option.splits)
next
  case None
  show ?thesis
  proof (cases "list_answer K FAMILY_V4")
    case (Inl e)
    with None assms show ?thesis
      by (auto simp: transition_start_def make_chan_def wp basic_def same_frame_def parked_def fresh_def
          in_hand_def nth_append Let_def notify_all_def injectRoutes_def no_session_def
          split: option.splits)
  next
    case (Inr rs)
    then have "list_all real_route rs" using assms(3) by (simp add: real_kernel_def)
    with Inr None assms show ?thesis
      by (auto simp: transition_start_def make_chan_def wp basic_def same_frame_def parked_def fresh_def
          in_hand_def nth_append Let_def notify_all_def injectRoutes_def no_session_def dumping_def
          live_open_def pipeline_def feeding_def feeds_def list_all_iff split: option.splits)
  qed
qed

lemma transition_ipv4_keeps:
  assumes "basic c" "injectors c = []" "real_kernel K" "live_open c" "mode \<sigma> = Dumping"
    and "since_start \<sigma> = map new_update (listed4 \<sigma>)"
  shows "keeps (transition_ipv4 K c) \<sigma> (\<lambda>(err, c') \<sigma>'. basic c' \<and> same_frame c c'
    \<and> (case err of
        Some e \<Rightarrow> fsm c' = fsm c \<and> parked c' \<and> dumping c' \<sigma>' (listed4 \<sigma>')
      | None \<Rightarrow> fsm c' = ipv6Routes \<and> dumping c' \<sigma>' (listed4 \<sigma>' @ listed6 \<sigma>')
          \<and> feeding c' FAMILY_V6))"
proof (cases "list_answer K FAMILY_V6")
  case (Inl e)
  with assms show ?thesis
    by (auto simp: transition_ipv4_def make_chan_def wp basic_def same_frame_def parked_def fresh_def
        in_hand_def nth_append Let_def injectRoutes_def dumping_def live_open_def pipeline_def
        split: option.splits)
next
  case (Inr rs)
  then have "list_all real_route rs" using assms(3) by (simp add: real_kernel_def)
  with Inr assms show ?thesis
    by (auto simp: transition_ipv4_def make_chan_def wp basic_def same_frame_def parked_def fresh_def
        in_hand_def nth_append Let_def injectRoutes_def dumping_def live_open_def pipeline_def
        feeding_def feeds_def list_all_iff split: option.splits)
qed

lemma transition_ipv6_keeps:
  assumes "basic c" "mode \<sigma> = Dumping"
    and "since_start \<sigma> = map new_update (listed4 \<sigma> @ listed6 \<sigma>)"
  shows "keeps (transition_ipv6 c) \<sigma> (\<lambda>(err, c') \<sigma>'. err = None \<and> basic c' \<and> same_frame c c'
    \<and> fsm c' = updateRoutes \<and> updates c' = liveUpdates c \<and> liveUpdates c' = liveUpdates c
    \<and> injectors c' = injectors c \<and> channels c' = channels c \<and> subscriptions c' = subscriptions c
    \<and> mode \<sigma>' = Synced)"
  using assms by (auto simp: transition_ipv6_def wp notify_all_def basic_def same_frame_def)

section \<open>The cases of the select\<close>

text \<open>The shape of the channels does not depend on the timers nor on the observer.\<close>

lemma in_hand_frame [simp]:
  "in_hand a (c\<lparr>transitionTick := t\<rparr>) = in_hand a c"
  "in_hand a (c\<lparr>transitionTicker := t\<rparr>) = in_hand a c"
  "in_hand a (c\<lparr>transitionBackoff := b\<rparr>) = in_hand a c"
  "in_hand a (c\<lparr>tickers := n\<rparr>) = in_hand a c"
  "in_hand a (c\<lparr>cureTick := q\<rparr>) = in_hand a c"
  "in_hand a (c\<lparr>dying := q\<rparr>) = in_hand a c"
  "in_hand a (c\<lparr>obs := ob\<rparr>) = in_hand a c"
  "in_hand a (c\<lparr>updates := u\<rparr>) = in_hand a c"
  "in_hand a (c\<lparr>injectors := js\<rparr>) = in_hand a c"
  "in_hand a (c\<lparr>channels := chs\<rparr>) = in_hand a c"
  by (simp_all add: in_hand_def)

lemma shape_frame [simp]:
  "parked (c\<lparr>transitionTick := t\<rparr>) = parked c"
  "parked (c\<lparr>transitionTicker := t\<rparr>) = parked c"
  "parked (c\<lparr>transitionBackoff := b\<rparr>) = parked c"
  "parked (c\<lparr>tickers := n\<rparr>) = parked c"
  "parked (c\<lparr>cureTick := q\<rparr>) = parked c"
  "parked (c\<lparr>dying := q\<rparr>) = parked c"
  "parked (c\<lparr>obs := ob\<rparr>) = parked c"
  "feeding (c\<lparr>transitionTick := t\<rparr>) f = feeding c f"
  "feeding (c\<lparr>transitionTicker := t\<rparr>) f = feeding c f"
  "feeding (c\<lparr>transitionBackoff := b\<rparr>) f = feeding c f"
  "feeding (c\<lparr>tickers := n\<rparr>) f = feeding c f"
  "feeding (c\<lparr>cureTick := q\<rparr>) f = feeding c f"
  "feeding (c\<lparr>dying := q\<rparr>) f = feeding c f"
  "feeding (c\<lparr>obs := ob\<rparr>) f = feeding c f"
  "dumping (c\<lparr>transitionTick := t\<rparr>) \<sigma> rs = dumping c \<sigma> rs"
  "dumping (c\<lparr>transitionTicker := t\<rparr>) \<sigma> rs = dumping c \<sigma> rs"
  "dumping (c\<lparr>transitionBackoff := b\<rparr>) \<sigma> rs = dumping c \<sigma> rs"
  "dumping (c\<lparr>tickers := n\<rparr>) \<sigma> rs = dumping c \<sigma> rs"
  "dumping (c\<lparr>cureTick := q\<rparr>) \<sigma> rs = dumping c \<sigma> rs"
  "dumping (c\<lparr>dying := q\<rparr>) \<sigma> rs = dumping c \<sigma> rs"
  "dumping (c\<lparr>obs := ob\<rparr>) \<sigma> rs = dumping c \<sigma> rs"
  "live_open (c\<lparr>transitionTick := t\<rparr>) = live_open c"
  "live_open (c\<lparr>transitionTicker := t\<rparr>) = live_open c"
  "live_open (c\<lparr>transitionBackoff := b\<rparr>) = live_open c"
  "live_open (c\<lparr>tickers := n\<rparr>) = live_open c"
  "live_open (c\<lparr>cureTick := q\<rparr>) = live_open c"
  "live_open (c\<lparr>dying := q\<rparr>) = live_open c"
  "live_open (c\<lparr>obs := ob\<rparr>) = live_open c"
  by (simp_all add: parked_def fresh_def feeding_def dumping_def live_open_def pipeline_def
      cong: option.case_cong)

lemma basic_frame [simp]:
  "basic (c\<lparr>cureTick := q\<rparr>) = basic c"
  "basic (c\<lparr>dying := q\<rparr>) = basic c"
  "basic (c\<lparr>updates := u\<rparr>) = basic c"
  by (simp_all add: basic_def)

lemma basic_disarm: "basic c \<Longrightarrow> basic (c\<lparr>transitionTick := None\<rparr>)"
  by (simp add: basic_def)

lemma basic_arm:
  "basic c \<Longrightarrow> basic (c\<lparr>tickers := n, transitionBackoff := Some b, transitionTicker := Some t,
     transitionTick := Some t\<rparr>)"
  by (simp add: basic_def)

lemma basic_obs: "basic c \<Longrightarrow> observer_ok ob \<Longrightarrow> basic (c\<lparr>obs := ob\<rparr>)"
  by (simp add: basic_def)

lemma basic_ticker:
  assumes "basic c" "transitionTick c = Some t"
  shows "transitionTicker c = Some t" and "\<exists>b. transitionBackoff c = Some b"
  using assms by (auto simp: basic_def)

lemma parked_pipeline: "parked c \<Longrightarrow> pipeline c = []"
  by (auto simp: parked_def fresh_def pipeline_def split: option.splits)

lemma parked_dumping:
  assumes "parked c" "dumping c \<sigma> rs"
  shows "injectors c = []" "live_open c" "mode \<sigma> = Dumping" "since_start \<sigma> = map new_update rs"
  using parked_pipeline [OF assms(1)] assms by (simp_all add: parked_def dumping_def)

lemma parked_nil: "injectors c = [] \<Longrightarrow> parked (c\<lparr>updates := None\<rparr>)"
  by (simp add: parked_def)

lemma goodD:
  assumes "good c \<sigma>"
  shows "basic c" "shape c \<sigma>" "fsm c = idle \<longleftrightarrow> subscribed (obs c) \<noteq> NilChan"
  using assms by (simp_all add: good_def)

lemma tick_keeps:
  assumes g: "good c \<sigma>" and t: "transitionTick c = Some t" and K: "real_kernel K"
  shows "keeps (case_transition_tick K c) \<sigma> good_result"
proof -
  note gd = goodD [OF g]
  note ticker = basic_ticker [OF gd(1) t]
  show ?thesis
  proof (cases "fsm c")
    case updateRoutes
    with gd t have "parked c" "mode \<sigma> \<noteq> Unsynced" by (simp_all add: shape_def)
    with updateRoutes t gd ticker show ?thesis
      by (auto simp: case_transition_tick_def wp transition_def cannot_change_state_def
          same_frame_def good_def shape_def halt_ticker_def basic_disarm
          intro!: keeps_mono [OF transition_start_keeps [OF gd(1) \<open>parked c\<close> K]]
          split: option.splits)
  next
    case ipv4Routes
    with gd t have sh: "parked c" "dumping c \<sigma> (listed4 \<sigma>)"
      by (auto simp: shape_def abandoned_def)
    from ipv4Routes t gd ticker show ?thesis
      by (auto simp: case_transition_tick_def wp transition_def cannot_change_state_def
          same_frame_def good_def shape_def halt_ticker_def basic_disarm
          intro!: keeps_mono [OF transition_ipv4_keeps [OF gd(1) _ K]] parked_dumping [OF sh]
          split: option.splits)
  qed (use gd t in \<open>auto simp: shape_def abandoned_def\<close>)
qed

lemma subscribed_keeps:
  assumes g: "good c \<sigma>" and s: "subscribed (obs c) = Closed" and K: "real_kernel K"
  shows "keeps (case_subscribed K c) \<sigma> good_result"
proof -
  note gd = goodD [OF g]
  from gd s have idle: "fsm c = idle" by simp
  with gd have sh: "parked c" "transitionTick c = None" "mode \<sigma> \<noteq> Synced" by (simp_all add: shape_def)
  have "observer_ok (obs c)" using gd(1) by (simp add: basic_def)
  with s have ob: "observer_ok ((obs c)\<lparr>subscribed := NilChan\<rparr>)" by (simp add: observer_ok_def)
  with idle sh gd s show ?thesis
    by (auto simp: case_subscribed_def wp transition_def cannot_change_state_def
        same_frame_def good_def shape_def intro!: basic_obs
        intro!: keeps_mono [OF transition_start_keeps [OF gd(1) sh(1) K]] split: option.splits)
qed

lemma sleep_keeps:
  assumes b: "basic c" and Q: "\<And>c'. basic c' \<Longrightarrow> transitionTick c' \<noteq> None \<Longrightarrow> fsm c' = fsm c
      \<Longrightarrow> obs c' = obs c \<Longrightarrow> (parked c \<Longrightarrow> parked c')
      \<Longrightarrow> (\<And>rs. dumping c \<sigma> rs \<Longrightarrow> dumping c' \<sigma> rs) \<Longrightarrow> Q (Next c') \<sigma>"
  shows "keeps (sleep_before_transition c) \<sigma> Q"
proof (cases "transitionTick c")
  case None
  show ?thesis
    by (auto simp: sleep_before_transition_def arm_transition_def arm_cure_def wp Let_def None
        basic_arm [OF b] intro!: Q)
next
  case (Some t)
  with basic_ticker [OF b Some] b show ?thesis
    by (auto simp: sleep_before_transition_def arm_transition_def arm_cure_def wp Let_def intro!: Q)
qed

lemma lost_updates_keeps:
  assumes "subscribeError c \<noteq> None" and "Q () \<sigma>"
  shows "keeps (report_lost_updates c) \<sigma> Q"
  using assms
  by (auto simp: report_lost_updates_def report_fatal_def wp split: option.splits nl_error.splits)

lemma closed_keeps:
  assumes g: "good c \<sigma>" and K: "real_kernel K" and a: "updates c = Some a"
    and cl: "closed (channels c ! a)" and e: "buf (channels c ! a) = []"
  shows "keeps (case_closed K c) \<sigma> good_result"
proof -
  note gd = goodD [OF g]
  have np: "\<not> parked c" "\<not> abandoned c \<sigma>" using a cl by (auto simp: parked_def fresh_def abandoned_def)
  let ?c = "c\<lparr>updates := None\<rparr>"
  have b: "basic ?c" using gd(1) by simp
  have live: "live_open ?c = live_open c" by (simp add: live_open_def)
  show ?thesis
  proof (cases "fsm c")
    case idle
    with gd np show ?thesis by (simp add: shape_def)
  next
    case ipv4Routes
    with gd np have sh: "transitionTick c = None" "feeding c FAMILY_V4" "dumping c \<sigma> (listed4 \<sigma>)"
      by (auto simp: shape_def split: if_splits)
    then have inj: "injectors c = []" using a cl by (auto simp: feeding_def)
    with sh a e have d: "injectors ?c = []" "live_open ?c" "mode \<sigma> = Dumping"
        "since_start \<sigma> = map new_update (listed4 \<sigma>)"
      by (auto simp: dumping_def pipeline_def live)
    show ?thesis using ipv4Routes sh gd
      by (auto simp: case_closed_def wp Let_def transition_def cannot_change_state_def
          same_frame_def good_def shape_def
          intro!: keeps_mono [OF transition_ipv4_keeps [OF b d(1) K d(2-4)]] sleep_keeps
          split: option.splits)
  next
    case ipv6Routes
    with gd np have sh: "transitionTick c = None" "feeding c FAMILY_V6"
        "dumping c \<sigma> (listed4 \<sigma> @ listed6 \<sigma>)"
      by (auto simp: shape_def)
    then have inj: "injectors c = []" using a cl by (auto simp: feeding_def)
    with sh a e have d: "live_open c" "mode \<sigma> = Dumping"
        "since_start \<sigma> = map new_update (listed4 \<sigma> @ listed6 \<sigma>)"
      by (auto simp: dumping_def pipeline_def)
    have live': "live_open c'" if "liveUpdates c' = liveUpdates c" "channels c' = channels c"
        "subscriptions c' = subscriptions c" for c'
      using d(1) that by (simp add: live_open_def in_hand_def)
    show ?thesis using ipv6Routes sh gd inj
      by (auto simp: case_closed_def wp Let_def transition_def
          same_frame_def good_def shape_def live'
          intro!: keeps_mono [OF transition_ipv6_keeps [OF b d(2,3)]] split: option.splits)
  next
    case updateRoutes
    with gd np have sh: "transitionTick c = None" "injectors c = []" "updates c = liveUpdates c"
        "mode \<sigma> = Synced"
      by (auto simp: shape_def split: if_splits)
    with a cl gd(1) have err: "subscribeError ?c \<noteq> None" by (simp add: basic_def)
    have p: "parked ?c" using sh by (simp add: parked_nil)
    show ?thesis using updateRoutes sh gd p
      by (auto simp: case_closed_def wp Let_def good_def shape_def
          intro!: lost_updates_keeps [OF err] sleep_keeps [OF b])
  qed
qed

section \<open>Receiving an update\<close>

text \<open>What a state must satisfy for a real update to be handed to the subscriber.\<close>

definition accepts :: "'x netlink \<Rightarrow> 'x session \<Rightarrow> 'x route_update \<Rightarrow> bool" where
  "accepts c \<sigma> u \<longleftrightarrow> mode \<sigma> \<noteq> Unsynced \<and> good c (\<sigma>\<lparr>since_start := since_start \<sigma> @ [u]\<rparr>)"

lemma update_keeps:
  assumes "accepts c \<sigma> u" and "real_route (ru_Route u)"
  shows "keeps (case_update K u c) \<sigma> good_result"
  using assms by (auto simp: case_update_def wp notify_all_def accepts_def real_route_def)

lemma nth_buf_update [simp]:
  "closed (chs[a := (chs ! a)\<lparr>buf := q\<rparr>] ! b) = closed (chs ! b)"
  by (cases "a < length chs"; cases "a = b") (simp_all add: list_update_beyond)

lemma basic_chan:
  assumes "basic c" and "\<forall>u \<in> set q. real_route (ru_Route u)"
    and "length q \<le> unat (ChannelSize (conf c))"
  shows "basic (c\<lparr>channels := (channels c)[a := (channels c ! a)\<lparr>buf := q\<rparr>]\<rparr>)"
  using assms unfolding basic_def
  by (auto simp: nth_list_update dest!: set_update_subset_insert [THEN subsetD])

lemma pop_accepts:
  assumes g: "good c \<sigma>" and a: "updates c = Some a" and q: "buf (channels c ! a) = u # q"
  shows "accepts (c\<lparr>channels := (channels c)[a := (channels c ! a)\<lparr>buf := q\<rparr>]\<rparr>) \<sigma> u"
    and "real_route (ru_Route u)"
proof -
  note gd = goodD [OF g]
  have np: "\<not> parked c" using a q by (auto simp: parked_def fresh_def)
  have len: "a < length (channels c)"
    using gd np a unfolding shape_def basic_def
    by (cases "fsm c") (auto simp: feeding_def abandoned_def split: if_splits)
  then have "channels c ! a \<in> set (channels c)" by simp
  with gd(1) q have real: "\<forall>v \<in> set (u # q). real_route (ru_Route v)"
    unfolding basic_def by metis
  then show "real_route (ru_Route u)" by simp
  let ?c = "c\<lparr>channels := (channels c)[a := (channels c ! a)\<lparr>buf := q\<rparr>]\<rparr>"
  have "length (u # q) \<le> unat (ChannelSize (conf c))"
    using gd(1) q \<open>channels c ! a \<in> set (channels c)\<close> unfolding basic_def by metis
  then have b: "basic ?c" using basic_chan [OF gd(1)] real by simp
  have "mode \<sigma> \<noteq> Unsynced \<and> shape ?c (\<sigma>\<lparr>since_start := since_start \<sigma> @ [u]\<rparr>)"
    using gd(2) np a q len unfolding shape_def
    by (cases "fsm c")
       (auto simp: dumping_def pipeline_def live_open_def feeding_def abandoned_def nth_list_update
          split: if_splits)
  with b gd(3) show "accepts ?c \<sigma> u" by (simp add: accepts_def good_def)
qed

lemma receive_keeps:
  assumes g: "good c \<sigma>" and K: "real_kernel K" and r: "receive L c = Some (u, c')"
  shows "keeps (case_update K u c') \<sigma> good_result"
proof -
  from r obtain a where a: "updates c = Some a" by (auto simp: receive_def split: option.splits)
  show ?thesis
  proof (cases "buf (channels c ! a)")
    case Nil
    with a r have "closed (channels c ! a)" "u = zero_update L" "c' = c"
      by (auto simp: receive_def split: if_splits)
    with closed_keeps [OF g K a _ Nil] show ?thesis
      by (simp add: case_update_def zero_update_def RT_TABLE_UNSPEC_def)
  next
    case (Cons v q)
    with a r have "u = v" "c' = c\<lparr>channels := (channels c)[a := (channels c ! a)\<lparr>buf := q\<rparr>]\<rparr>"
      by (auto simp: receive_def)
    with pop_accepts [OF g a Cons] show ?thesis by (simp add: update_keeps)
  qed
qed

lemma select_keeps:
  assumes g: "good c \<sigma>" and K: "real_kernel K" and s: "nl_select L K cs c = Some m"
  shows "keeps m \<sigma> good_result"
proof (cases cs)
  case NlDying
  then have m: "m = case_dying c" using s by (simp add: nl_select_def split: if_splits)
  show ?thesis
  proof (cases "transitionTick c")
    case None
    with g show ?thesis by (simp add: m case_dying_def wp)
  next
    case (Some t)
    with basic_ticker [OF goodD(1) [OF g] Some] g show ?thesis
      by (auto simp: m case_dying_def halt_ticker_def wp)
  qed
next
  case NlTick
  then show ?thesis using s tick_keeps [OF g _ K] by (auto simp: nl_select_def split: if_splits)
next
  case NlCure
  then have "m = case_cure_tick c" using s by (simp add: nl_select_def split: if_splits)
  with g show ?thesis
    by (auto simp: case_cure_tick_def wp good_def shape_def abandoned_def split: fsm_state.splits)
next
  case NlSubscribed
  then show ?thesis using s subscribed_keeps [OF g _ K]
    by (auto simp: nl_select_def split: if_splits)
next
  case NlUpdate
  then show ?thesis using s receive_keeps [OF g K]
    by (auto simp: nl_select_def split: option.splits)
qed

section \<open>The goroutines around the loop\<close>

lemma kill_good: "good c \<sigma> \<Longrightarrow> good (c\<lparr>dying := True\<rparr>) \<sigma>"
  by (auto simp: good_def shape_def abandoned_def split: fsm_state.splits)

lemma subscriber_keeps:
  assumes g: "good c \<sigma>"
  shows "\<exists>ob. Subscribe cb (obs c) = Inr ob \<and> good (c\<lparr>obs := ob\<rparr>) \<sigma>"
proof -
  note gd = goodD [OF g]
  then have ok: "observer_ok (obs c)" by (simp add: basic_def)
  let ?ob = "\<lparr>callback = cb,
           subscribed = (if subscribed (obs c) = Open then Closed else subscribed (obs c)), once_done = True\<rparr>"
  have "observer_ok ?ob" by (simp add: observer_ok_def)
  then have "good (c\<lparr>obs := ?ob\<rparr>) \<sigma>"
    using gd by (auto simp: good_def shape_def abandoned_def intro!: basic_obs split: fsm_state.splits)
  with Subscribe_ok [OF ok, of cb] show ?thesis by blast
qed

text \<open>An injection goroutine exists only while a dump is fed.\<close>

definition fed :: "'x netlink \<Rightarrow> 'x session \<Rightarrow> nat \<Rightarrow> 'x injector \<Rightarrow> bool" where
  "fed c \<sigma> a j \<longleftrightarrow> updates c = Some a \<and> a < length (channels c) \<and> \<not> closed (channels c ! a)
     \<and> \<not> in_hand a c \<and> liveUpdates c \<noteq> Some a \<and> transitionTick c = None
     \<and> injectors c = [j] \<and> mode \<sigma> = Dumping
     \<and> (fsm c = ipv4Routes \<and> feeds a FAMILY_V4 j \<and> dumping c \<sigma> (listed4 \<sigma>)
        \<or> fsm c = ipv6Routes \<and> feeds a FAMILY_V6 j \<and> dumping c \<sigma> (listed4 \<sigma> @ listed6 \<sigma>))"

lemma fedD:
  assumes "fed c \<sigma> a j"
  shows "updates c = Some a" "a < length (channels c)" "\<not> closed (channels c ! a)"
    "\<not> in_hand a c" "liveUpdates c \<noteq> Some a" "transitionTick c = None"
    "injectors c = [j]" "mode \<sigma> = Dumping"
    "fsm c = ipv4Routes \<and> feeds a FAMILY_V4 j \<and> dumping c \<sigma> (listed4 \<sigma>)
     \<or> fsm c = ipv6Routes \<and> feeds a FAMILY_V6 j \<and> dumping c \<sigma> (listed4 \<sigma> @ listed6 \<sigma>)"
  using assms unfolding fed_def by blast+

lemma injector_facts:
  assumes g: "good c \<sigma>" and i: "i < length (injectors c)"
  obtains a j where "fed c \<sigma> a j" "i = 0"
proof -
  note gd = goodD [OF g]
  have "injectors c \<noteq> []" using i by auto
  then have "transitionTick c = None" and "fsm c = ipv4Routes \<and> feeding c FAMILY_V4 \<and> dumping c \<sigma> (listed4 \<sigma>)
     \<or> fsm c = ipv6Routes \<and> feeding c FAMILY_V6 \<and> dumping c \<sigma> (listed4 \<sigma> @ listed6 \<sigma>)"
    using gd(2) by (cases "fsm c"; auto simp: shape_def parked_def abandoned_def split: if_splits)+
  with \<open>injectors c \<noteq> []\<close> i that show ?thesis
    by (auto simp: fed_def feeding_def dumping_def split: if_splits)
qed

lemma inject_select_good:
  assumes g: "good c \<sigma>" and i: "i < length (injectors c)" and s: "inject_select i c = Some c'"
  shows "good c' \<sigma>"
proof -
  obtain a j where "fed c \<sigma> a j" and i0: "i = 0" by (rule injector_facts [OF g i])
  note f = fedD [OF this(1)] i0
  from s f have c': "c' = c\<lparr>injectors := [j\<lparr>at := Sending (Some a)\<rparr>]\<rparr>" "todo j \<noteq> []"
    by (auto simp: inject_select_def Let_def split: if_splits)
  have "basic c'" using goodD(1) [OF g] f by (simp add: c' basic_def)
  with c' f goodD(3) [OF g] show ?thesis
    by (auto simp: good_def shape_def feeding_def feeds_def dumping_def live_open_def pipeline_def)
qed

lemma inject_send_keeps:
  assumes g: "good c \<sigma>" and i: "i < length (injectors c)" and s: "inject_send i c = Some m"
  shows "keeps (next_state m) \<sigma> good_result"
proof -
  obtain a j where "fed c \<sigma> a j" and i0: "i = 0" by (rule injector_facts [OF g i])
  note f = fedD [OF this(1)] i0
  from s f obtain r rs where todo: "todo j = r # rs"
    by (auto simp: inject_send_def split: list.splits inj_phase.splits option.splits)
  with s f have room: "length (buf (channels c ! a)) < capacity c"
    and m: "m = go_emit [Count (family_metric (inj_family j))]
      (c\<lparr>channels := (channels c)[a := (channels c ! a)\<lparr>buf := buf (channels c ! a) @ [new_update r]\<rparr>],
         injectors := [j\<lparr>todo := rs, at := Head\<rparr>]\<rparr>)"
    by (auto simp: inject_send_def chan_put_def inject_advance_def Let_def feeds_def
        split: inj_phase.splits option.splits if_splits)
  let ?q = "buf (channels c ! a) @ [new_update r]"
  have gd: "basic c" by (rule goodD(1) [OF g])
  have mem: "channels c ! a \<in> set (channels c)" using f(2) by simp
  have r: "real_route r" "\<forall>x \<in> set rs. real_route x" using gd f(7) todo by (auto simp: basic_def)
  have "\<forall>u \<in> set (buf (channels c ! a)). real_route (ru_Route u)" using gd mem by (simp add: basic_def)
  with r have "\<forall>u \<in> set ?q. real_route (ru_Route u)" by (auto simp: new_update_def)
  moreover have "length ?q \<le> unat (ChannelSize (conf c))" using room by (simp add: capacity_def)
  ultimately have "basic (c\<lparr>channels := (channels c)[a := (channels c ! a)\<lparr>buf := ?q\<rparr>]\<rparr>)"
    by (rule basic_chan [OF gd])
  then have "basic (c\<lparr>channels := (channels c)[a := (channels c ! a)\<lparr>buf := ?q\<rparr>],
         injectors := [j\<lparr>todo := rs, at := Head\<rparr>]\<rparr>)"
    using r(2) by (simp add: basic_def)
  with f todo goodD(3) [OF g] show ?thesis
    by (auto simp: m next_state_def wp good_def shape_def feeding_def feeds_def dumping_def
        live_open_def pipeline_def)
qed

lemma handoff_keeps:
  assumes g: "good c \<sigma>" and i: "i < length (injectors c)" and K: "real_kernel K"
    and s: "nl_handoff i K c = Some m"
  shows "keeps m \<sigma> good_result"
proof -
  obtain a j where "fed c \<sigma> a j" and i0: "i = 0" by (rule injector_facts [OF g i])
  note f = fedD [OF this(1)] i0
  from s f obtain r rs where todo: "todo j = r # rs"
    by (auto simp: nl_handoff_def split: list.splits inj_phase.splits option.splits)
  let ?c = "c\<lparr>injectors := [j\<lparr>todo := rs, at := Head\<rparr>]\<rparr>"
  from s f todo have cap: "capacity c = 0"
    and m: "m = go_bind (go_emit [Count (family_metric (inj_family j))] ())
                     (\<lambda>_. case_update K (new_update r) ?c)"
    by (auto simp: nl_handoff_def inject_advance_def Let_def split: inj_phase.splits option.splits if_splits)
  have gd: "basic c" by (rule goodD(1) [OF g])
  have "channels c ! a \<in> set (channels c)" using f(2) by simp
  with gd cap have e: "buf (channels c ! a) = []" by (auto simp: basic_def capacity_def)
  have r: "real_route r" "\<forall>x \<in> set rs. real_route x" using gd f(7) todo by (auto simp: basic_def)
  have "basic ?c" using gd r(2) by (simp add: basic_def)
  with f e todo goodD(3) [OF g] have "accepts ?c \<sigma> (new_update r)"
    by (auto simp: accepts_def good_def shape_def feeding_def feeds_def dumping_def
        live_open_def pipeline_def)
  with r(1) show ?thesis by (simp add: m wp update_keeps new_update_def)
qed

lemma nth_close_update [simp]:
  "buf (chs[a := (chs ! a)\<lparr>closed := True\<rparr>] ! b) = buf (chs ! b)"
  by (cases "a < length chs"; cases "a = b") (simp_all add: list_update_beyond)

lemma buf_close_update:
  "(\<forall>ch \<in> set (chs[a := (chs ! a)\<lparr>closed := True\<rparr>]). P (buf ch)) \<longleftrightarrow> (\<forall>ch \<in> set chs. P (buf ch))"
proof -
  have "map buf (chs[a := (chs ! a)\<lparr>closed := True\<rparr>]) = map buf chs"
    by (rule nth_equalityI) simp_all
  then have "buf ` set (chs[a := (chs ! a)\<lparr>closed := True\<rparr>]) = buf ` set chs"
    by (metis set_map)
  then have "(\<forall>q \<in> buf ` set (chs[a := (chs ! a)\<lparr>closed := True\<rparr>]). P q) \<longleftrightarrow> (\<forall>q \<in> buf ` set chs. P q)"
    by simp
  then show ?thesis by simp
qed

lemma basic_close:
  assumes "basic c" and "\<not> in_hand a c" and "liveUpdates c = Some a \<longrightarrow> subscribeError c \<noteq> None"
  shows "basic (c\<lparr>channels := (channels c)[a := (channels c ! a)\<lparr>closed := True\<rparr>]\<rparr>)"
proof -
  have other: "closed ((channels c)[a := (channels c ! a)\<lparr>closed := True\<rparr>] ! b) = closed (channels c ! b)"
    if "b \<noteq> a" for b
    using that by simp
  have "fst p \<noteq> a" if "p \<in> set (subscriptions c)" for p
    using that assms(2) by (auto simp: in_hand_def)
  moreover have "closed ((channels c)[a := (channels c ! a)\<lparr>closed := True\<rparr>] ! b)
      \<longrightarrow> closed (channels c ! b) \<or> b = a" for b
    using other by blast
  ultimately show ?thesis using assms(1,3) unfolding basic_def
    by (simp add: buf_close_update [of _ _ "\<lambda>q. \<forall>u\<in>set q. real_route (ru_Route u)"]
        buf_close_update [of _ _ "\<lambda>q. length q \<le> n" for n]) (metis other)
qed

lemma inject_close_keeps:
  assumes g: "good c \<sigma>" and i: "i < length (injectors c)" and s: "inject_close i c = Some m"
  shows "keeps (next_state m) \<sigma> good_result"
proof -
  obtain a j where "fed c \<sigma> a j" and i0: "i = 0" by (rule injector_facts [OF g i])
  note f = fedD [OF this(1)] i0
  let ?c = "c\<lparr>channels := (channels c)[a := (channels c ! a)\<lparr>closed := True\<rparr>], injectors := []\<rparr>"
  from s f have todo: "todo j = []" and m: "m = go_return ?c"
    by (auto simp: inject_close_def chan_close_def drop_injector_def split: if_splits)
  have "basic (c\<lparr>channels := (channels c)[a := (channels c ! a)\<lparr>closed := True\<rparr>]\<rparr>)"
    using f(4,5) by (intro basic_close goodD(1) [OF g]) simp_all
  then have "basic ?c" by (simp add: basic_def)
  with f todo goodD(3) [OF g] show ?thesis
    by (auto simp: m next_state_def wp good_def shape_def feeding_def feeds_def dumping_def
        live_open_def pipeline_def nth_list_update)
qed

lemma inject_dying_good:
  assumes g: "good c \<sigma>" and i: "i < length (injectors c)" and s: "inject_dying i c = Some c'"
  shows "good c' \<sigma>"
proof -
  obtain a j where "fed c \<sigma> a j" and i0: "i = 0" by (rule injector_facts [OF g i])
  note f = fedD [OF this(1)] i0
  from s f have c': "c' = c\<lparr>injectors := []\<rparr>" "dying c"
    by (auto simp: inject_dying_def drop_injector_def split: if_splits)
  have "basic c'" using goodD(1) [OF g] by (simp add: c' basic_def)
  with c' f goodD(3) [OF g] show ?thesis
    by (auto simp: good_def shape_def abandoned_def)
qed

section \<open>The library\<close>

lemma in_handD:
  assumes "good c \<sigma>" "in_hand a c"
  shows "a < length (channels c)" "\<not> closed (channels c ! a)"
    "updates c = Some a \<Longrightarrow> fsm c = updateRoutes \<and> transitionTick c = None \<and> mode \<sigma> = Synced"
proof -
  show "a < length (channels c)" "\<not> closed (channels c ! a)"
    using assms by (auto simp: good_def basic_def in_hand_def)
  show "fsm c = updateRoutes \<and> transitionTick c = None \<and> mode \<sigma> = Synced" if "updates c = Some a"
    using assms that by (cases "fsm c"; auto simp: good_def shape_def feeding_def parked_def fresh_def
        abandoned_def split: if_splits)
qed

text \<open>Steps of the library on a channel in its hand leave the rest of the shape alone.\<close>

lemma shape_other:
  assumes "shape c \<sigma>"
    and eq: "updates d = updates c" "liveUpdates d = liveUpdates c" "fsm d = fsm c"
      "transitionTick d = transitionTick c" "injectors d = injectors c" "dying d = dying c"
      "length (channels d) = length (channels c)"
    and same: "\<And>b. updates c = Some b \<Longrightarrow> channels d ! b = channels c ! b \<and> in_hand b d = in_hand b c"
    and live: "live_open c \<Longrightarrow> live_open d"
  shows "shape d \<sigma>"
proof -
  have p: "parked d = parked c" using eq same by (auto simp: parked_def fresh_def split: option.splits)
  have f: "feeding d = feeding c" using eq same by (auto simp: feeding_def fun_eq_iff)
  have "pipeline d = pipeline c" using eq same by (auto simp: pipeline_def split: option.splits)
  then have d: "dumping c \<sigma> rs \<Longrightarrow> dumping d \<sigma> rs" for rs using eq live by (simp add: dumping_def)
  have a: "abandoned d \<sigma> = abandoned c \<sigma>" using eq same by (auto simp: abandoned_def)
  show ?thesis using assms(1) eq live d
    by (cases "fsm c") (auto simp: shape_def p f a split: if_splits)
qed

lemma lib_update_good:
  assumes g: "good c \<sigma>" and h: "in_hand a c" and r: "real_route (ru_Route u)"
    and p: "chan_put a u c = Some m"
  shows "\<exists>c'. m = Inr c' \<and> good c' \<sigma>"
proof -
  note f = in_handD [OF g h]
  let ?q = "buf (channels c ! a) @ [u]"
  let ?c = "c\<lparr>channels := (channels c)[a := (channels c ! a)\<lparr>buf := ?q\<rparr>]\<rparr>"
  from p f(2) have room: "length (buf (channels c ! a)) < capacity c" and m: "m = Inr ?c"
    by (auto simp: chan_put_def split: if_splits)
  have gd: "basic c" by (rule goodD(1) [OF g])
  have "channels c ! a \<in> set (channels c)" using f(1) by simp
  with gd r have "\<forall>v \<in> set ?q. real_route (ru_Route v)" by (auto simp: basic_def)
  then have "basic ?c" using room by (intro basic_chan gd) (simp_all add: capacity_def)
  moreover have "shape ?c \<sigma>"
  proof (cases "updates c = Some a")
    case True
    with f(3) goodD(2) [OF g] show ?thesis
      by (auto simp: shape_def live_open_def split: if_splits)
  next
    case False
    then show ?thesis
      by (intro shape_other [OF goodD(2) [OF g]]) (auto simp: live_open_def)
  qed
  ultimately show ?thesis using m goodD(3) [OF g] by (simp add: good_def)
qed

lemma lib_handoff_keeps:
  assumes g: "good c \<sigma>" and h: "in_hand a c" and r: "real_route (ru_Route u)"
    and u: "updates c = Some a"
  shows "keeps (case_update K u c) \<sigma> good_result"
proof -
  from in_handD(3) [OF g h u] g have "accepts c \<sigma> u"
    by (auto simp: accepts_def good_def shape_def)
  with r show ?thesis by (rule update_keeps [rotated])
qed

lemma fst_flag: "fst \<circ> (\<lambda>(b, r). (b, r \<or> b = a)) = fst"
  by auto

lemma lib_fields [simp]:
  "updates (lib_report a e c) = updates c"
  "liveUpdates (lib_report a e c) = liveUpdates c"
  "fsm (lib_report a e c) = fsm c"
  "obs (lib_report a e c) = obs c"
  "conf (lib_report a e c) = conf c"
  "transitionTick (lib_report a e c) = transitionTick c"
  "transitionTicker (lib_report a e c) = transitionTicker c"
  "transitionBackoff (lib_report a e c) = transitionBackoff c"
  "injectors (lib_report a e c) = injectors c"
  "dying (lib_report a e c) = dying c"
  "channels (lib_report a e c) = channels c"
  "updates (lib_close a c) = updates c"
  "liveUpdates (lib_close a c) = liveUpdates c"
  "fsm (lib_close a c) = fsm c"
  "obs (lib_close a c) = obs c"
  "conf (lib_close a c) = conf c"
  "transitionTick (lib_close a c) = transitionTick c"
  "transitionTicker (lib_close a c) = transitionTicker c"
  "transitionBackoff (lib_close a c) = transitionBackoff c"
  "injectors (lib_close a c) = injectors c"
  "dying (lib_close a c) = dying c"
  "channels (lib_close a c) = (channels c)[a := (channels c ! a)\<lparr>closed := True\<rparr>]"
  by (simp_all add: lib_report_def lib_close_def)

lemma in_hand_report [simp]: "in_hand b (lib_report a e c) = in_hand b c"
  by (simp add: in_hand_def lib_report_def fst_flag flip: image_comp set_map)

lemma lib_report_good:
  assumes g: "good c \<sigma>"
  shows "good (lib_report a e c) \<sigma>"
proof -
  have "basic (lib_report a e c)"
    using goodD(1) [OF g] by (auto simp: basic_def lib_report_def fst_flag)
  moreover have "shape (lib_report a e c) \<sigma>"
    by (intro shape_other [OF goodD(2) [OF g]]) (auto simp: live_open_def)
  ultimately show ?thesis using goodD(3) [OF g] by (simp add: good_def lib_report_def)
qed

lemma in_hand_close [simp]: "in_hand b (lib_close a c) \<longleftrightarrow> b \<noteq> a \<and> in_hand b c"
  by (force simp: in_hand_def lib_close_def)

lemma lib_close_good:
  assumes g: "good c \<sigma>" and r: "(a, True) \<in> set (subscriptions c)"
  shows "good (lib_close a c) \<sigma>"
proof -
  have h: "in_hand a c" using r by (force simp: in_hand_def)
  note f = in_handD [OF g h]
  have gd: "basic c" by (rule goodD(1) [OF g])
  let ?d = "c\<lparr>subscriptions := filter (\<lambda>(b, r). b \<noteq> a) (subscriptions c)\<rparr>"
  have "basic ?d" using gd by (auto simp: basic_def distinct_map_filter)
  moreover have "\<not> in_hand a ?d" by (auto simp: in_hand_def)
  moreover have "liveUpdates ?d = Some a \<longrightarrow> subscribeError ?d \<noteq> None"
    using gd r by (auto simp: basic_def)
  ultimately have "basic (lib_close a c)" using basic_close [of ?d a] by (simp add: lib_close_def)
  moreover have "shape (lib_close a c) \<sigma>"
  proof (cases "updates c = Some a")
    case True
    with f goodD(2) [OF g] show ?thesis
      by (auto simp: shape_def live_open_def split: if_splits)
  next
    case False
    then show ?thesis using f(1)
      by (intro shape_other [OF goodD(2) [OF g]]) (auto simp: live_open_def nth_list_update)
  qed
  ultimately show ?thesis using goodD(3) [OF g] by (simp add: good_def lib_close_def)
qed

section \<open>Every documented step\<close>

lemma next_keeps:
  assumes g: "good c \<sigma>" and d: "documented c ev" and m: "nl_next L ev c = Some m"
  shows "keeps m \<sigma> good_result"
proof (cases ev)
  case Kill
  with m kill_good [OF g] show ?thesis by (auto simp: nl_next_def wp)
next
  case (AddSubscriber cb)
  with m subscriber_keeps [OF g, of cb] show ?thesis by (auto simp: nl_next_def wp)
next
  case (Loop K cs)
  with m d select_keeps [OF g] show ?thesis by (auto simp: nl_next_def documented_def)
next
  case (InjSelect i)
  with m inject_select_good [OF g] show ?thesis
    by (auto simp: nl_next_def silent_def wp split: if_splits)
next
  case (InjSend i)
  with m inject_send_keeps [OF g] show ?thesis by (auto simp: nl_next_def split: if_splits)
next
  case (InjHandoff i K)
  with m d handoff_keeps [OF g] show ?thesis by (auto simp: nl_next_def documented_def split: if_splits)
next
  case (InjClose i)
  with m inject_close_keeps [OF g] show ?thesis by (auto simp: nl_next_def split: if_splits)
next
  case (InjDying i)
  with m inject_dying_good [OF g] show ?thesis
    by (auto simp: nl_next_def silent_def wp split: if_splits)
next
  case (LibUpdate a u)
  with m d have "in_hand a c" "real_route (ru_Route u)"
    by (auto simp: nl_next_def documented_def split: if_splits)
  with LibUpdate m lib_update_good [OF g this] show ?thesis by (fastforce simp: nl_next_def wp)
next
  case (LibHandoff a u K)
  with m d lib_handoff_keeps [OF g] show ?thesis
    by (auto simp: nl_next_def documented_def split: if_splits)
next
  case (LibError a e)
  with m lib_report_good [OF g] show ?thesis by (auto simp: nl_next_def wp split: if_splits)
next
  case (LibClose a)
  with m d lib_close_good [OF g] show ?thesis
    by (auto simp: nl_next_def documented_def wp split: if_splits)
qed

text \<open>The invariant of a run: no panic, and the subscriber's contract holds of its trace.\<close>

definition run_good :: "'x netlink_run \<Rightarrow> bool" where
  "run_good s \<longleftrightarrow> (\<forall>p. nl_phase s \<noteq> Panicked p)
     \<and> (\<exists>\<sigma>. observe_all no_session (nl_trace s) = Some \<sigma> \<and> good (nl_comp s) \<sigma>)"

lemma good_New: "good (netlink_New cfg) no_session"
  by (simp add: good_def basic_def shape_def parked_def netlink_New_def no_session_def newObserver_def
      observer_ok_def)

lemma documented_step_good:
  assumes "run_good s" and "documented_step L s ev t"
  shows "run_good t"
proof -
  from assms(1) obtain \<sigma> where o: "observe_all no_session (nl_trace s) = Some \<sigma>" and g: "good (nl_comp s) \<sigma>"
    by (auto simp: run_good_def)
  from assms(2) have "nl_step L s ev t" and d: "documented (nl_comp s) ev"
    by (simp_all add: documented_step_def)
  then show ?thesis
  proof (cases rule: nl_step.cases)
    case (nl_step_next c es)
    with next_keeps [OF g d nl_step_next(3)] o assms(1) show ?thesis
      by (auto simp: keeps_def run_good_def)
  next
    case (nl_step_exit c es)
    with next_keeps [OF g d nl_step_exit(3)] o assms(1) show ?thesis
      by (auto simp: keeps_def run_good_def)
  next
    case (nl_step_panic p)
    with next_keeps [OF g d nl_step_panic(3)] show ?thesis by (simp add: keeps_def)
  qed
qed

interpretation nl: step_system "nl_start cfg" "documented_step L" run_good
  for cfg :: netlink_config and L :: "'x netlink_lib"
proof
  show "run_good s" if "nl_start cfg s" for s :: "'x netlink_run"
    using that by (auto simp: run_good_def nl_start_def good_New)
qed (rule documented_step_good)

end
