(* ===== verification/Netlink_Properties.thy ===== *)
theory Netlink_Properties
  imports Netlink_Invariant
begin

text \<open>
  What the netlink component guarantees: it never panics, its subscriber gets complete dumps, it
  reads the live channel and reports its loss, it never hangs, and it stops when asked to.
\<close>

section \<open>Running a list of events\<close>

definition nl_do :: "'x netlink_lib \<Rightarrow> 'x nl_event \<Rightarrow> 'x netlink_run \<Rightarrow> 'x netlink_run option" where
  "nl_do L ev s =
     (if nl_may (nl_phase s) ev then
        (case nl_next L ev (nl_comp s) of
           None \<Rightarrow> None
         | Some (Inl p) \<Rightarrow> Some (s\<lparr>nl_phase := Panicked p\<rparr>)
         | Some (Inr (Next c, es)) \<Rightarrow> Some (s\<lparr>nl_comp := c, nl_trace := nl_trace s @ es\<rparr>)
         | Some (Inr (Exit c, es)) \<Rightarrow>
             Some (s\<lparr>nl_phase := Returned, nl_comp := c, nl_trace := nl_trace s @ es\<rparr>))
      else None)"

lemma nl_do_step: "nl_do L ev s = Some t \<longleftrightarrow> nl_step L s ev t"
proof
  assume "nl_do L ev s = Some t"
  then show "nl_step L s ev t"
    by (auto simp: nl_do_def intro: nl_step.intros
        split: if_splits option.splits sum.splits prod.splits nl_result.splits)
next
  assume "nl_step L s ev t"
  then show "nl_do L ev s = Some t"
    by (cases rule: nl_step.cases) (simp_all add: nl_do_def)
qed

fun nl_exec :: "'x netlink_lib \<Rightarrow> 'x nl_event list \<Rightarrow> 'x netlink_run \<Rightarrow> 'x netlink_run option" where
  "nl_exec L [] s = Some s"
| "nl_exec L (ev # evs) s = (case nl_do L ev s of None \<Rightarrow> None | Some t \<Rightarrow> nl_exec L evs t)"

text \<open>Events that the library's documentation allows in every state.\<close>

definition plain_event :: "'x nl_event \<Rightarrow> bool" where
  "plain_event ev = (case ev of Loop K cs \<Rightarrow> real_kernel K | InjHandoff i K \<Rightarrow> real_kernel K
     | LibUpdate a u \<Rightarrow> False | LibHandoff a u K \<Rightarrow> False | LibClose a \<Rightarrow> False | _ \<Rightarrow> True)"

lemma nl_reach_do:
  "nl_reach L cfg s \<Longrightarrow> documented (nl_comp s) ev \<Longrightarrow> nl_do L ev s = Some t \<Longrightarrow> nl_reach L cfg t"
  unfolding nl_reach_def by (auto simp: nl_do_step documented_step_def intro: reach_step)

lemma nl_reach_exec:
  "nl_reach L cfg s \<Longrightarrow> list_all plain_event evs \<Longrightarrow> nl_exec L evs s = Some t \<Longrightarrow> nl_reach L cfg t"
proof (induction evs arbitrary: s)
  case (Cons ev evs)
  then obtain u where u: "nl_do L ev s = Some u" by (auto split: option.splits)
  have "documented (nl_comp s) ev" using Cons.prems(2) by (cases ev) (simp_all add: plain_event_def documented_def)
  from nl_reach_do [OF Cons.prems(1) this u] have "nl_reach L cfg u" .
  with Cons u show ?case by simp
qed simp

definition nl_init :: "netlink_config \<Rightarrow> 'x netlink_run" where
  "nl_init cfg = \<lparr>nl_phase = Running, nl_comp = netlink_New cfg, nl_trace = []\<rparr>"

lemma nl_reach_init: "nl_reach L cfg (nl_init cfg)"
  unfolding nl_reach_def by (rule reach_start) (simp add: nl_start_def nl_init_def)

lemmas nl_reach_good = nl.reach_inv [folded nl_reach_def]

lemma nl_reachE:
  assumes "nl_reach L cfg s"
  obtains \<sigma> where "observe_all no_session (nl_trace s) = Some \<sigma>" "good (nl_comp s) \<sigma>"
    "\<And>p. nl_phase s \<noteq> Panicked p"
  using nl_reach_good [OF assms] by (auto simp: run_good_def)

section \<open>An example\<close>

definition kernel_with :: "'x route list \<Rightarrow> 'x route list \<Rightarrow> 'x kernel" where
  "kernel_with rs4 rs6 = \<lparr>subscribe_answer = None,
     list_answer = (\<lambda>f. Inr (if f = FAMILY_V4 then rs4 else rs6)), replace_answer = (\<lambda>_. None)\<rparr>"

lemma real_kernel_with [simp]:
  "real_kernel (kernel_with rs4 rs6) \<longleftrightarrow> list_all real_route rs4 \<and> list_all real_route rs6"
proof
  assume "real_kernel (kernel_with rs4 rs6)"
  then have "list_all real_route (if f = FAMILY_V4 then rs4 else rs6)" for f
    by (simp add: real_kernel_def kernel_with_def)
  from this [of FAMILY_V4] this [of FAMILY_V6]
  show "list_all real_route rs4 \<and> list_all real_route rs6" by simp
qed (auto simp: real_kernel_def kernel_with_def)

definition main_route :: "nat \<Rightarrow> nat route" where
  "main_route n = \<lparr>Dst = None, Protocol = 4, Priority = 0, Table = 254, Tos = 0, rt_Type = 1, rt_rest = n\<rparr>"

lemma real_main_route [simp]: "real_route (main_route n)"
  by (simp add: real_route_def main_route_def RT_TABLE_UNSPEC_def)

text \<open>A subscriber comes, and the first dump runs to its end.\<close>

definition first_sync :: "nat nl_event list" where
  "first_sync = (let K = kernel_with [main_route 1] [main_route 2] in
     [AddSubscriber (Some 7), Loop K NlSubscribed, InjSelect 0, InjSend 0, Loop K NlUpdate,
      InjClose 0, Loop K NlUpdate, InjSelect 0, InjSend 0, InjClose 0, Loop K NlUpdate,
      Loop K NlUpdate])"

lemma plain_first_sync: "list_all plain_event first_sync"
  by (simp add: first_sync_def plain_event_def Let_def)

definition synced_run :: "nat netlink_run" where
  "synced_run = the (nl_exec plain_lib first_sync (nl_init DefaultConfiguration))"

lemmas nl_eval = first_sync_def synced_run_def nl_init_def nl_do_def nl_may_def of_run_def nl_next_def
  nl_select_def netlink_New_def newObserver_def Subscribe_def close_signal_def case_subscribed_def
  transition_def transition_start_def transition_ipv4_def transition_ipv6_def make_chan_def
  notify_all_def injectRoutes_def kernel_with_def silent_def next_state_def inject_select_def
  inject_send_def inject_close_def inject_advance_def drop_injector_def chan_put_def chan_close_def
  capacity_def DefaultConfiguration_def receive_def case_update_def case_closed_def
  go_bind_def go_emit_def go_return_def

lemma first_sync_runs:
  "nl_exec plain_lib first_sync (nl_init DefaultConfiguration) = Some synced_run"
proof -
  have "nl_exec plain_lib first_sync (nl_init DefaultConfiguration) \<noteq> None"
    by (simp add: nl_eval Let_def zero_update_def RT_TABLE_UNSPEC_def new_update_def main_route_def)
  then show ?thesis by (auto simp: synced_run_def)
qed

lemma synced_run_reach: "nl_reach plain_lib DefaultConfiguration synced_run"
  by (rule nl_reach_exec [OF nl_reach_init plain_first_sync first_sync_runs])

lemma synced_run_state:
  "nl_phase synced_run = Running" "fsm (nl_comp synced_run) = updateRoutes"
  "transitionTick (nl_comp synced_run) = None" "subscribed (obs (nl_comp synced_run)) = NilChan"
  "subscriptions (nl_comp synced_run) = [(0, False)]" "liveUpdates (nl_comp synced_run) = Some 0"
  "updates (nl_comp synced_run) = Some 0" "length (channels (nl_comp synced_run)) = 3"
  "channels (nl_comp synced_run) ! 0 = \<lparr>buf = [], closed = False\<rparr>"
  "conf (nl_comp synced_run) = DefaultConfiguration" "\<not> dying (nl_comp synced_run)"
  by (simp_all add: nl_eval Let_def zero_update_def RT_TABLE_UNSPEC_def new_update_def main_route_def)

lemma synced_run_notifications:
  "filter (\<lambda>e. case e of Notify cb n \<Rightarrow> True | _ \<Rightarrow> False) (nl_trace synced_run) =
     map (Notify (Some 7)) [start_of_rib, route_notif (new_update (main_route 1)),
       route_notif (new_update (main_route 2)), end_of_rib]"
  by (simp add: nl_eval Let_def zero_update_def RT_TABLE_UNSPEC_def new_update_def main_route_def)

section \<open>Safety\<close>



text \<open>
  C19. Dumps are complete and in order: whenever the component announces the end of the initial
  RIB, the updates it handed over since the last start are exactly the IPv4 routes the kernel
  listed since, in order, followed by the IPv6 ones; and no update is handed over before the
  first start.
\<close>

theorem dump_complete_and_in_order:
  assumes "nl_reach L cfg s" and "nl_trace s = xs @ Notify cb n # ys"
  shows "\<exists>\<sigma>. observe_all no_session xs = Some \<sigma>
     \<and> (n = end_of_rib \<longrightarrow> mode \<sigma> = Dumping
          \<and> since_start \<sigma> = map new_update (listed4 \<sigma> @ listed6 \<sigma>))
     \<and> (\<forall>u. n = route_notif u \<longrightarrow> mode \<sigma> \<noteq> Unsynced)"
  using assms by (auto elim!: nl_reachE split: option.splits if_splits)

theorem dump_complete_and_in_order_witness:
  "\<exists>xs ys \<sigma>. nl_trace synced_run = xs @ Notify (Some 7) end_of_rib # ys
     \<and> observe_all no_session xs = Some \<sigma> \<and> mode \<sigma> = Dumping
     \<and> since_start \<sigma> = map new_update (listed4 \<sigma> @ listed6 \<sigma>)"
proof -
  have "Notify (Some 7) end_of_rib \<in> set (filter (\<lambda>e. case e of Notify cb n \<Rightarrow> True | _ \<Rightarrow> False)
      (nl_trace synced_run))"
    unfolding synced_run_notifications by simp
  then have "Notify (Some 7) end_of_rib \<in> set (nl_trace synced_run)" by simp
  then obtain xs ys where t: "nl_trace synced_run = xs @ Notify (Some 7) end_of_rib # ys"
    by (auto dest: split_list)
  from dump_complete_and_in_order [OF synced_run_reach t] t show ?thesis by auto
qed

text \<open>
  In state \<^verbatim>\<open>updateRoutes\<close> with no transition pending, the loop reads the channel of the live
  updates, and that channel is open in the library's hands or its loss is still to be noticed.
\<close>

theorem live_channel_is_read:
  assumes "nl_reach L cfg s" and "c = nl_comp s" and "fsm c = updateRoutes" and "transitionTick c = None"
  shows "\<exists>a. updates c = Some a \<and> liveUpdates c = Some a
     \<and> (in_hand a c \<or> closed (channels c ! a) \<and> subscribeError c \<noteq> None)"
proof -
  obtain \<sigma> where "good c \<sigma>" using assms(1,2) by (auto elim: nl_reachE)
  with assms(3,4) show ?thesis by (auto simp: good_def shape_def live_open_def basic_def)
qed

theorem live_channel_is_read_witness:
  "updates (nl_comp synced_run) = Some 0 \<and> in_hand 0 (nl_comp synced_run)"
  using live_channel_is_read [OF synced_run_reach refl synced_run_state(2,3)]
    synced_run_state(7,9) by auto

section \<open>Loss of updates\<close>

text \<open>
  C20. When the live channel is closed, the component reports why and arms a ticker with the
  configured backoff, whatever the reason: an overflow of the receive buffer is only logged and
  counted, any other error raises an alert and is counted as unknown. It then reads no channel
  until the ticker fires.
\<close>

theorem live_loss_is_reported:
  assumes "nl_reach L cfg s" and "c = nl_comp s" and "fsm c = updateRoutes" and "transitionTick c = None"
    and "updates c = Some a" and "closed (channels c ! a)" and "buf (channels c ! a) = []"
  shows "\<exists>e c' es. subscribeError c = Some e
     \<and> nl_select L K NlUpdate c = Some (Inr (Next c', es))
     \<and> updates c' = None \<and> fsm c' = updateRoutes \<and> transitionTick c' = Some (tickers c)
     \<and> TickerStart (tickers c) (transition_backoff (conf c)) \<in> set es
     \<and> (if e = Errno ENOBUFS
        then Count ''error.overflow'' \<in> set es \<and> (\<forall>f m. ReportError f m \<notin> set es)
        else ReportError (Wrapped e ''fatal error while receiving route updates'') '''' \<in> set es
          \<and> Count (if \<exists>k. e = Errno k then ''error.unknown1'' else ''error.unknown2'') \<in> set es)"
proof -
  obtain \<sigma> where g: "good c \<sigma>" using assms(1,2) by (auto elim: nl_reachE)
  with assms(3-5) have "liveUpdates c = Some a" by (auto simp: good_def shape_def)
  with g assms(6) obtain e where e: "subscribeError c = Some e"
    by (auto simp: good_def basic_def)
  have sel: "nl_select L K NlUpdate c = Some (case_closed K c)"
    using assms(5-7) by (simp add: nl_select_def receive_def case_update_def zero_update_def RT_TABLE_UNSPEC_def)
  show ?thesis
    by (cases e) (auto simp: sel e case_closed_def assms(3,4) report_lost_updates_def report_fatal_def
        sleep_before_transition_def arm_transition_def arm_cure_def Let_def go_bind_def go_emit_def
        go_return_def)
qed

definition lost_run :: "nat netlink_run" where
  "lost_run = synced_run\<lparr>nl_comp := lib_close 0 (lib_report 0 (Errno ENOBUFS) (nl_comp synced_run))\<rparr>"

lemma lost_run_reach: "nl_reach plain_lib DefaultConfiguration lost_run"
proof -
  let ?r = "synced_run\<lparr>nl_comp := lib_report 0 (Errno ENOBUFS) (nl_comp synced_run)\<rparr>"
  have h: "in_hand 0 (nl_comp synced_run)" by (simp add: in_hand_def synced_run_state)
  have "nl_do plain_lib (LibError 0 (Errno ENOBUFS)) synced_run = Some ?r"
    by (simp add: nl_do_def nl_may_def nl_next_def h synced_run_state go_return_def)
  from nl_reach_do [OF synced_run_reach _ this] have "nl_reach plain_lib DefaultConfiguration ?r"
    by (simp add: documented_def)
  moreover have "nl_do plain_lib (LibClose 0) ?r = Some lost_run"
    by (simp add: nl_do_def nl_may_def nl_next_def synced_run_state go_return_def lost_run_def h)
  moreover have "documented (nl_comp ?r) (LibClose 0)"
    by (simp add: documented_def lib_report_def synced_run_state)
  ultimately show ?thesis using nl_reach_do by blast
qed

lemma lost_run_state:
  "fsm (nl_comp lost_run) = updateRoutes" "transitionTick (nl_comp lost_run) = None"
  "updates (nl_comp lost_run) = Some 0" "closed (channels (nl_comp lost_run) ! 0)"
  "buf (channels (nl_comp lost_run) ! 0) = []" "subscribeError (nl_comp lost_run) = Some (Errno ENOBUFS)"
  "conf (nl_comp lost_run) = DefaultConfiguration" "nl_phase lost_run = Running"
  by (simp_all add: lost_run_def synced_run_state nth_list_update)
     (simp add: lib_close_def lib_report_def)

theorem live_loss_is_reported_witness:
  "\<exists>c' es. nl_select plain_lib (kernel_with [] []) NlUpdate (nl_comp lost_run) = Some (Inr (Next c', es))
     \<and> updates c' = None \<and> Count ''error.overflow'' \<in> set es"
  using live_loss_is_reported [OF lost_run_reach refl lost_run_state(1-5), of "kernel_with [] []"]
  by (auto simp: lost_run_state)

section \<open>Progress\<close>

text \<open>The steps that advance a synchronisation on their own, with the kernel answering \<open>K\<close>.\<close>

definition own_step :: "'x kernel \<Rightarrow> 'x nl_event \<Rightarrow> bool" where
  "own_step K ev \<longleftrightarrow> ev \<in> {Loop K NlTick, Loop K NlSubscribed, Loop K NlUpdate}
     \<or> (\<exists>i. ev \<in> {InjSelect i, InjSend i, InjClose i, InjHandoff i K})"

text \<open>Nothing is left to do: the subscriber has everything, and the live channel is open.\<close>

definition in_sync :: "'x netlink_run \<Rightarrow> bool" where
  "in_sync s \<longleftrightarrow> (let c = nl_comp s in fsm c = updateRoutes \<and> transitionTick c = None \<and> injectors c = []
     \<and> (\<exists>a. updates c = Some a \<and> liveUpdates c = Some a \<and> in_hand a c \<and> buf (channels c ! a) = [])
     \<and> (\<exists>\<sigma>. observe_all no_session (nl_trace s) = Some \<sigma> \<and> mode \<sigma> = Synced))"

lemma fed_progress:
  assumes "fed c \<sigma> a j"
  shows "\<exists>ev. own_step K ev \<and> nl_next L ev c \<noteq> None"
proof -
  note f = fedD [OF assms]
  show ?thesis
  proof (cases "at j = Head")
    case True
    then show ?thesis
    proof (cases "todo j = []")
      case True
      with f \<open>at j = Head\<close> show ?thesis
        by (intro exI [of _ "InjClose 0"]) (simp add: own_step_def nl_next_def inject_close_def)
    next
      case False
      with f \<open>at j = Head\<close> show ?thesis
        by (intro exI [of _ "InjSelect 0"])
           (simp add: own_step_def nl_next_def inject_select_def silent_def Let_def)
    qed
  next
    case False
    with f have j: "at j = Sending (Some a)" "todo j \<noteq> []" by (auto simp: feeds_def)
    then obtain r rs where todo: "todo j = r # rs" by (cases "todo j") auto
    consider "buf (channels c ! a) \<noteq> []" | "buf (channels c ! a) = []" "capacity c = 0"
      | "buf (channels c ! a) = []" "0 < capacity c" by blast
    then show ?thesis
    proof cases
      case 1
      with f show ?thesis
        by (intro exI [of _ "Loop K NlUpdate"])
           (auto simp: own_step_def nl_next_def nl_select_def receive_def split: list.splits)
    next
      case 2
      with f j todo show ?thesis
        by (intro exI [of _ "InjHandoff 0 K"]) (simp add: own_step_def nl_next_def nl_handoff_def)
    next
      case 3
      with f j todo show ?thesis
        by (intro exI [of _ "InjSend 0"]) (simp add: own_step_def nl_next_def inject_send_def chan_put_def)
    qed
  qed
qed

lemma receive_progress:
  fixes c :: "'x netlink"
  assumes "updates c = Some a" and "buf (channels c ! a) \<noteq> [] \<or> closed (channels c ! a)"
  shows "\<exists>ev. own_step K ev \<and> nl_next L ev c \<noteq> None"
proof -
  have "receive L c \<noteq> None"
    using assms(2) by (cases "buf (channels c ! a)") (simp_all add: receive_def assms(1))
  then have "nl_next L (Loop K NlUpdate) c \<noteq> None"
    by (auto simp: nl_next_def nl_select_def)
  then show ?thesis by (intro exI [of _ "Loop K NlUpdate"]) (simp add: own_step_def)
qed

lemma feeding_progress:
  assumes g: "good c \<sigma>" and f: "feeding c fam"
  shows "\<exists>ev. own_step K ev \<and> nl_next L ev c \<noteq> None"
proof -
  from f obtain a where a: "updates c = Some a"
    and inj: "if closed (channels c ! a) then injectors c = [] else \<exists>j. injectors c = [j] \<and> feeds a fam j"
    by (auto simp: feeding_def)
  show ?thesis
  proof (cases "closed (channels c ! a)")
    case True
    then show ?thesis using receive_progress [OF a] by blast
  next
    case False
    with inj have "0 < length (injectors c)" by auto
    from injector_facts [OF g this] fed_progress show ?thesis by metis
  qed
qed

lemma progress_or_sync:
  assumes g: "good c \<sigma>" and sub: "subscribed (obs c) \<noteq> Open" and alive: "\<not> dying c"
  shows "(\<exists>ev. own_step K ev \<and> nl_next L ev c \<noteq> None)
     \<or> (fsm c = updateRoutes \<and> transitionTick c = None \<and> injectors c = [] \<and> mode \<sigma> = Synced
        \<and> (\<exists>a. updates c = Some a \<and> liveUpdates c = Some a \<and> in_hand a c \<and> buf (channels c ! a) = []))"
proof -
  note gd = goodD [OF g]
  have na: "\<not> abandoned c \<sigma>" using alive by (simp add: abandoned_def)
  have tick: "\<exists>ev. own_step K ev \<and> nl_next L ev c \<noteq> None" if "transitionTick c \<noteq> None"
    using that by (intro exI [of _ "Loop K NlTick"]) (auto simp: own_step_def nl_next_def nl_select_def)
  show ?thesis
  proof (cases "fsm c")
    case idle
    with gd(3) sub have "subscribed (obs c) = Closed" by (cases "subscribed (obs c)") simp_all
    then show ?thesis
      by (intro disjI1 exI [of _ "Loop K NlSubscribed"]) (simp add: own_step_def nl_next_def nl_select_def)
  next
    case ipv4Routes
    with gd(2) na tick feeding_progress [OF g] show ?thesis by (auto simp: shape_def split: if_splits)
  next
    case ipv6Routes
    with gd(2) na feeding_progress [OF g] show ?thesis by (auto simp: shape_def)
  next
    case updateRoutes
    show ?thesis
    proof (cases "transitionTick c = None")
      case False
      with tick show ?thesis by blast
    next
      case True
      with updateRoutes gd(2) have s: "injectors c = []" "live_open c" "updates c = liveUpdates c" "mode \<sigma> = Synced"
        by (simp_all add: shape_def)
      then obtain a where a: "updates c = Some a" "in_hand a c \<or> closed (channels c ! a)"
        by (auto simp: live_open_def)
      with s updateRoutes True receive_progress [OF a(1)] show ?thesis by metis
    qed
  qed
qed

lemma progress_or_sync_step:
  assumes "nl_reach L cfg s" and "nl_phase s = Running"
    and "subscribed (obs (nl_comp s)) \<noteq> Open" and "\<not> dying (nl_comp s)"
  shows "(\<exists>ev t. own_step K ev \<and> nl_step L s ev t) \<or> in_sync s"
proof -
  obtain \<sigma> where o: "observe_all no_session (nl_trace s) = Some \<sigma>" and g: "good (nl_comp s) \<sigma>"
    using assms(1) by (rule nl_reachE)
  have "\<exists>t. nl_step L s ev t" if n: "nl_next L ev (nl_comp s) \<noteq> None" for ev
  proof -
    from n assms(2) have "nl_do L ev s \<noteq> None"
      by (auto simp: nl_do_def nl_may_def split: option.splits sum.splits prod.splits nl_result.splits)
    then show ?thesis by (auto simp: nl_do_step)
  qed
  with progress_or_sync [OF g assms(3,4), of K L] o show ?thesis
    by (auto simp: in_sync_def Let_def)
qed

text \<open>
  The component never hangs: once somebody subscribed and until it is stopped, either it can
  take a step of its own, or the subscriber has received everything and the live channel is open.
\<close>

theorem netlink_never_stuck:
  assumes "nl_reach L cfg s" and "nl_phase s = Running"
    and "subscribed (obs (nl_comp s)) \<noteq> Open" and "\<not> dying (nl_comp s)"
  shows "(\<exists>ev t. own_step K ev \<and> nl_step L s ev t) \<or> in_sync s"
  using assms by (rule progress_or_sync_step)

theorem netlink_never_stuck_witness:
  "\<exists>ev t. own_step (kernel_with [] []) ev \<and> nl_step plain_lib lost_run ev t"
proof -
  have "subscribed (obs (nl_comp lost_run)) \<noteq> Open" "\<not> dying (nl_comp lost_run)"
    by (simp_all add: lost_run_def synced_run_state)
  moreover have "\<not> in_sync lost_run"
    by (simp add: in_sync_def Let_def lost_run_state(3)) (simp add: lost_run_def)
  ultimately show ?thesis using netlink_never_stuck [OF lost_run_reach lost_run_state(8)] by blast
qed

section \<open>Stopping\<close>

lemma documented_exec1:
  assumes "nl_do L ev s = Some t" and "documented (nl_comp s) ev"
  shows "documented_step L s ev t"
  using assms by (simp add: documented_step_def nl_do_step)

text \<open>The steps of an injection goroutine that nobody else takes part in.\<close>

definition of_injector :: "'x nl_event \<Rightarrow> bool" where
  "of_injector ev \<longleftrightarrow> (case ev of InjSelect i \<Rightarrow> True | InjClose i \<Rightarrow> True | InjDying i \<Rightarrow> True | _ \<Rightarrow> False)"

lemma injectors_end:
  assumes g: "good (nl_comp r) \<sigma>" and d: "dying (nl_comp r)" and p: "nl_phase r = Returned"
  shows "\<exists>t es. execution (documented_step L) r es t \<and> nl_phase t = Returned \<and> injectors (nl_comp t) = []
     \<and> nl_trace t = nl_trace r \<and> list_all of_injector es"
proof (cases "injectors (nl_comp r) = []")
  case True
  with p show ?thesis by (intro exI [of _ r] exI [of _ "[]"]) (simp add: execution_nil)
next
  case False
  define c where "c = nl_comp r"
  from False have "0 < length (injectors (nl_comp r))" by simp
  from injector_facts [OF g this] obtain a j where "fed c \<sigma> a j" unfolding c_def by metis
  note f = fedD [OF this]
  let ?quiet = "r\<lparr>nl_comp := c\<lparr>injectors := []\<rparr>\<rparr>"
  have one: "\<exists>t es. execution (documented_step L) r es t \<and> nl_phase t = Returned
      \<and> injectors (nl_comp t) = [] \<and> nl_trace t = nl_trace r \<and> list_all of_injector es"
    if "execution (documented_step L) r es0 r0" "documented_step L r0 ev r1"
      "nl_phase r1 = Returned" "injectors (nl_comp r1) = []" "nl_trace r1 = nl_trace r"
      "list_all of_injector (es0 @ [ev])"
    for r0 r1 es0 ev
    using that by (blast intro: execution_snoc)
  consider "at j = Head" "todo j = []" | "at j = Head" "todo j \<noteq> []" | "at j \<noteq> Head" by blast
  then show ?thesis
  proof cases
    case 1
    let ?t = "r\<lparr>nl_comp := c\<lparr>channels := (channels c)[a := (channels c ! a)\<lparr>closed := True\<rparr>], injectors := []\<rparr>\<rparr>"
    have "nl_do L (InjClose 0) r = Some ?t"
      using f 1 p by (simp add: nl_do_def nl_may_def of_run_def nl_next_def inject_close_def chan_close_def
          next_state_def drop_injector_def c_def [symmetric] go_return_def go_bind_def)
    from documented_exec1 [OF this] show ?thesis
      using one [OF execution_nil, of "InjClose 0" ?t] p by (simp add: documented_def of_injector_def)
  next
    case 2
    let ?m = "r\<lparr>nl_comp := c\<lparr>injectors := [j\<lparr>at := Sending (Some a)\<rparr>]\<rparr>\<rparr>"
    have "nl_do L (InjSelect 0) r = Some ?m"
      using f 2 p by (simp add: nl_do_def nl_may_def of_run_def nl_next_def inject_select_def Let_def
          silent_def c_def [symmetric] go_return_def)
    from documented_exec1 [OF this] have m: "execution (documented_step L) r [InjSelect 0] ?m"
      using execution_snoc [OF execution_nil] by (force simp: documented_def)
    have "nl_do L (InjDying 0) ?m = Some ?quiet"
      using f p d by (simp add: nl_do_def nl_may_def of_run_def nl_next_def inject_dying_def
          silent_def c_def go_return_def drop_injector_def)
    from documented_exec1 [OF this] show ?thesis
      using one [OF m, of "InjDying 0" ?quiet] p by (simp add: documented_def of_injector_def)
  next
    case 3
    have "nl_do L (InjDying 0) r = Some ?quiet"
      using f 3 p d by (simp add: nl_do_def nl_may_def of_run_def nl_next_def inject_dying_def
          silent_def c_def go_return_def drop_injector_def)
    from documented_exec1 [OF this] show ?thesis
      using one [OF execution_nil, of "InjDying 0" ?quiet] p by (simp add: documented_def of_injector_def)
  qed
qed

text \<open>The loop sees that it should end.\<close>

lemma dying_loop_returns:
  assumes "nl_reach L cfg s" and "dying (nl_comp s)" and "nl_phase s = Running"
  defines "r \<equiv> s\<lparr>nl_phase := Returned,
     nl_trace := nl_trace s @ (case transitionTick (nl_comp s) of None \<Rightarrow> [] | Some k \<Rightarrow> [TickerHalt k])\<rparr>"
  shows "nl_step L s (Loop K NlDying) r"
proof -
  obtain \<sigma> where g: "good (nl_comp s) \<sigma>" using assms(1) by (rule nl_reachE)
  have "nl_do L (Loop K NlDying) s = Some r"
    using assms(2,3) basic_ticker [OF goodD(1) [OF g]]
    by (cases "transitionTick (nl_comp s)")
       (simp_all add: nl_do_def nl_may_def nl_next_def nl_select_def case_dying_def halt_ticker_def
          go_bind_def go_emit_def go_return_def r_def)
  then show ?thesis by (simp add: nl_do_step)
qed

text \<open>
  C21. The component stops when asked to: in every reachable state in which it is dying and its
  loop still runs, the loop can return at once, stopping its ticker; and from there the injection
  goroutines can end although nobody reads from their channel any more.
\<close>

theorem netlink_stops:
  assumes "nl_reach L cfg s" and "dying (nl_comp s)" and "nl_phase s = Running"
  shows "\<exists>r t es. nl_step L s (Loop K NlDying) r
     \<and> execution (documented_step L) r es t \<and> nl_phase t = Returned \<and> injectors (nl_comp t) = []
     \<and> nl_trace t = nl_trace s @ (case transitionTick (nl_comp s) of None \<Rightarrow> [] | Some k \<Rightarrow> [TickerHalt k])"
proof -
  obtain \<sigma> where g: "good (nl_comp s) \<sigma>" using assms(1) by (rule nl_reachE)
  let ?r = "s\<lparr>nl_phase := Returned,
     nl_trace := nl_trace s @ (case transitionTick (nl_comp s) of None \<Rightarrow> [] | Some k \<Rightarrow> [TickerHalt k])\<rparr>"
  have "nl_step L s (Loop K NlDying) ?r" by (rule dying_loop_returns [OF assms])
  with injectors_end [of ?r \<sigma> L] g assms(2) show ?thesis by auto
qed

definition stopping_run :: "nat netlink_run" where
  "stopping_run = lost_run\<lparr>nl_comp := (nl_comp lost_run)\<lparr>dying := True\<rparr>\<rparr>"

lemma stopping_run_reach: "nl_reach plain_lib DefaultConfiguration stopping_run"
proof -
  have "nl_do plain_lib Kill lost_run = Some stopping_run"
    by (simp add: nl_do_def nl_may_def nl_next_def lost_run_state(8) go_return_def stopping_run_def)
  from nl_reach_do [OF lost_run_reach _ this] show ?thesis by (simp add: documented_def)
qed

theorem netlink_stops_witness:
  "\<exists>r. nl_step plain_lib stopping_run (Loop (kernel_with [] []) NlDying) r"
proof -
  have "dying (nl_comp stopping_run)" "nl_phase stopping_run = Running"
    by (simp_all add: stopping_run_def lost_run_state)
  from netlink_stops [OF stopping_run_reach this] show ?thesis by blast
qed

end
