(* ===== verification/Resync_Flow.thy ===== *)
theory Resync_Flow
  imports Gateways_Component Netlink_Properties
begin

text \<open>
  The netlink component and a gateway together: what the gateways know is what the kernel listed
  at the last synchronisation, changed by the updates that came after it, whatever was known
  before. The notifications of a run of the netlink component are those the callback of the
  gateways component pushes, in order, into the channel of every gateway.
\<close>

section \<open>What notifications make of the candidates\<close>

text \<open>What a route update does to the candidates of a gateway.\<close>

definition learn :: "'x netlink_lib \<Rightarrow> lrg_config \<Rightarrow> 'x route_update \<Rightarrow> 'x route list \<Rightarrow> 'x route list" where
  "learn L cfg u cs =
     (if to_Match (To cfg) (ru_Route u) \<or> \<not> from_Match (From cfg) (ru_Route u) then cs
      else if ru_Type u = RTM_DELROUTE then candidates_remove L (ru_Route u) cs
      else if ru_Type u = RTM_NEWROUTE then candidates_add L (ru_Route u) cs
      else cs)"

definition learn_all :: "'x netlink_lib \<Rightarrow> lrg_config \<Rightarrow> 'x route_update list \<Rightarrow> 'x route list" where
  "learn_all L cfg us = fold (learn L cfg) us []"

text \<open>The updates of a list of notifications since its last start of RIB.\<close>

definition next_updates :: "'x notification \<Rightarrow> 'x route_update list \<Rightarrow> 'x route_update list" where
  "next_updates n us =
     (if StartOfRIB n then [] else if EndOfRIB n then us
      else case RouteUpdate n of None \<Rightarrow> us | Some u \<Rightarrow> us @ [u])"

definition updates_since :: "'x notification list \<Rightarrow> 'x route_update list" where
  "updates_since ns = fold next_updates ns []"

lemma updates_since_snoc [simp]: "updates_since (ns @ [n]) = next_updates n (updates_since ns)"
  by (simp add: updates_since_def)

lemma settle_candidates [simp]: "sp_candidates (spec_settle L cfg s) = sp_candidates s"
  by (simp add: spec_settle_def)

lemma step_candidates:
  "sp_candidates (spec_step L cfg (classify cfg n) s) =
     (if StartOfRIB n then [] else if EndOfRIB n then sp_candidates s
      else case RouteUpdate n of None \<Rightarrow> sp_candidates s | Some u \<Rightarrow> learn L cfg u (sp_candidates s))"
  by (simp add: classify_def spec_step_def spec_learn_def learn_def Let_def RTM_NEWROUTE_def RTM_DELROUTE_def
      split: option.splits)

lemma candidates_since:
  assumes "sp_candidates s = []"
  shows "sp_candidates (spec_steps L cfg (map (classify cfg) ns) s) = learn_all L cfg (updates_since ns)"
proof (induction ns rule: rev_induct)
  case Nil
  with assms show ?case by (simp add: learn_all_def updates_since_def)
next
  case (snoc n ns)
  then show ?case
    by (simp add: spec_steps_append step_candidates next_updates_def learn_all_def split: option.splits)
qed

text \<open>The routes of a dump that a gateway takes as candidates.\<close>

definition dump_candidates :: "'x netlink_lib \<Rightarrow> lrg_config \<Rightarrow> 'x route list \<Rightarrow> 'x route list" where
  "dump_candidates L cfg rs =
     fold (candidates_add L) (filter (\<lambda>r. from_Match (From cfg) r \<and> \<not> to_Match (To cfg) r) rs) []"

lemma learn_all_dump: "learn_all L cfg (map new_update rs) = dump_candidates L cfg rs"
proof -
  have "fold (learn L cfg) (map new_update rs) cs =
      fold (candidates_add L) (filter (\<lambda>r. from_Match (From cfg) r \<and> \<not> to_Match (To cfg) r) rs) cs" for cs
    by (induction rs arbitrary: cs) (auto simp: learn_def new_update_def RTM_NEWROUTE_def RTM_DELROUTE_def)
  then show ?thesis by (simp add: learn_all_def dump_candidates_def)
qed

section \<open>The interface of the netlink component\<close>

text \<open>
  What a gateway relies on: whenever the source of notifications has announced the end of a dump,
  the updates it gave since the start of the dump are one for each route that was listed.
\<close>

locale rib_source =
  fixes history :: "'s \<Rightarrow> 'x notification list"
    and listed :: "'s \<Rightarrow> 'x route list"
    and valid :: "'s \<Rightarrow> bool"
  assumes dump_law: "valid s \<Longrightarrow> history s = ns @ [end_of_rib] \<Longrightarrow> updates_since ns = map new_update (listed s)"
begin

text \<open>What the specification of a gateway knows after the history so far.\<close>

lemma known_follows:
  assumes "(cs, cur) = knows L cfg (history s)"
  shows "cs = learn_all L cfg (updates_since (history s))"
    and "history s = ns @ [end_of_rib] \<Longrightarrow> settled L cfg cs cur"
proof -
  let ?s = "spec_steps L cfg (map (classify cfg) (history s)) (abs_gateway new_gateway_state)"
  have k: "cs = sp_candidates ?s" "cur = sp_current ?s"
    using assms by (simp_all add: knows_def core_def)
  show "cs = learn_all L cfg (updates_since (history s))"
    unfolding k by (rule candidates_since) (simp add: new_gateway_state_def)
  show "settled L cfg cs cur" if "history s = ns @ [end_of_rib]"
    unfolding k that by (simp add: spec_steps_append spec_step_settled classify_def)
qed

lemma known_after_dump:
  assumes "(cs, cur) = knows L cfg (history s)" and "valid s" and "history s = ns @ [end_of_rib]"
  shows "cs = dump_candidates L cfg (listed s)"
  using known_follows(1) [OF assms(1)] dump_law [OF assms(2,3)]
  by (simp add: assms(3) next_updates_def learn_all_dump)

text \<open>A gateway that has handled the history so far.\<close>

lemma gateway_known:
  assumes "gateway_start g0" and "execution (gateway_step L i cfg) g0 evs g" and "handled evs = history s"
  shows "(candidateRoutes (gstate g), currentRoute (gstate g)) = knows L cfg (history s)"
  using history_invariant [OF assms(2,1)] assms(3) by (auto simp: core_def)

lemmas gateway_follows = known_follows [OF gateway_known]
lemmas gateway_after_dump = known_after_dump [OF gateway_known]

end

section \<open>The netlink component keeps the interface\<close>

text \<open>The notifications a callback gets, in a trace in which it is the only one.\<close>

definition delivered :: "callback_name \<Rightarrow> 'x nl_effect list \<Rightarrow> 'x notification list" where
  "delivered cb es = List.map_filter (\<lambda>e. case e of
       Notify c n \<Rightarrow> if c = Some cb then Some n else None | _ \<Rightarrow> None) es"

definition only_subscriber :: "callback_name \<Rightarrow> 'x nl_effect list \<Rightarrow> bool" where
  "only_subscriber cb es \<longleftrightarrow> (\<forall>c n. Notify c n \<in> set es \<longrightarrow> c = Some cb)"

lemma delivered_simps [simp]:
  "delivered cb [] = []" "delivered cb (xs @ ys) = delivered cb xs @ delivered cb ys"
  "delivered cb [Notify (Some cb) n] = [n]"
  by (simp_all add: delivered_def map_filter_append List.map_filter_simps)

text \<open>The observer of the netlink trace keeps exactly the updates since the last start.\<close>

lemma observe_updates:
  assumes "observe_all no_session xs = Some \<sigma>" and "only_subscriber cb xs"
  shows "updates_since (delivered cb xs) = since_start \<sigma>"
  using assms
proof (induction xs arbitrary: \<sigma> rule: rev_induct)
  case Nil
  then show ?case by (auto simp: no_session_def updates_since_def)
next
  case (snoc e xs)
  from snoc.prems(1) obtain \<rho> where \<rho>: "observe_all no_session xs = Some \<rho>" "observe \<rho> e = Some \<sigma>"
    by (auto split: option.splits)
  have IH: "updates_since (delivered cb xs) = since_start \<rho>"
    using snoc.prems(2) by (intro snoc.IH [OF \<rho>(1)]) (auto simp: only_subscriber_def)
  show ?case
  proof (cases "\<exists>c n. e = Notify c n")
    case True
    then obtain n where e: "e = Notify (Some cb) n" using snoc.prems(2) by (auto simp: only_subscriber_def)
    with \<rho>(2) have "observe_notification \<rho> n = Some \<sigma>" by (simp add: observe_def)
    with IH show ?thesis
      by (auto simp: e next_updates_def observe_notification_def no_session_def split: option.splits if_splits)
  next
    case False
    then have "since_start \<sigma> = since_start \<rho>" "delivered cb [e] = []"
      using \<rho>(2) by (auto simp: observe_def delivered_def List.map_filter_simps split: nl_effect.splits sum.splits if_splits)
    with IH show ?thesis by simp
  qed
qed

text \<open>The routes listed since the last start, IPv4 before IPv6, and the traces a run can show.\<close>

definition listed_routes :: "'x nl_effect list \<Rightarrow> 'x route list" where
  "listed_routes xs = (case observe_all no_session xs of None \<Rightarrow> [] | Some \<sigma> \<Rightarrow> listed4 \<sigma> @ listed6 \<sigma>)"

definition netlink_trace :: "'x netlink_lib \<Rightarrow> netlink_config \<Rightarrow> callback_name \<Rightarrow> 'x nl_effect list \<Rightarrow> bool" where
  "netlink_trace L ncfg cb xs \<longleftrightarrow> only_subscriber cb xs \<and> (\<exists>s ys. nl_reach L ncfg s \<and> nl_trace s = xs @ ys)"

lemma netlink_traceE:
  assumes "netlink_trace L ncfg cb xs"
  obtains \<sigma> where "observe_all no_session xs = Some \<sigma>" "only_subscriber cb xs"
  using assms by (auto simp: netlink_trace_def elim!: nl_reachE split: option.splits)

text \<open>A trace up to and including a notification.\<close>

definition at_notification :: "'x netlink_lib \<Rightarrow> netlink_config \<Rightarrow> callback_name \<Rightarrow> 'x nl_effect list \<Rightarrow> bool" where
  "at_notification L ncfg cb xs \<longleftrightarrow> netlink_trace L ncfg cb xs \<and> (\<exists>ys n. xs = ys @ [Notify (Some cb) n])"

interpretation dump: rib_source "delivered cb" listed_routes "at_notification L ncfg cb" for cb L ncfg
proof
  fix xs ns
  assume v: "at_notification L ncfg cb xs" and d: "delivered cb xs = ns @ [end_of_rib]"
  from v obtain ys n where xs: "xs = ys @ [Notify (Some cb) n]" by (auto simp: at_notification_def)
  with d have n: "n = end_of_rib" "delivered cb ys = ns" by simp_all
  from v obtain \<sigma> where \<sigma>: "observe_all no_session xs = Some \<sigma>" "only_subscriber cb xs"
    by (auto simp: at_notification_def elim: netlink_traceE)
  with xs n have "since_start \<sigma> = map new_update (listed4 \<sigma> @ listed6 \<sigma>)"
    by (auto simp: observe_def observe_notification_def split: option.splits if_splits)
  moreover have "updates_since (delivered cb xs) = since_start \<sigma>" by (rule observe_updates [OF \<sigma>])
  moreover have "updates_since (delivered cb xs) = updates_since ns" by (simp add: d next_updates_def)
  ultimately show "updates_since ns = map new_update (listed_routes xs)" by (simp add: listed_routes_def \<sigma>)
qed

section \<open>What a gateway knows\<close>

text \<open>
  A gateway that has handled what the netlink component notified up to some moment has as
  candidates what the updates since the last start of RIB make of an empty list, whatever happened
  before. When the last notification is an end of RIB, these are the routes that the kernel listed
  since that start, for IPv4 and then for IPv6, and that match its source and not its target; and the route
  it holds is the target that follows from them.
\<close>

theorem resync_reaches_gateway:
  assumes "at_notification L ncfg cb xs"
    and "gateway_start g0" and "execution (gateway_step L i cfg) g0 evs g" and "handled evs = delivered cb xs"
  shows "candidateRoutes (gstate g) = learn_all L cfg (updates_since (delivered cb xs))
     \<and> (\<forall>ns. delivered cb xs = ns @ [end_of_rib] \<longrightarrow>
          candidateRoutes (gstate g) = dump_candidates L cfg (listed_routes xs)
          \<and> settled L cfg (candidateRoutes (gstate g)) (currentRoute (gstate g)))"
  using dump.gateway_follows [OF assms(2-4)] dump.gateway_after_dump [OF assms(2-4,1)] by blast

section \<open>An example\<close>

text \<open>A gateway with an empty channel that gets and handles a list of notifications.\<close>

definition push_and_handle :: "'x notification list \<Rightarrow> 'x gateway_event list" where
  "push_and_handle ns = concat (map (\<lambda>n. [Push n, Select (Notified n)]) ns)"

lemma handled_push_and_handle [simp]: "handled (push_and_handle ns) = ns"
  by (induction ns) (simp_all add: push_and_handle_def handled_def)

lemma gateway_handles_all:
  assumes "gateway_ok cfg st" and "notification st = []"
  shows "\<exists>st' es'. execution (gateway_step L i cfg) (run_from st es) (push_and_handle ns) (run_from st' es')"
  using assms
proof (induction ns arbitrary: st es)
  case Nil
  show ?case by (rule exI [of _ st], rule exI [of _ es]) (simp add: push_and_handle_def execution_nil)
next
  case (Cons n ns)
  obtain st1 fs where run: "processNotification L i cfg st n = Inr (st1, fs)"
    and ok: "gateway_ok cfg st1" "notification st1 = []"
    using processNotification_implements [OF Cons.prems(1), of L i n] Cons.prems(2)
    by (auto simp: go_ok_def implements_def)
  let ?mid = "run_from (st\<lparr>notification := [n]\<rparr>) es"
  have push: "gateway_step L i cfg (run_from st es) (Push n) ?mid"
    using gateway_step.push [of "run_from st es" L i cfg n] Cons.prems(2)
    by (simp add: run_from_def channel_capacity_def)
  have "st\<lparr>notification := []\<rparr> = st" using Cons.prems(2) by (cases st) simp
  then have handle: "gateway_step L i cfg ?mid (Select (Notified n)) (run_from st1 (es @ fs))"
    using gateway_step.continue [of ?mid "Notified n" st L i cfg st1 fs] run_Notified_eq [OF run]
    by (simp add: run_from_def ready_Notified)
  from Cons.IH [OF ok] obtain st' es' where
    "execution (gateway_step L i cfg) (run_from st1 (es @ fs)) (push_and_handle ns) (run_from st' es')" by blast
  then have "execution (gateway_step L i cfg) (run_from st es) (Push n # Select (Notified n) # push_and_handle ns)
      (run_from st' es')"
    by (rule execution_cons [where step = "gateway_step L i cfg", OF push
        execution_cons [where step = "gateway_step L i cfg", OF handle]])
  then show ?case by (auto simp: push_and_handle_def)
qed

text \<open>The kernel has one route the gateway looks for, and one it does not.\<close>

definition route_dump :: "nat nl_event list" where
  "route_dump = (let K = kernel_with [example_route 5 2, main_route 1] [] in
     [AddSubscriber (Some 7), Loop K NlSubscribed, InjSelect 0, InjSend 0, Loop K NlUpdate, InjSelect 0, InjSend 0,
      Loop K NlUpdate, InjClose 0, Loop K NlUpdate, InjClose 0, Loop K NlUpdate])"

definition dumped_run :: "nat netlink_run" where
  "dumped_run = the (nl_exec plain_lib route_dump (nl_init DefaultConfiguration))"

lemma dumped_run_exec: "nl_exec plain_lib route_dump (nl_init DefaultConfiguration) = Some dumped_run"
proof -
  have "nl_exec plain_lib route_dump (nl_init DefaultConfiguration) \<noteq> None"
    by (simp add: route_dump_def nl_eval Let_def zero_update_def RT_TABLE_UNSPEC_def new_update_def main_route_def
        example_route_def)
  then show ?thesis by (auto simp: dumped_run_def)
qed

lemma dumped_run_reach: "nl_reach plain_lib DefaultConfiguration dumped_run"
proof (rule nl_reach_exec [OF nl_reach_init _ dumped_run_exec])
  show "list_all plain_event route_dump"
    by (simp add: route_dump_def plain_event_def Let_def real_route_def example_route_def main_route_def
        RT_TABLE_UNSPEC_def)
qed

lemma dumped_run_trace:
  "\<exists>zs. nl_trace dumped_run = zs @ [Notify (Some 7) end_of_rib] \<and> only_subscriber 7 (nl_trace dumped_run)"
  by (simp add: dumped_run_def route_dump_def nl_eval Let_def zero_update_def RT_TABLE_UNSPEC_def new_update_def
      main_route_def example_route_def only_subscriber_def)

lemma dumped_run_listed: "listed_routes (nl_trace dumped_run) = [example_route 5 2, main_route 1]"
  by (simp add: dumped_run_def route_dump_def nl_eval Let_def zero_update_def RT_TABLE_UNSPEC_def new_update_def
      main_route_def example_route_def observe_def observe_notification_def no_session_def listed_routes_def)

lemma dump_example: "dump_candidates plain_lib example_config [example_route 5 2, main_route 1] = [example_route 5 2]"
  by code_simp

theorem resync_reaches_gateway_witness:
  "\<exists>evs g. execution (gateway_step plain_lib 1 example_config) (run_from new_gateway_state start_effects) evs g
     \<and> candidateRoutes (gstate g) = [example_route 5 2]
     \<and> settled plain_lib example_config [example_route 5 2] (currentRoute (gstate g))"
proof -
  obtain zs where t: "nl_trace dumped_run = zs @ [Notify (Some 7) end_of_rib]" "only_subscriber 7 (nl_trace dumped_run)"
    using dumped_run_trace by blast
  let ?ns = "delivered 7 (nl_trace dumped_run)"
  have v: "at_notification plain_lib DefaultConfiguration 7 (nl_trace dumped_run)"
    unfolding at_notification_def netlink_trace_def using t dumped_run_reach by auto
  have start: "gateway_start (run_from new_gateway_state start_effects)"
    by (simp add: gateway_start_def run_from_def start_effects_def)
  obtain st es where run: "execution (gateway_step plain_lib 1 example_config) (run_from new_gateway_state start_effects)
      (push_and_handle ?ns) (run_from st es)"
    using gateway_handles_all [where cfg = example_config and L = plain_lib and i = 1 and es = start_effects and ns = ?ns,
        OF gateway_ok_new] by (auto simp: new_gateway_state_def)
  have "?ns = delivered 7 zs @ [end_of_rib]" by (simp add: t(1))
  with resync_reaches_gateway [OF v start run handled_push_and_handle]
  have "candidateRoutes st = [example_route 5 2]" "settled plain_lib example_config (candidateRoutes st) (currentRoute st)"
    unfolding dumped_run_listed dump_example by (auto simp: run_from_def)
  with run show ?thesis by (force simp: run_from_def)
qed

end
