(* ===== verification/Program_Flow.thy ===== *)
theory Program_Flow
  imports Gateways_History Resync_Flow
begin

text \<open>
  The netlink component and the gateways component in one program, as \<^verbatim>\<open>src/cmd/daemon.go\<close> starts
  them: the callback that \<^verbatim>\<open>gateways.Start\<close> subscribes runs in the goroutine of the netlink component.
  The notifications of a step of that goroutine wait in an outbox; while there is one, or while the
  callback is in progress, its loop takes no further step, and everything else goes on: the goroutines
  that inject routes, the kernel's side of the channels, the gateways. The rest of a transition
  (the list of routes it asks the kernel for after the start of RIB) is done in the same step as its
  notification; nobody but the loop itself waits for it.
\<close>

section \<open>The netlink component calls the callback it was given\<close>

lemma only_subscriber_simps [simp]:
  "only_subscriber cb []"
  "only_subscriber cb (es @ fs) \<longleftrightarrow> only_subscriber cb es \<and> only_subscriber cb fs"
  "only_subscriber cb (Notify c n # es) \<longleftrightarrow> c = Some cb \<and> only_subscriber cb es"
  "only_subscriber cb (Count m # es) = only_subscriber cb es"
  "only_subscriber cb (Report l m # es) = only_subscriber cb es"
  "only_subscriber cb (ReportError e m # es) = only_subscriber cb es"
  "only_subscriber cb (SubscribeCall a x # es) = only_subscriber cb es"
  "only_subscriber cb (ListCall f y # es) = only_subscriber cb es"
  "only_subscriber cb (TickerStart t b # es) = only_subscriber cb es"
  "only_subscriber cb (TickerHalt t # es) = only_subscriber cb es"
  "only_subscriber cb (AfterCall d # es) = only_subscriber cb es"
  by (auto simp: only_subscriber_def)

fun result_comp :: "'x nl_result \<Rightarrow> 'x netlink" where
  "result_comp (Next c) = c"
| "result_comp (Exit c) = c"

definition subscribed_to :: "callback_name \<Rightarrow> 'x netlink \<Rightarrow> bool" where
  "subscribed_to cb c \<longleftrightarrow> callback (obs c) = Some cb"

text \<open>The same, with a property \<open>q\<close> of the state of the tomb, which only \<^verbatim>\<open>Stop\<close> changes.\<close>

definition tuned :: "callback_name \<Rightarrow> (bool \<Rightarrow> bool) \<Rightarrow> 'x netlink \<Rightarrow> bool" where
  "tuned cb q c \<longleftrightarrow> callback (obs c) = Some cb \<and> q (dying c)"

text \<open>A computation that calls nobody else and, if it gives a result, one with the property.\<close>

definition speaks :: "callback_name \<Rightarrow> ('a \<Rightarrow> bool) \<Rightarrow> ('x nl_effect, 'a) go \<Rightarrow> bool" where
  "speaks cb P m \<longleftrightarrow> (case m of Inl p \<Rightarrow> True | Inr (x, es) \<Rightarrow> P x \<and> only_subscriber cb es)"

lemma speaks_simps [simp]:
  "speaks cb P (go_return x) \<longleftrightarrow> P x" "speaks cb P (go_emit es x) \<longleftrightarrow> P x \<and> only_subscriber cb es"
  "speaks cb P (go_panic p)"
  by (simp_all add: speaks_def go_return_def go_emit_def go_panic_def)

lemma speaks_bind: "speaks cb (\<lambda>x. speaks cb P (f x)) m \<Longrightarrow> speaks cb P (go_bind m f)"
  by (auto simp: speaks_def go_bind_def split: sum.splits)

lemma speaks_bind_emit [simp]:
  "speaks cb P (f x) \<Longrightarrow> only_subscriber cb es \<Longrightarrow> speaks cb P (go_bind (go_emit es x) f)"
  by (simp add: speaks_bind)

lemma speaks_mono: "speaks cb P m \<Longrightarrow> (\<And>x. P x \<Longrightarrow> Q x) \<Longrightarrow> speaks cb Q m"
  by (auto simp: speaks_def split: sum.splits)

lemma injectRoutes_speaks:
  "tuned cb q c \<Longrightarrow> speaks cb (\<lambda>(err, c). tuned cb q c) (injectRoutes K f c)"
  by (auto simp: injectRoutes_def tuned_def split: sum.split)

lemma transition_speaks:
  assumes "tuned cb q c"
  shows "speaks cb (\<lambda>(err, c). tuned cb q c) (transition K c)"
proof (cases "fsm c = ipv6Routes")
  case True
  with assms show ?thesis by (simp add: transition_def transition_ipv6_def notify_all_def tuned_def)
next
  case False
  have inject: "speaks cb (\<lambda>x. speaks cb (\<lambda>(err, c). tuned cb q c)
      (case x of (err, c) \<Rightarrow> case err of Some e \<Rightarrow> go_return (Some (w e), c) | None \<Rightarrow> go_return (None, c\<lparr>fsm := st\<rparr>)))
      (injectRoutes K f d)" if "tuned cb q d" for d f w st
    by (rule speaks_mono [OF injectRoutes_speaks [OF that]]) (auto simp: tuned_def split: option.split)
  from False assms show ?thesis
    by (cases "fsm c")
       (auto simp: transition_def transition_start_def transition_ipv4_def notify_all_def make_chan_def Let_def
          tuned_def split: option.split intro!: speaks_bind inject [unfolded tuned_def])
qed

lemma sleep_speaks:
  "tuned cb q c \<Longrightarrow> speaks cb (\<lambda>r. tuned cb q (result_comp r)) (sleep_before_transition c)"
  by (auto simp: sleep_before_transition_def arm_transition_def arm_cure_def Let_def tuned_def
      intro!: speaks_bind)

lemma report_speaks: "speaks cb (\<lambda>u. True) (report_lost_updates c)"
  by (auto simp: report_lost_updates_def report_fatal_def split: option.split nl_error.split intro!: speaks_bind)

lemma after_transition_speaks:
  assumes "tuned cb q c" and "\<And>err d. tuned cb q d \<Longrightarrow> speaks cb P (f (err, d))"
  shows "speaks cb P (go_bind (transition K c) f)"
  by (rule speaks_bind, rule speaks_mono [OF transition_speaks [OF assms(1)]]) (use assms(2) in auto)

lemma case_update_speaks:
  assumes "tuned cb q c"
  shows "speaks cb (\<lambda>r. tuned cb q (result_comp r)) (case_update K u c)"
proof -
  let ?c = "c\<lparr>updates := None\<rparr>"
  have c: "tuned cb q ?c" using assms by (simp add: tuned_def)
  have "speaks cb (\<lambda>r. tuned cb q (result_comp r))
      (go_bind (report_lost_updates ?c) (\<lambda>_. sleep_before_transition ?c))"
    by (rule speaks_bind, rule speaks_mono [OF report_speaks]) (rule sleep_speaks [OF c])
  with c assms show ?thesis
    by (auto simp: case_update_def case_closed_def notify_all_def Let_def cannot_change_state_def
        tuned_def split: option.split
        intro!: after_transition_speaks [where q = q, unfolded tuned_def] speaks_bind_emit
          sleep_speaks [where q = q, unfolded tuned_def])
qed

lemma halt_speaks: "P x \<Longrightarrow> speaks cb P (go_bind (halt_ticker c) (\<lambda>_. go_return x))"
  by (rule speaks_bind) (simp add: halt_ticker_def split: option.split)

lemma nl_select_speaks:
  assumes "nl_select L K cs c = Some m" and c: "tuned cb q c"
  shows "speaks cb (\<lambda>r. tuned cb q (result_comp r)) m"
proof (cases cs)
  case NlUpdate
  then obtain u c' where rc: "receive L c = Some (u, c')" and m: "m = case_update K u c'"
    using assms(1) by (auto simp: nl_select_def split: option.splits)
  have "tuned cb q c'"
    using rc c by (auto simp: receive_def tuned_def split: option.splits list.splits if_splits)
  then show ?thesis unfolding m by (rule case_update_speaks)
next
  case NlTick
  then have "m = case_transition_tick K c" using assms(1) by (simp add: nl_select_def split: if_splits)
  with c show ?thesis
    by (auto simp: case_transition_tick_def cannot_change_state_def tuned_def
        split: option.split intro!: after_transition_speaks [where q = q, unfolded tuned_def] halt_speaks)
next
  case NlSubscribed
  then have "m = case_subscribed K c" using assms(1) by (simp add: nl_select_def split: if_splits)
  with c show ?thesis
    by (auto simp: case_subscribed_def cannot_change_state_def tuned_def
        split: option.split intro!: after_transition_speaks [where q = q, unfolded tuned_def])
qed (use assms in \<open>auto simp: nl_select_def case_dying_def case_cure_tick_def halt_ticker_def tuned_def
      split: if_splits option.split intro!: speaks_bind\<close>)

lemma nl_next_speaks:
  assumes "nl_next L ev c = Some m" and c: "tuned cb q c" and "\<And>d. ev \<noteq> AddSubscriber d" and "ev \<noteq> Kill"
  shows "speaks cb (\<lambda>r. tuned cb q (result_comp r)) m"
proof (cases ev)
  case (Loop K cs)
  with assms(1) show ?thesis using nl_select_speaks [OF _ c] by (simp add: nl_next_def)
next
  case (InjHandoff i K)
  have "tuned cb q (inject_advance i c)" using c by (simp add: inject_advance_def Let_def tuned_def)
  with assms(1) InjHandoff show ?thesis
    by (auto simp: nl_next_def nl_handoff_def case_update_speaks
        split: if_splits inj_phase.splits option.splits list.splits)
next
  case (LibHandoff a u K)
  with assms(1) show ?thesis using case_update_speaks [OF c] by (auto simp: nl_next_def split: if_splits)
next
  case (AddSubscriber d)
  with assms(3) [of d] show ?thesis by simp
qed (use assms(1,4) c in \<open>auto simp: nl_next_def silent_def next_state_def inject_select_def inject_send_def
      inject_close_def inject_dying_def inject_advance_def drop_injector_def chan_put_def chan_close_def
      lib_report_def lib_close_def tuned_def Let_def
      split: if_splits option.splits inj_phase.splits list.splits sum.splits intro!: speaks_bind\<close>)

lemma nl_step_tuned:
  assumes "nl_step L s ev t" and "tuned cb q (nl_comp s)" and "\<And>d. ev \<noteq> AddSubscriber d" and "ev \<noteq> Kill"
  shows "tuned cb q (nl_comp t)" "\<exists>es. nl_trace t = nl_trace s @ es \<and> only_subscriber cb es"
  using assms(1,2) nl_next_speaks [OF _ assms(2,3,4)]
  by (cases; fastforce simp: speaks_def)+

lemma nl_step_Kill:
  assumes "nl_step L s Kill t"
  shows "t = s\<lparr>nl_comp := netlink_Stop (nl_comp s)\<rparr>"
  using assms by cases (simp_all add: nl_next_def go_return_def)

lemma nl_step_dying:
  assumes "nl_step L s ev t" and "subscribed_to cb (nl_comp s)" and "\<And>d. ev \<noteq> AddSubscriber d"
  shows "dying (nl_comp t) \<longleftrightarrow> dying (nl_comp s) \<or> ev = Kill"
proof (cases "ev = Kill")
  case True
  from nl_step_Kill [OF assms(1) [unfolded True]] True show ?thesis by simp
next
  case False
  have "tuned cb (\<lambda>b. b = dying (nl_comp s)) (nl_comp s)" using assms(2) by (simp add: tuned_def subscribed_to_def)
  from nl_step_tuned(1) [OF assms(1) this assms(3) False] False show ?thesis by (simp add: tuned_def)
qed

lemma nl_step_speaks:
  assumes "nl_step L s ev t" and "subscribed_to cb (nl_comp s)" and "\<And>d. ev \<noteq> AddSubscriber d"
  shows "subscribed_to cb (nl_comp t)" "\<exists>es. nl_trace t = nl_trace s @ es \<and> only_subscriber cb es"
proof -
  have "subscribed_to cb (nl_comp t) \<and> (\<exists>es. nl_trace t = nl_trace s @ es \<and> only_subscriber cb es)"
  proof (cases "ev = Kill")
    case True
    from nl_step_Kill [OF assms(1) [unfolded True]] assms(2) show ?thesis by (simp add: subscribed_to_def)
  next
    case False
    have "tuned cb (\<lambda>b. b = dying (nl_comp s)) (nl_comp s)" using assms(2) by (simp add: tuned_def subscribed_to_def)
    from nl_step_tuned [OF assms(1) this assms(3) False] show ?thesis by (simp add: tuned_def subscribed_to_def)
  qed
  then show "subscribed_to cb (nl_comp t)" "\<exists>es. nl_trace t = nl_trace s @ es \<and> only_subscriber cb es" by simp_all
qed

section \<open>The program\<close>

record 'x program =
  pg_netlink :: "'x netlink_run"
  pg_outbox :: "'x notification list"
  pg_gateways :: "'x gateways_run"

datatype 'x program_event =
    NetlinkStep "'x nl_event"
  | Call "'x notification"
  | GatewaysStep "'x gateways_event"

text \<open>The loop of the netlink component waits for the callback.\<close>

definition callback_returned :: "'x program \<Rightarrow> bool" where
  "callback_returned p \<longleftrightarrow> pg_outbox p = [] \<and> gr_callback (pg_gateways p) = None"

definition netlink_may :: "'x program \<Rightarrow> 'x nl_event \<Rightarrow> bool" where
  "netlink_may p ev \<longleftrightarrow> no_panic (pg_gateways p)
     \<and> (case ev of AddSubscriber d \<Rightarrow> False | _ \<Rightarrow> if of_run ev then callback_returned p else True)"

definition of_callback :: "'x gateways_event \<Rightarrow> bool" where
  "of_callback e \<longleftrightarrow> (case e of EnterCallback n \<Rightarrow> True | _ \<Rightarrow> False)"

inductive program_step ::
    "'x netlink_lib \<Rightarrow> callback_name \<Rightarrow> 'x program \<Rightarrow> 'x program_event \<Rightarrow> 'x program \<Rightarrow> bool" for L cb where
  netlink: "netlink_may p ev \<Longrightarrow> documented_step L (pg_netlink p) ev n \<Longrightarrow>
     nl_trace n = nl_trace (pg_netlink p) @ es \<Longrightarrow>
     program_step L cb p (NetlinkStep ev) (p\<lparr>pg_netlink := n, pg_outbox := pg_outbox p @ delivered cb es\<rparr>)"
| call: "pg_outbox p = n # ns \<Longrightarrow> gateways_step L (pg_gateways p) (EnterCallback n) g \<Longrightarrow>
     program_step L cb p (Call n) (p\<lparr>pg_outbox := ns, pg_gateways := g\<rparr>)"
| gateways: "\<not> of_callback e \<Longrightarrow> gateways_step L (pg_gateways p) e g \<Longrightarrow>
     program_step L cb p (GatewaysStep e) (p\<lparr>pg_gateways := g\<rparr>)"

text \<open>The netlink component is started first, then the gateways component, which subscribes.\<close>

definition program_start ::
    "'x netlink_lib \<Rightarrow> netlink_config \<Rightarrow> callback_name \<Rightarrow> lrg_config list \<Rightarrow> 'x program \<Rightarrow> bool" where
  "program_start L ncfg cb cfgs p \<longleftrightarrow> pg_outbox p = [] \<and> gateways_start cfgs (pg_gateways p)
     \<and> documented_step L (nl_init ncfg) (AddSubscriber (Some cb)) (pg_netlink p)"

text \<open>The steps of the gateways component in a run of the program.\<close>

definition gateways_part :: "'x program_event list \<Rightarrow> 'x gateways_event list" where
  "gateways_part evs = concat (map (\<lambda>e. case e of
      NetlinkStep ev \<Rightarrow> [] | Call n \<Rightarrow> [EnterCallback n] | GatewaysStep g \<Rightarrow> [g]) evs)"

lemma gateways_part_simps [simp]:
  "gateways_part [] = []" "gateways_part (es @ fs) = gateways_part es @ gateways_part fs"
  "gateways_part [NetlinkStep ev] = []" "gateways_part [Call n] = [EnterCallback n]"
  "gateways_part [GatewaysStep g] = [g]"
  by (simp_all add: gateways_part_def)

section \<open>Nothing is lost between the kernel and the gateways\<close>

definition program_inv ::
    "'x netlink_lib \<Rightarrow> netlink_config \<Rightarrow> callback_name \<Rightarrow> lrg_config list \<Rightarrow> gateway list
      \<Rightarrow> 'x program_event list \<Rightarrow> 'x program \<Rightarrow> bool" where
  "program_inv L ncfg cb cfgs gws evs p \<longleftrightarrow> nl_reach L ncfg (pg_netlink p)
     \<and> subscribed_to cb (nl_comp (pg_netlink p)) \<and> only_subscriber cb (nl_trace (pg_netlink p))
     \<and> history_inv L cfgs (gateways_part evs) (pg_gateways p)
     \<and> worker_gateways (pg_gateways p) = gws
     \<and> delivered cb (nl_trace (pg_netlink p)) = entered (gateways_part evs) @ pg_outbox p"

lemma program_start_inv:
  assumes "program_start L ncfg cb cfgs p"
  shows "program_inv L ncfg cb cfgs (worker_gateways (pg_gateways p)) [] p"
proof -
  have step: "documented_step L (nl_init ncfg) (AddSubscriber (Some cb)) (pg_netlink p)"
    using assms by (simp add: program_start_def)
  then have "nl_trace (pg_netlink p) = [] \<and> subscribed_to cb (nl_comp (pg_netlink p))"
    unfolding documented_step_def
    by (auto elim!: nl_step.cases simp: nl_next_def nl_init_def netlink_New_def Subscribe_def newObserver_def
        close_signal_def subscribed_to_def)
  moreover have "nl_reach L ncfg (pg_netlink p)"
    unfolding nl_reach_def
    by (rule reach_step [where start = "nl_start ncfg", OF nl_reach_init [unfolded nl_reach_def] step])
  moreover have "history_inv L cfgs [] (pg_gateways p)"
    using assms by (simp add: program_start_def history_start)
  ultimately show ?thesis using assms by (simp add: program_inv_def program_start_def)
qed

lemma entered_other: "\<not> of_callback e \<Longrightarrow> entered [e] = []"
  by (cases e) (simp_all add: of_callback_def)

lemma program_step_inv:
  assumes inv: "program_inv L ncfg cb cfgs gws evs p" and step: "program_step L cb p e q"
  shows "program_inv L ncfg cb cfgs gws (evs @ [e]) q"
  using step
proof cases
  case (netlink ev n es)
  have nl: "nl_step L (pg_netlink p) ev n" using netlink(4) by (simp add: documented_step_def)
  have ev: "ev \<noteq> AddSubscriber d" for d using netlink(3) by (auto simp: netlink_may_def)
  have sub: "subscribed_to cb (nl_comp (pg_netlink p))" using inv by (simp add: program_inv_def)
  have "nl_reach L ncfg n"
    using inv netlink(4) unfolding program_inv_def nl_reach_def by (blast intro: reach_step)
  with inv netlink nl_step_speaks [OF nl sub ev] show ?thesis by (auto simp: program_inv_def)
next
  case (call n ns g)
  with inv history_step [OF _ call(4), of cfgs "gateways_part evs"] step_frame(1) [OF call(4)] show ?thesis
    by (simp add: program_inv_def)
next
  case (gateways e g)
  with inv history_step [OF _ gateways(4), of cfgs "gateways_part evs"] step_frame(1) [OF gateways(4)] show ?thesis
    by (simp add: program_inv_def entered_other)
qed

lemma program_execution_inv:
  assumes "execution (program_step L cb) p evs q" and "program_start L ncfg cb cfgs p"
  shows "program_inv L ncfg cb cfgs (worker_gateways (pg_gateways p)) evs q"
  using assms
proof (induction rule: execution.induct)
  case (execution_nil p)
  then show ?case by (rule program_start_inv)
next
  case (execution_snoc p evs q e u)
  then show ?case by (blast intro: program_step_inv)
qed

text \<open>
  C4. From the kernel to the gateways nothing is lost, repeated or reordered: in every run of the
  program that was not told to stop, what the netlink component notified is, for each gateway, what its
  goroutines have handled, then what is in its channel, then the notification the callback is about to
  push, then what waits for the callback; and the gateway's candidates and current route are
  those the specification computes from the handled part.
\<close>

theorem program_delivers_in_order:
  assumes "program_start L ncfg cb cfgs p" and "execution (program_step L cb) p evs q"
    and "alive (gr_comp (pg_gateways q))" and "gw \<in> set (gateways (gr_comp (pg_gateways q)))"
  shows "let gs = pg_gateways q; seen = handled_cell (worker_gateways (pg_gateways p)) (gw_state gw) (gateways_part evs)
    in delivered cb (nl_trace (pg_netlink q))
         = seen @ queue (gr_comp gs) (gw_state gw) @ in_flight gw gs @ pg_outbox q
       \<and> (candidateRoutes (cell (gr_comp gs) gw), currentRoute (cell (gr_comp gs) gw)) = knows L (last cfgs) seen"
proof -
  from program_execution_inv [OF assms(2,1)]
  have h: "history_inv L cfgs (gateways_part evs) (pg_gateways q)"
    and w: "worker_gateways (pg_gateways q) = worker_gateways (pg_gateways p)"
    and d: "delivered cb (nl_trace (pg_netlink q)) = entered (gateways_part evs) @ pg_outbox q"
    by (simp_all add: program_inv_def)
  from history_invD(4) [OF h assms(4)] assms(3) d show ?thesis
    by (simp add: cell_history_def w core_def Let_def)
qed

section \<open>The gateways catch up\<close>

lemma gateways_run_in_program:
  assumes "execution (gateways_step L) g fs g'" and "list_all (\<lambda>e. \<not> of_callback e) fs"
  shows "execution (program_step L cb) (p\<lparr>pg_gateways := g\<rparr>) (map GatewaysStep fs) (p\<lparr>pg_gateways := g'\<rparr>)"
  using assms
proof (induction rule: execution.induct)
  case (execution_nil g)
  show ?case by (simp add: execution.execution_nil)
next
  case (execution_snoc g es h e k)
  have "program_step L cb (p\<lparr>pg_gateways := h\<rparr>) (GatewaysStep e) (p\<lparr>pg_gateways := h\<rparr>\<lparr>pg_gateways := k\<rparr>)"
    using execution_snoc by (intro program_step.gateways) simp_all
  with execution_snoc show ?case by (auto intro: execution.execution_snoc)
qed

lemma serving_not_callback: "list_all serving fs \<Longrightarrow> list_all (\<lambda>e. \<not> of_callback e) fs"
  by (auto simp: list_all_iff serving_def of_callback_def)

text \<open>The steps that serve what was notified.\<close>

definition serves :: "'x program_event \<Rightarrow> bool" where
  "serves e \<longleftrightarrow> (case e of NetlinkStep ev \<Rightarrow> False | Call n \<Rightarrow> True | GatewaysStep g \<Rightarrow> serving g)"

lemma program_drains_gateways:
  assumes inv: "program_inv L ncfg cb cfgs gws evs p" and ok: "healthy (pg_gateways p)"
  shows "\<exists>fs g. execution (program_step L cb) p fs (p\<lparr>pg_gateways := g\<rparr>) \<and> list_all serves fs \<and> healthy g \<and> drained g"
proof -
  have "history_inv L cfgs (gateways_part evs) (pg_gateways p)" using inv by (simp add: program_inv_def)
  from gateways_drain [OF this ok] obtain fs g where
    run: "execution (gateways_step L) (pg_gateways p) fs g" "list_all serving fs" "healthy g" "drained g"
    by blast
  have "p\<lparr>pg_gateways := pg_gateways p\<rparr> = p" by simp
  with gateways_run_in_program [OF run(1) serving_not_callback [OF run(2)], of cb p]
  have "execution (program_step L cb) p (map GatewaysStep fs) (p\<lparr>pg_gateways := g\<rparr>)" by simp
  moreover have "list_all serves (map GatewaysStep fs)" using run(2) by (simp add: list_all_iff serves_def)
  ultimately show ?thesis using run(3,4) by blast
qed

lemma program_inv_execution:
  assumes "execution (program_step L cb) p fs q" and "program_inv L ncfg cb cfgs gws evs p"
  shows "program_inv L ncfg cb cfgs gws (evs @ fs) q"
  using assms
proof (induction rule: execution.induct)
  case (execution_snoc p es t e u)
  then show ?case by (metis append_assoc program_step_inv)
qed simp

lemma program_drains:
  assumes "program_inv L ncfg cb cfgs gws evs p" and "healthy (pg_gateways p)"
  shows "\<exists>fs t. execution (program_step L cb) p fs t \<and> pg_netlink t = pg_netlink p
     \<and> pg_outbox t = [] \<and> healthy (pg_gateways t) \<and> drained (pg_gateways t) \<and> list_all serves fs"
  using assms
proof (induction "pg_outbox p" arbitrary: p evs)
  case Nil
  from program_drains_gateways [OF Nil(2,3)] obtain fs g where
    run: "execution (program_step L cb) p fs (p\<lparr>pg_gateways := g\<rparr>)" "list_all serves fs" "healthy g" "drained g" by blast
  with Nil(1) show ?case by (intro exI [of _ fs] exI [of _ "p\<lparr>pg_gateways := g\<rparr>"]) simp
next
  case (Cons n ns)
  from program_drains_gateways [OF Cons(3,4)] obtain fs g where
    run: "execution (program_step L cb) p fs (p\<lparr>pg_gateways := g\<rparr>)" "list_all serves fs"
    and g: "healthy g" "drained g" by blast
  let ?q = "p\<lparr>pg_gateways := g\<rparr>"
  let ?h = "g\<lparr>gr_callback := Some (enter_callback n (gr_comp g))\<rparr>"
  let ?r = "?q\<lparr>pg_outbox := ns, pg_gateways := ?h\<rparr>"
  have enter: "gateways_step L g (EnterCallback n) ?h"
    using g by (intro gateways_step.enter) (simp_all add: drained_def)
  have call: "program_step L cb ?q (Call n) ?r"
    using Cons(2) enter by (intro program_step.call) simp_all
  have run2: "execution (program_step L cb) p (fs @ [Call n]) ?r"
    by (rule execution_snoc [where step = "program_step L cb", OF run(1) call])
  have "healthy (pg_gateways ?r)" using g(1) by (simp add: no_panic_def attended_def)
  from Cons(1) [of ?r, OF _ program_inv_execution [OF run2 Cons(3)] this] obtain hs t where
    t: "execution (program_step L cb) ?r hs t" "pg_netlink t = pg_netlink p" "pg_outbox t = []"
      "healthy (pg_gateways t)" "drained (pg_gateways t)" "list_all serves hs" by auto
  have "list_all serves ((fs @ [Call n]) @ hs)" using run(2) t(6) by (simp add: serves_def)
  with execution_append [where step = "program_step L cb", OF t(1) run2] t(2-5) show ?case by blast
qed

text \<open>The trace up to its last notification.\<close>

definition is_notify :: "'x nl_effect \<Rightarrow> bool" where
  "is_notify e \<longleftrightarrow> (case e of Notify c n \<Rightarrow> True | _ \<Rightarrow> False)"

definition last_notified :: "'x nl_effect list \<Rightarrow> 'x nl_effect list" where
  "last_notified xs = rev (dropWhile (\<lambda>e. \<not> is_notify e) (rev xs))"

lemma last_notified_prefix: "\<exists>zs. xs = last_notified xs @ zs \<and> list_all (\<lambda>e. \<not> is_notify e) zs"
proof -
  have "xs = last_notified xs @ rev (takeWhile (\<lambda>e. \<not> is_notify e) (rev xs))"
    unfolding last_notified_def rev_append [symmetric] by simp
  then show ?thesis by (metis list_all_rev list.pred_set set_takeWhileD)
qed

lemma delivered_silent: "list_all (\<lambda>e. \<not> is_notify e) zs \<Longrightarrow> delivered cb zs = []"
  by (induction zs) (auto simp: delivered_def List.map_filter_simps is_notify_def split: nl_effect.splits)

lemma delivered_last: "delivered cb (last_notified xs) = delivered cb xs"
  using last_notified_prefix [of xs] by (metis append_Nil2 delivered_silent delivered_simps(2))

lemma last_notified_at:
  assumes "nl_reach L ncfg s" and "only_subscriber cb (nl_trace s)" and "delivered cb (nl_trace s) \<noteq> []"
  shows "at_notification L ncfg cb (last_notified (nl_trace s))"
proof -
  obtain zs where zs: "nl_trace s = last_notified (nl_trace s) @ zs" using last_notified_prefix by blast
  then have only: "only_subscriber cb (last_notified (nl_trace s))"
    using assms(2) by (metis only_subscriber_simps(2))
  have "last_notified (nl_trace s) \<noteq> []"
    using assms(3) by (metis delivered_last delivered_simps(1))
  then obtain ys e where e: "last_notified (nl_trace s) = ys @ [e]" by (metis rev_exhaust)
  then have "dropWhile (\<lambda>e. \<not> is_notify e) (rev (nl_trace s)) = e # rev ys"
    by (metis last_notified_def rev.simps(2) rev_append rev_rev_ident rev_swap append_Nil append_Cons)
  then have "is_notify e" by (metis dropWhile_eq_Cons_conv)
  then obtain c n where "e = Notify c n" by (auto simp: is_notify_def split: nl_effect.splits)
  with e only have "last_notified (nl_trace s) = ys @ [Notify (Some cb) n]" by simp
  with assms(1) zs only show ?thesis
    unfolding at_notification_def netlink_trace_def by metis
qed

section \<open>Healthy gateways never hold the netlink component up\<close>

definition subscribes :: "'x nl_event \<Rightarrow> bool" where
  "subscribes ev \<longleftrightarrow> (case ev of AddSubscriber d \<Rightarrow> True | _ \<Rightarrow> False)"

lemma program_follows_step:
  assumes inv: "program_inv L ncfg cb cfgs gws evs p" and ok: "healthy (pg_gateways p)" "callback_returned p"
    and step: "documented_step L (pg_netlink p) ev n" and ev: "\<not> subscribes ev"
  shows "\<exists>fs t. execution (program_step L cb) p fs t \<and> pg_netlink t = n
    \<and> healthy (pg_gateways t) \<and> callback_returned t"
proof -
  have nl: "nl_step L (pg_netlink p) ev n" using step by (simp add: documented_step_def)
  have "subscribed_to cb (nl_comp (pg_netlink p))" using inv by (simp add: program_inv_def)
  moreover have "ev \<noteq> AddSubscriber d" for d using ev by (auto simp: subscribes_def)
  ultimately obtain es where es: "nl_trace n = nl_trace (pg_netlink p) @ es" using nl_step_speaks(2) [OF nl] by blast
  let ?q = "p\<lparr>pg_netlink := n, pg_outbox := pg_outbox p @ delivered cb es\<rparr>"
  have "netlink_may p ev"
    using ok ev by (auto simp: netlink_may_def subscribes_def split: nl_event.splits)
  then have q: "program_step L cb p (NetlinkStep ev) ?q" by (rule program_step.netlink [OF _ step es])
  have "healthy (pg_gateways ?q)" using ok(1) by simp
  from program_drains [OF program_step_inv [OF inv q] this] obtain fs t where
    t: "execution (program_step L cb) ?q fs t" "pg_netlink t = n" "pg_outbox t = []"
      "healthy (pg_gateways t)" "drained (pg_gateways t)" by auto
  have "execution (program_step L cb) p (NetlinkStep ev # fs) t"
    by (rule execution_cons [where step = "program_step L cb", OF q t(1)])
  with t show ?thesis unfolding callback_returned_def drained_def by blast
qed

lemma program_follows:
  assumes "execution (documented_step L) n nevs n'" and "program_inv L ncfg cb cfgs gws evs p"
    and "pg_netlink p = n" and "healthy (pg_gateways p)" and "callback_returned p"
    and "list_all (\<lambda>ev. \<not> subscribes ev) nevs"
  shows "\<exists>fs t. execution (program_step L cb) p fs t \<and> pg_netlink t = n'
    \<and> healthy (pg_gateways t) \<and> callback_returned t"
  using assms
proof (induction rule: execution.induct)
  case (execution_nil n)
  then show ?case by (metis execution.execution_nil)
next
  case (execution_snoc n nevs m ev m')
  then obtain fs t where t: "execution (program_step L cb) p fs t" "pg_netlink t = m"
      "healthy (pg_gateways t)" "callback_returned t" by auto
  have "documented_step L (pg_netlink t) ev m'" "\<not> subscribes ev"
    using execution_snoc.hyps(2) execution_snoc.prems(5) t(2) by simp_all
  from program_follows_step [OF program_inv_execution [OF t(1) execution_snoc.prems(1)] t(3,4) this]
  obtain gs u where u: "execution (program_step L cb) t gs u" "pg_netlink u = m'"
      "healthy (pg_gateways u)" "callback_returned u" by blast
  from execution_append [where step = "program_step L cb", OF u(1) t(1)] u(2-4) show ?case by blast
qed

lemma nl_exec_execution:
  "list_all plain_event evs \<Longrightarrow> nl_exec L evs s = Some t \<Longrightarrow> execution (documented_step L) s evs t"
proof (induction evs arbitrary: s)
  case Nil
  then show ?case by (simp add: execution_nil)
next
  case (Cons ev evs)
  then obtain u where u: "nl_do L ev s = Some u" by (auto split: option.splits)
  have "documented (nl_comp s) ev" using Cons.prems(1) by (cases ev) (simp_all add: plain_event_def documented_def)
  then have "documented_step L s ev u" using u by (simp add: nl_do_step documented_step_def)
  with Cons u show ?case by (auto intro: execution_cons [where step = "documented_step L"])
qed

section \<open>The program converges\<close>

text \<open>A gateway state that agrees with a trace of the netlink component.\<close>

definition resynced ::
    "'x netlink_lib \<Rightarrow> lrg_config \<Rightarrow> callback_name \<Rightarrow> 'x nl_effect list \<Rightarrow> 'x gateway_state \<Rightarrow> bool" where
  "resynced L cfg cb xs st \<longleftrightarrow>
     candidateRoutes st = learn_all L cfg (updates_since (delivered cb xs))
     \<and> (\<forall>ns. delivered cb xs = ns @ [end_of_rib] \<longrightarrow>
          candidateRoutes st = dump_candidates L cfg (listed_routes (last_notified xs))
          \<and> settled L cfg (candidateRoutes st) (currentRoute st))"

lemma drained_resynced:
  assumes inv: "program_inv L ncfg cb cfgs gws evs t" and t: "pg_outbox t = []" "drained (pg_gateways t)"
    and "alive (gr_comp (pg_gateways t))"
  shows "list_all (\<lambda>gw. resynced L (last cfgs) cb (nl_trace (pg_netlink t)) (cell (gr_comp (pg_gateways t)) gw))
    (gateways (gr_comp (pg_gateways t)))"
  unfolding list_all_iff
proof
  let ?xs = "nl_trace (pg_netlink t)"
  fix gw assume gw: "gw \<in> set (gateways (gr_comp (pg_gateways t)))"
  let ?st = "cell (gr_comp (pg_gateways t)) gw"
  have "cell_history L (last cfgs) gws (gateways_part evs) (pg_gateways t) gw"
    using history_invD(4) [OF _ gw] inv by (auto simp: program_inv_def)
  moreover have "delivered cb ?xs = entered (gateways_part evs)"
    using inv t by (simp add: program_inv_def)
  ultimately have k: "(candidateRoutes ?st, currentRoute ?st) = knows L (last cfgs) (delivered cb (last_notified ?xs))"
    using t gw assms(4) by (auto simp: cell_history_def core_def delivered_last drained_def list_all_iff in_flight_def)
  have "at_notification L ncfg cb (last_notified ?xs)" if "delivered cb ?xs = ns @ [end_of_rib]" for ns
    using last_notified_at inv that by (metis program_inv_def snoc_eq_iff_butlast)
  with dump.known_follows [OF k] dump.known_after_dump [OF k]
  show "resynced L (last cfgs) cb ?xs ?st"
    by (simp add: delivered_last resynced_def) blast
qed

text \<open>
  The program converges: in every run in which the gateways were not told to stop, none of their
  goroutines panicked and each gateway has a goroutine that runs, the callback and the gateways can
  finish what the netlink component notified, without any step of that component; then the
  candidates of each gateway are what the updates since the last start of RIB make of an empty list. If
  an end of RIB was notified last, these are the routes that match its source and not its target
  among those the kernel listed since that start, and the route it holds is the target that
  follows from them. (Each gateway works with the last configuration, see \<open>Gateways_Component\<close>.)
\<close>

theorem program_converges:
  assumes "program_start L ncfg cb cfgs p" and "execution (program_step L cb) p evs q"
    and "alive (gr_comp (pg_gateways q))" and "no_panic (pg_gateways q)" and "attended (pg_gateways q)"
  shows "\<exists>fs t. execution (program_step L cb) q fs t \<and> pg_netlink t = pg_netlink q
    \<and> list_all (\<lambda>gw. resynced L (last cfgs) cb (nl_trace (pg_netlink q)) (cell (gr_comp (pg_gateways t)) gw))
      (gateways (gr_comp (pg_gateways t)))"
proof -
  note inv = program_execution_inv [OF assms(2,1)]
  from program_drains [OF inv] assms(3-5) obtain fs t where
    run: "execution (program_step L cb) q fs t" and t: "pg_netlink t = pg_netlink q" "pg_outbox t = []"
      "healthy (pg_gateways t)" "drained (pg_gateways t)" by blast
  from drained_resynced [OF program_inv_execution [OF run inv] t(2,4)] t(1,3) run show ?thesis by auto
qed

section \<open>An example\<close>

text \<open>One gateway, and the kernel of \<open>Resync_Flow\<close>.\<close>

definition subscribed_run :: "nat netlink_run" where
  "subscribed_run = the (nl_do plain_lib (AddSubscriber (Some 7)) (nl_init DefaultConfiguration))"

definition example_program :: "nat program" where
  "example_program = \<lparr>pg_netlink = subscribed_run, pg_outbox = [], pg_gateways = example_system\<rparr>"

lemma subscribed_run_eq:
  "nl_do plain_lib (AddSubscriber (Some 7)) (nl_init DefaultConfiguration) = Some subscribed_run"
proof -
  have "nl_do plain_lib (AddSubscriber (Some 7)) (nl_init DefaultConfiguration :: nat netlink_run) \<noteq> None"
    by (simp add: nl_do_def nl_may_def nl_next_def nl_init_def Subscribe_def newObserver_def netlink_New_def
        close_signal_def go_return_def)
  then show ?thesis by (auto simp: subscribed_run_def)
qed

lemma example_program_start: "program_start plain_lib DefaultConfiguration 7 [example_config] example_program"
  using nl_do_step [of plain_lib "AddSubscriber (Some 7)" "nl_init DefaultConfiguration" subscribed_run]
  by (simp add: program_start_def example_program_def example_system_start documented_step_def subscribed_run_eq
      documented_def)

lemma example_program_healthy: "healthy (pg_gateways example_program)" "callback_returned example_program"
  using start_props(5) [of "gr_comp example_system" "[example_config]"] example_system_start
  by (simp_all add: example_program_def callback_returned_def gateways_start_def attended_def no_panic_def)
    (simp_all add: example_system_def Start_gateways_def New_def newGateway_def Let_def example_gateway_def)

lemma example_program_dump:
  "\<exists>fs t. execution (program_step plain_lib 7) example_program fs t \<and> pg_netlink t = dumped_run
     \<and> healthy (pg_gateways t)"
proof -
  have plain: "list_all plain_event (tl route_dump)" "list_all (\<lambda>ev. \<not> subscribes ev) (tl route_dump)"
    and cons: "route_dump = AddSubscriber (Some 7) # tl route_dump"
    by (simp_all add: route_dump_def plain_event_def Let_def real_route_def example_route_def main_route_def
        RT_TABLE_UNSPEC_def subscribes_def)
  have "nl_exec plain_lib (AddSubscriber (Some 7) # tl route_dump) (nl_init DefaultConfiguration) = Some dumped_run"
    using dumped_run_exec by (simp only: cons [symmetric])
  then have "nl_exec plain_lib (tl route_dump) subscribed_run = Some dumped_run"
    by (simp add: subscribed_run_eq)
  then have run: "execution (documented_step plain_lib) subscribed_run (tl route_dump) dumped_run"
    by (rule nl_exec_execution [OF plain(1)])
  show ?thesis
    using program_follows [OF run program_start_inv [OF example_program_start]] example_program_healthy plain(2)
    by (auto simp: example_program_def)
qed

lemma last_notified_snoc [simp]: "last_notified (zs @ [Notify c n]) = zs @ [Notify c n]"
  by (simp add: last_notified_def is_notify_def)

theorem program_converges_witness:
  "\<exists>evs t. execution (program_step plain_lib 7) example_program evs t
     \<and> list_all (\<lambda>gw. let st = cell (gr_comp (pg_gateways t)) gw in
         candidateRoutes st = [example_route 5 2] \<and> settled plain_lib example_config [example_route 5 2] (currentRoute st))
       (gateways (gr_comp (pg_gateways t)))"
proof -
  obtain fs q where q: "execution (program_step plain_lib 7) example_program fs q" "pg_netlink q = dumped_run"
      "healthy (pg_gateways q)" using example_program_dump by blast
  obtain gs t where t: "execution (program_step plain_lib 7) q gs t"
      "list_all (\<lambda>gw. resynced plain_lib example_config 7 (nl_trace dumped_run) (cell (gr_comp (pg_gateways t)) gw))
        (gateways (gr_comp (pg_gateways t)))"
    using program_converges [OF example_program_start q(1)] q(2,3) by auto
  obtain zs where zs: "nl_trace dumped_run = zs @ [Notify (Some 7) end_of_rib]" using dumped_run_trace by blast
  have "resynced plain_lib example_config 7 (nl_trace dumped_run) st \<Longrightarrow>
      candidateRoutes st = [example_route 5 2] \<and> settled plain_lib example_config [example_route 5 2] (currentRoute st)" for st
    using dumped_run_listed dump_example by (auto simp: resynced_def zs)
  with t(2) have "list_all (\<lambda>gw. let st = cell (gr_comp (pg_gateways t)) gw in
         candidateRoutes st = [example_route 5 2] \<and> settled plain_lib example_config [example_route 5 2] (currentRoute st))
       (gateways (gr_comp (pg_gateways t)))"
    by (simp add: list_all_iff Let_def)
  with execution_append [where step = "program_step plain_lib 7", OF t(1) q(1)] show ?thesis by blast
qed

theorem program_delivers_in_order_witness:
  "\<exists>fs q. execution (program_step plain_lib 7) example_program fs q \<and>
     list_all (\<lambda>gw. delivered 7 (nl_trace dumped_run)
       = handled_cell (worker_gateways (pg_gateways example_program)) (gw_state gw) (gateways_part fs)
         @ queue (gr_comp (pg_gateways q)) (gw_state gw) @ in_flight gw (pg_gateways q) @ pg_outbox q)
       (gateways (gr_comp (pg_gateways q)))"
proof -
  obtain fs q where q: "execution (program_step plain_lib 7) example_program fs q" "pg_netlink q = dumped_run"
      "healthy (pg_gateways q)" using example_program_dump by blast
  then show ?thesis
    using program_delivers_in_order [OF example_program_start q(1)]
    by (intro exI [of _ fs] exI [of _ q]) (simp add: list_all_iff Let_def)
qed

end
