(* ===== verification/Program_Schedules.thy ===== *)
theory Program_Schedules
  imports Program_Flow
begin

text \<open>
  The convergence of the program does not depend on the order in which its goroutines run: the steps
  that serve notifications are bounded by those that wait and those that still come, and as
  long as a gateway lags behind, one of them is possible.
\<close>

section \<open>What is left to do\<close>

text \<open>The pushes of the callback in progress, each with the notification to handle, and its return.\<close>

definition callback_work :: "'x gateways_run \<Rightarrow> nat" where
  "callback_work s = (case gr_callback s of None \<Rightarrow> 0 | Some (n, gws) \<Rightarrow> Suc (2 * length gws))"

definition gateways_work :: "'x gateways_run \<Rightarrow> nat" where
  "gateways_work s = callback_work s + queued s"

text \<open>The steps one notification needs: the call, a push and a handling for each gateway, the return.\<close>

definition notification_cost :: "'x gateways_run \<Rightarrow> nat" where
  "notification_cost s = 2 * length (gateways (gr_comp s)) + 2"

definition work_left :: "'x program \<Rightarrow> nat" where
  "work_left p = notification_cost (pg_gateways p) * length (pg_outbox p) + gateways_work (pg_gateways p)"

text \<open>The notifications so far.\<close>

definition announced :: "callback_name \<Rightarrow> 'x program \<Rightarrow> nat" where
  "announced cb p = length (delivered cb (nl_trace (pg_netlink p)))"

section \<open>Every step counts\<close>

text \<open>A change of the channel of one gateway.\<close>

lemma queued_store:
  assumes ok: "component_ok (gr_comp s)" and gw: "gw \<in> set (gateways (gr_comp s))"
    and room: "gw_state gw < length (state_cells (gr_comp s))"
    and t: "gr_comp t = store_cell gw st (gr_comp s)"
  shows "queued t + length (queue (gr_comp s) (gw_state gw)) = queued s + length (notification st)"
proof -
  let ?G = "set (gateways (gr_comp s))"
  have other: "queue (gr_comp t) (gw_state g) = queue (gr_comp s) (gw_state g)" if "g \<in> ?G - {gw}" for g
    using that component_ok_eq [OF ok _ gw, of g] by (simp add: t queue_store [OF room])
  have "queued t = length (notification st)
      + (\<Sum>g \<in> ?G - {gw}. length (queue (gr_comp s) (gw_state g)))"
    using sum.remove [OF _ gw, of "\<lambda>g. length (queue (gr_comp t) (gw_state g))"] other
    by (simp add: queued_def t queue_store [OF room])
  moreover have "queued s = length (queue (gr_comp s) (gw_state gw))
      + (\<Sum>g \<in> ?G - {gw}. length (queue (gr_comp s) (gw_state g)))"
    using sum.remove [OF _ gw, of "\<lambda>g. length (queue (gr_comp s) (gw_state g))"] by (simp add: queued_def)
  ultimately show ?thesis by simp
qed

lemma handled_length: "length (handled [Select e]) = (if serving (Work k e) then 1 else 0)"
  by (cases e) (auto simp: handled_def serving_def)

lemma gateways_step_work:
  assumes inv: "history_inv L cfgs evs s" and step: "gateways_step L s e t" and "\<not> of_callback e"
  shows "gateways_work t + (if serving e then 1 else 0) \<le> gateways_work s"
  using step
proof cases
  case (push_one n gw gws c)
  have gw: "gw \<in> set (gateways (gr_comp s))"
    using history_invD(2) [OF inv] push_one(4) by (simp add: callback_suffix_def)
  note room = system_inv_cell(1) [OF history_invD(1) [OF inv] gw]
  obtain st where c: "c = store_cell gw st (gr_comp s)"
    and st: "notification st = notification (cell (gr_comp s) gw) @ [n]"
    using push_one(5) by (auto simp: pushNotification_store split: if_splits)
  have "gr_comp t = store_cell gw st (gr_comp s)" using push_one(2) c by simp
  from queued_store [OF history_invD(3) [OF inv] gw room this] have "queued t = Suc (queued s)"
    by (simp add: st queue_cell)
  with push_one show ?thesis by (simp add: gateways_work_def callback_work_def)
next
  case (work k gw ph ev cfg v)
  have gw: "gw \<in> set (gateways (gr_comp s))"
    using work(4,5) history_invD(1) [OF inv] by (force simp: system_inv_def dest: nth_mem)
  note c = system_inv_cell [OF history_invD(1) [OF inv] gw]
  have cfg: "cfg = last cfgs" using work(7) c(4) by simp
  have "knows L (last cfgs) (handled_cell (worker_gateways s) (gw_state gw) evs) = core (abs_gateway (cell (gr_comp s) gw))"
    using history_invD(4) [OF inv gw] by (simp add: cell_history_def)
  from work_cell [OF c(2) work(8) [unfolded cfg] this]
  have q: "queue (gr_comp s) (gw_state gw) = handled [Select ev] @ notification (gstate v)"
    by (simp add: queue_cell)
  have "gr_comp t = store_cell gw (gstate v) (gr_comp s)" using work(2) by simp
  from queued_store [OF history_invD(3) [OF inv] gw c(1) this] q
  have "queued t + length (handled [Select ev]) = queued s" by simp
  with work(1,2) show ?thesis
    by (simp add: gateways_work_def callback_work_def handled_length [of ev k] split: if_splits)
next
  case (leave n)
  then show ?thesis by (simp add: gateways_work_def callback_work_def queued_def)
next
  case stop_all
  then show ?thesis by (simp add: gateways_work_def callback_work_def queued_def queue_def serving_def)
qed (use assms(3) in \<open>simp add: of_callback_def\<close>)

lemma program_step_work:
  assumes inv: "program_inv L ncfg cb cfgs gws evs p" and step: "program_step L cb p e q"
  shows "work_left q + (if serves e then 1 else 0) + notification_cost (pg_gateways p) * announced cb p
      \<le> work_left p + notification_cost (pg_gateways p) * announced cb q
    \<and> notification_cost (pg_gateways q) = notification_cost (pg_gateways p)"
  using step
proof cases
  case (netlink ev n es)
  then show ?thesis by (simp add: work_left_def serves_def announced_def add_mult_distrib2)
next
  case (call n ns g)
  from call(4) have g: "g = (pg_gateways p)\<lparr>gr_callback := Some (enter_callback n (gr_comp (pg_gateways p)))\<rparr>"
    "gr_callback (pg_gateways p) = None" by (auto elim: gateways_stepE)
  then have "gateways_work g + 1 \<le> gateways_work (pg_gateways p) + notification_cost (pg_gateways p)"
    by (simp add: gateways_work_def callback_work_def notification_cost_def enter_callback_def queued_def)
  with call g(1) show ?thesis by (simp add: work_left_def serves_def notification_cost_def announced_def)
next
  case (gateways e' g)
  have "history_inv L cfgs (gateways_part evs) (pg_gateways p)" using inv by (simp add: program_inv_def)
  from gateways_step_work [OF this gateways(4,3)] gateways(1,2) step_frame(2) [OF gateways(4)] show ?thesis
    by (simp add: work_left_def serves_def notification_cost_def announced_def)
qed

lemma program_run_work:
  assumes "execution (program_step L cb) p fs q" and "program_inv L ncfg cb cfgs gws evs p"
  shows "work_left q + length (filter serves fs) + notification_cost (pg_gateways p) * announced cb p
      \<le> work_left p + notification_cost (pg_gateways p) * announced cb q
    \<and> notification_cost (pg_gateways q) = notification_cost (pg_gateways p)"
  using assms
proof (induction rule: execution.induct)
  case (execution_snoc p es t e u)
  from program_step_work [OF program_inv_execution [OF execution_snoc.hyps(1) execution_snoc.prems] execution_snoc.hyps(2)]
    execution_snoc.IH [OF execution_snoc.prems] show ?case by auto
qed simp

section \<open>Nobody waits for ever\<close>

lemma serving_possible:
  assumes inv: "program_inv L ncfg cb cfgs gws evs p" and ok: "healthy (pg_gateways p)"
    and busy: "pg_outbox p \<noteq> [] \<or> \<not> drained (pg_gateways p)"
  shows "\<exists>e q. serves e \<and> program_step L cb p e q"
proof (cases "drained (pg_gateways p)")
  case True
  with busy obtain n ns where out: "pg_outbox p = n # ns" by (cases "pg_outbox p") auto
  have "gateways_step L (pg_gateways p) (EnterCallback n)
      ((pg_gateways p)\<lparr>gr_callback := Some (enter_callback n (gr_comp (pg_gateways p)))\<rparr>)"
    using True ok by (intro gateways_step.enter) (simp_all add: drained_def)
  from program_step.call [OF out this] show ?thesis by (intro exI [of _ "Call n"] exI) (simp add: serves_def)
next
  case False
  have "history_inv L cfgs (gateways_part evs) (pg_gateways p)" using inv by (simp add: program_inv_def)
  from serve_step [OF this ok False] obtain e t where step: "gateways_step L (pg_gateways p) e t" and e: "serving e"
    by blast
  have "\<not> of_callback e" using e by (auto simp: serving_def of_callback_def)
  from program_step.gateways [OF this step] e show ?thesis
    by (intro exI [of _ "GatewaysStep e"] exI) (simp add: serves_def)
qed

text \<open>
  C3. The program converges under every schedule. In any continuation of any run, whatever the
  order of its goroutines, the steps that serve notifications (a call of the callback, a push,
  its return, the handling by a gateway) are bounded: by what was left to do, plus two for each gateway and
  two more for each notification the netlink component adds meanwhile. And at every moment at which
  the gateways were not told to stop, none has panicked and each has a goroutine that runs, either
  such a step is possible, or every gateway is up to date: its candidates are what the updates
  since the last start of RIB make of an empty list, and if an end of RIB was notified last, they are the matching
  routes the kernel listed and the route it holds is the target that follows. (Each gateway works with the last
  configuration, see \<open>Gateways_Component\<close>.)
\<close>

theorem program_converges_under_every_schedule:
  assumes "program_start L ncfg cb cfgs p" and "execution (program_step L cb) p evs q"
    and "execution (program_step L cb) q fs t"
  shows "length (filter serves fs) \<le> work_left q + (2 * length cfgs + 2) * (announced cb t - announced cb q)
    \<and> (healthy (pg_gateways t) \<longrightarrow>
        (\<exists>e u. serves e \<and> program_step L cb t e u)
      \<or> list_all (\<lambda>gw. resynced L (last cfgs) cb (nl_trace (pg_netlink t)) (cell (gr_comp (pg_gateways t)) gw))
          (gateways (gr_comp (pg_gateways t))))"
proof
  note inv = program_execution_inv [OF assms(2,1)]
  have "gateways_start cfgs (pg_gateways p)" using assms(1) by (simp add: program_start_def)
  then have "length (gateways (gr_comp (pg_gateways p))) = length cfgs"
    using start_props(7) by (auto simp: gateways_start_def)
  then have cost: "notification_cost (pg_gateways q) = 2 * length cfgs + 2"
    using program_run_work [OF assms(2) program_start_inv [OF assms(1)]] by (simp add: notification_cost_def)
  show "length (filter serves fs) \<le> work_left q + (2 * length cfgs + 2) * (announced cb t - announced cb q)"
    using program_run_work [OF assms(3) inv, THEN conjunct1] unfolding cost diff_mult_distrib2 by linarith
  show "healthy (pg_gateways t) \<longrightarrow> (\<exists>e u. serves e \<and> program_step L cb t e u)
      \<or> list_all (\<lambda>gw. resynced L (last cfgs) cb (nl_trace (pg_netlink t)) (cell (gr_comp (pg_gateways t)) gw))
          (gateways (gr_comp (pg_gateways t)))"
    using serving_possible drained_resynced program_inv_execution [OF assms(3) inv] by blast
qed

text \<open>From the end of the example dump: while nothing new is notified, what was left bounds the steps.\<close>

theorem program_converges_under_every_schedule_witness:
  "\<exists>evs q. execution (program_step plain_lib 7) example_program evs q \<and> pg_netlink q = dumped_run
     \<and> healthy (pg_gateways q)
     \<and> (\<forall>fs t. execution (program_step plain_lib 7) q fs t \<and> pg_netlink t = dumped_run \<longrightarrow>
          length (filter serves fs) \<le> work_left q)"
proof -
  obtain evs q where q: "execution (program_step plain_lib 7) example_program evs q" "pg_netlink q = dumped_run"
      "healthy (pg_gateways q)" using example_program_dump by blast
  have "length (filter serves fs) \<le> work_left q"
    if "execution (program_step plain_lib 7) q fs t" "pg_netlink t = dumped_run" for fs t
    using program_converges_under_every_schedule [OF example_program_start q(1) that(1)] q(2) that(2) by (simp add: announced_def)
  with q show ?thesis by blast
qed

end
