(* ===== verification/Gateway_Confirmed.thy ===== *)
theory Gateway_Confirmed
  imports Gateway_Loop
begin

text \<open>
  What the kernel told a gateway about its last-resort route, against what the gateway believes
  (\<^verbatim>\<open>currentRoute\<close> of \<^verbatim>\<open>src/gateways/gateway.go\<close>). The gateway hears of the kernel's route in two
  ways: a handled update that matches the \<^verbatim>\<open>to\<close> block, and an \<^verbatim>\<open>AddRoute\<close> that the kernel
  accepts. A failed \<^verbatim>\<open>AddRoute\<close>, a source route or the limits of a dump tell it nothing.
\<close>

section \<open>The last confirmation, from the events of a run\<close>

definition confirmed_by :: "'x stimulus \<Rightarrow> 'x route option \<Rightarrow> 'x route option" where
  "confirmed_by e c = (case e of TargetSeen r \<Rightarrow> Some r | TargetGone \<Rightarrow> None | _ \<Rightarrow> c)"

text \<open>
  The handled notifications and the last confirmation. An accepted \<^verbatim>\<open>AddRoute\<close> is for the current
  route the specification computes from the notifications handled so far.
\<close>

definition confirm ::
    "'x netlink_lib \<Rightarrow> lrg_config \<Rightarrow> 'x notification list \<times> 'x route option \<Rightarrow> 'x gateway_event
      \<Rightarrow> 'x notification list \<times> 'x route option" where
  "confirm L cfg h e = (case e of
      Push n \<Rightarrow> h
    | Select Dying \<Rightarrow> h
    | Select (Notified n) \<Rightarrow> (fst h @ [n], confirmed_by (classify cfg n) (snd h))
    | Select (InstallTick d err) \<Rightarrow>
        if err = None then (fst h, snd (knows L cfg (fst h))) else h)"

definition confirmed ::
    "'x netlink_lib \<Rightarrow> lrg_config \<Rightarrow> 'x gateway_event list \<Rightarrow> 'x route option" where
  "confirmed L cfg evs = snd (foldl (confirm L cfg) ([], None) evs)"

lemma confirm_handled: "fst (foldl (confirm L cfg) ([], None) evs) = handled evs"
proof (induction evs rule: rev_induct)
  case Nil
  show ?case by simp
next
  case (snoc e evs)
  then show ?case
    by (cases e rule: gateway_event.exhaust) (auto simp: confirm_def split: select_case.split)
qed

lemma confirmed_simps [simp]:
  "confirmed L cfg [] = None"
  "confirmed L cfg (evs @ [Push n]) = confirmed L cfg evs"
  "confirmed L cfg (evs @ [Select Dying]) = confirmed L cfg evs"
  "confirmed L cfg (evs @ [Select (Notified n)]) = confirmed_by (classify cfg n) (confirmed L cfg evs)"
  "confirmed L cfg (evs @ [Select (InstallTick d None)]) = snd (knows L cfg (handled evs))"
  "confirmed L cfg (evs @ [Select (InstallTick d (Some e))]) = confirmed L cfg evs"
  by (simp_all add: confirmed_def confirm_def confirm_handled)

section \<open>One stimulus\<close>

text \<open>A gateway with candidates is settled; one without may not be, between a reset and the resync.\<close>

definition candidates_settled :: "'x netlink_lib \<Rightarrow> lrg_config \<Rightarrow> 'x gateway_spec \<Rightarrow> bool" where
  "candidates_settled L cfg s \<longleftrightarrow> sp_candidates s = [] \<or> spec_settled L cfg s"

lemma spec_step_candidates_settled:
  "candidates_settled L cfg s \<Longrightarrow> candidates_settled L cfg (spec_step L cfg e s)"
  using spec_step_settled [of e L cfg s]
  by (cases "e = Reset") (auto simp: candidates_settled_def spec_step_def spec_learn_def)

text \<open>Without a pending installation, a stimulus changes the current route as the kernel reports.\<close>

lemma spec_step_idle:
  assumes "\<not> sp_pending (spec_step L cfg e s)"
  shows "\<not> sp_pending s \<and> sp_current (spec_step L cfg e s) = confirmed_by e (sp_current s)"
  using assms
  by (cases e) (auto simp: spec_step_def spec_learn_def spec_settle_def confirmed_by_def split: if_splits)

section \<open>The invariant of a run\<close>

definition in_agreement ::
    "'x netlink_lib \<Rightarrow> lrg_config \<Rightarrow> 'x route option \<Rightarrow> 'x gateway_run \<Rightarrow> bool" where
  "in_agreement L cfg c s \<longleftrightarrow> candidates_settled L cfg (abs_gateway (gstate s))
     \<and> (if phase s = Running \<and> installationTick (gstate s) = None
        then currentRoute (gstate s) = c else True)"

lemma agreement_outcome:
  assumes ok: "gateway_ok cfg (gstate s)" and run: "phase s = Running"
    and out: "outcome_of L i cfg s (outcome s ev) t"
    and k: "knows L cfg (handled evs) = core (abs_gateway (gstate s))"
    and inv: "in_agreement L cfg (confirmed L cfg evs) s"
  shows "in_agreement L cfg (confirmed L cfg (evs @ [Select ev])) t"
proof (cases ev)
  case (Notified n)
  with out obtain q st' es
    where pn: "processNotification L i cfg ((gstate s)\<lparr>notification := q\<rparr>) n = Inr (st', es)"
    and t: "t = s\<lparr>gstate := st', trace := trace s @ es\<rparr>"
    by (auto simp: outcome_def elim: outcome_of.cases)
  have "gateway_ok cfg ((gstate s)\<lparr>notification := q\<rparr>)" using ok by simp
  from go_okD [OF processNotification_implements [OF this] pn]
  have abs: "abs_gateway st' = spec_step L cfg (classify cfg n) (abs_gateway (gstate s))"
    by (simp add: implements_def)
  from spec_step_candidates_settled [of L cfg "abs_gateway (gstate s)" "classify cfg n"]
    spec_step_idle [of L cfg "classify cfg n" "abs_gateway (gstate s)"] inv run
  show ?thesis by (simp add: Notified t in_agreement_def flip: abs)
next
  case Dying
  with out inv show ?thesis
    by (auto simp: outcome_def in_agreement_def candidates_settled_def elim!: outcome_of.cases)
next
  case (InstallTick d err)
  with out inv k show ?thesis
    by (cases err)
       (auto simp: outcome_def in_agreement_def candidates_settled_def core_def elim!: outcome_of.cases split: option.splits)
qed

lemma agreement_invariant:
  assumes "execution (gateway_step L i cfg) s evs t" and "gateway_start s"
  shows "in_agreement L cfg (confirmed L cfg evs) t"
  using assms
proof (induction rule: execution.induct)
  case (execution_nil s)
  then show ?case by (simp add: gateway_start_def new_gateway_state_def in_agreement_def candidates_settled_def)
next
  case (execution_snoc s evs t e u)
  note history = history_invariant [OF execution_snoc.hyps(1) execution_snoc.prems]
  have "gateway_reach L i cfg t"
    unfolding gateway_reach_def
    by (rule execution_reach [where start = gateway_start, OF execution_snoc.hyps(1) execution_snoc.prems])
  then have ok: "gateway_ok cfg (gstate t)"
    using gateway_reach_inv by (auto simp: loop_inv_def)
  show ?case
  proof (cases e)
    case (Push n)
    with execution_snoc show ?thesis
      by (auto elim!: gateway_step_PushE simp: in_agreement_def)
  next
    case (Select c)
    from step_outcome [OF ok execution_snoc.hyps(2) [unfolded Select]]
    have "phase t = Running" "outcome_of L i cfg t (outcome t c) u" by simp_all
    from agreement_outcome [OF ok this, of evs] history execution_snoc show ?thesis
      by (simp add: Select)
  qed
qed

section \<open>The property\<close>

text \<open>
  An idle gateway and the kernel agree: in every run, whatever the interleaving of
  notifications, refused and accepted installations, a running gateway with no pending
  installation believes exactly what the kernel confirmed last (the route of the last accepted
  \<^verbatim>\<open>AddRoute\<close> or of the last handled update of the \<^verbatim>\<open>to\<close> block, none after its deletion); and
  while it has candidates that route is the target computed from them, up to \<^verbatim>\<open>Equal\<close>.
\<close>

theorem idle_gateway_agrees_with_kernel:
  assumes "gateway_start s" and "execution (gateway_step L i cfg) s evs t"
    and "phase t = Running" and "installationTick (gstate t) = None"
  shows "currentRoute (gstate t) = confirmed L cfg evs
    \<and> (if candidateRoutes (gstate t) = [] then True
       else \<exists>target c. targetRoute L (candidateRoutes (gstate t)) (To cfg) = Some target
         \<and> confirmed L cfg evs = Some c \<and> (c = target \<or> route_Equal L target c))"
  using agreement_invariant [OF assms(2,1)] assms(3,4)
    targetRoute_None [of L "candidateRoutes (gstate t)" "To cfg"]
  by (auto simp: in_agreement_def candidates_settled_def settled_def split: option.splits if_splits)

text \<open>A source route appears, its copy is refused once, then accepted.\<close>

definition example_events :: "nat gateway_event list" where
  "example_events = [Push (new_route (example_route 5 2)), Select (Notified (new_route (example_route 5 2)))]
     @ tick_events [(second, ''busy'')] (second * 2)"

lemma example_run:
  "\<exists>t. execution (gateway_step plain_lib 1 no_blackhole_config)
       (run_from new_gateway_state start_effects) example_events t
     \<and> phase t = Running \<and> installationTick (gstate t) = None
     \<and> candidateRoutes (gstate t) = [example_route 5 2]"
proof -
  let ?r = "example_route 5 2"
  let ?t = "retarget (To no_blackhole_config) ?r"
  define st where "st = started (new_gateway_state\<lparr>candidateRoutes := [?r], currentRoute := Some ?t\<rparr>)"
  have "classify no_blackhole_config (new_route ?r) = SourceSeen ?r"
    and "candidates_add plain_lib ?r [] = [?r]"
    and "targetRoute plain_lib [?r] (To no_blackhole_config) = Some ?t"
    by code_simp+
  then have "\<exists>fs. processNotification plain_lib 1 no_blackhole_config new_gateway_state (new_route ?r)
      = Inr (st, fs)"
    by (simp add: process_SourceSeen keeps_current_def installCandidateRoute_change
        go_bind_emit_Inr st_def new_gateway_state_def tickers_ok_def)
  then obtain fs where fs: "processNotification plain_lib 1 no_blackhole_config new_gateway_state
      (new_route ?r) = Inr (st, fs)" ..
  have "notification (new_gateway_state :: nat gateway_state) = []"
    by (simp add: new_gateway_state_def)
  note handle = handle_run [OF this fs, of start_effects]
  have ok: "tickers_ok st" "installationTick st = Some 0" "currentRoute st = Some ?t"
    by (simp_all add: st_def new_gateway_state_def)
  let ?step = "gateway_step plain_lib 1 no_blackhole_config"
  let ?mid = "run_from st ((start_effects @ fs) @ concat (map (fail_effects 1 ?t) [(second, ''busy'')]))"
  let ?final = "run_from (st\<lparr>installationTick := None\<rparr>)
      (((start_effects @ fs) @ concat (map (fail_effects 1 ?t) [(second, ''busy'')]))
        @ [AddRoute ?t, TickerStop 0, GaugeUpdate (gw_metric 1 ''.state'') LRGStateInstalled])"
  have "execution ?step (run_from st (start_effects @ fs))
      (map (\<lambda>(e, msg). Select (InstallTick e (Some msg))) [(second, ''busy'')]) ?mid"
    by (rule failing_ticks [OF ok])
  moreover have "?step ?mid (Select (InstallTick (second * 2) None)) ?final"
    by (rule success_tick [OF ok])
  ultimately have "execution ?step (run_from st (start_effects @ fs))
      (tick_events [(second, ''busy'')] (second * 2)) ?final"
    unfolding tick_events_def by (rule execution_snoc [where step = ?step])
  then have "execution ?step (run_from new_gateway_state start_effects) example_events ?final"
    unfolding example_events_def by (rule execution_append [where step = ?step, OF _ handle])
  moreover have "phase ?final = Running" "installationTick (gstate ?final) = None"
      "candidateRoutes (gstate ?final) = [?r]"
    by (simp_all add: run_from_def st_def)
  ultimately show ?thesis by blast
qed

theorem idle_gateway_agrees_with_kernel_witness:
  "confirmed plain_lib no_blackhole_config example_events
     = Some (retarget (To no_blackhole_config) (example_route 5 2))
   \<and> (\<exists>t. execution (gateway_step plain_lib 1 no_blackhole_config)
       (run_from new_gateway_state start_effects) example_events t
     \<and> currentRoute (gstate t) = confirmed plain_lib no_blackhole_config example_events)"
proof
  show "confirmed plain_lib no_blackhole_config example_events
     = Some (retarget (To no_blackhole_config) (example_route 5 2))"
    by code_simp
  have "gateway_start (run_from new_gateway_state start_effects :: nat gateway_run)"
    by (simp add: gateway_start_def run_from_def start_effects_def)
  from idle_gateway_agrees_with_kernel [OF this] example_run
  show "\<exists>t. execution (gateway_step plain_lib 1 no_blackhole_config)
       (run_from new_gateway_state start_effects) example_events t
     \<and> currentRoute (gstate t) = confirmed plain_lib no_blackhole_config example_events"
    by blast
qed

end
