(* ===== verification/Gateways_Agreement.thy ===== *)
theory Gateways_Agreement
  imports Gateways_History Gateway_Confirmed
begin

text \<open>
  What the kernel confirmed to each gateway of the component (\<open>Gateway_Confirmed\<close>), in a run of all
  its goroutines with the callback: the events of a gateway are those of the goroutines that work on it.
\<close>

section \<open>The events of a gateway\<close>

definition cell_events :: "gateway list \<Rightarrow> addr \<Rightarrow> 'x gateways_event list \<Rightarrow> 'x gateway_event list" where
  "cell_events gws a evs = concat (map (\<lambda>e. case e of
      Work k c \<Rightarrow> if gw_state (gws ! k) = a then [Select c] else [] | _ \<Rightarrow> []) evs)"

lemma cell_events_simps [simp]:
  "cell_events gws a [] = []" "cell_events gws a (es @ fs) = cell_events gws a es @ cell_events gws a fs"
  "cell_events gws a [EnterCallback n] = []" "cell_events gws a [PushOne] = []"
  "cell_events gws a [LeaveCallback] = []" "cell_events gws a [StopAll] = []"
  "cell_events gws a [Work k c] = (if gw_state (gws ! k) = a then [Select c] else [])"
  by (simp_all add: cell_events_def)

lemma handled_cell_events: "handled (cell_events gws a evs) = handled_cell gws a evs"
proof (induction evs rule: rev_induct)
  case (snoc e evs)
  then show ?case by (cases e) simp_all
qed simp

text \<open>What a gateway knows is settled, whatever it handled.\<close>

lemma spec_steps_candidates_settled:
  "candidates_settled L cfg s \<Longrightarrow> candidates_settled L cfg (spec_steps L cfg es s)"
proof (induction es rule: rev_induct)
  case (snoc e es)
  then show ?case by (simp add: spec_steps_append spec_step_candidates_settled)
qed simp

lemma knows_settled:
  assumes "knows L cfg ns = core (abs_gateway st)"
  shows "candidates_settled L cfg (abs_gateway st)"
proof -
  have "candidates_settled L cfg (abs_gateway (new_gateway_state :: 'a gateway_state))"
    by (simp add: candidates_settled_def new_gateway_state_def)
  from spec_steps_candidates_settled [OF this, of "map (classify cfg) ns"] assms show ?thesis
    by (simp add: candidates_settled_def knows_def core_def)
qed

section \<open>The invariant\<close>

definition cell_agreement ::
    "'x netlink_lib \<Rightarrow> lrg_config \<Rightarrow> 'x gateways_event list \<Rightarrow> 'x gateways_run \<Rightarrow> gateway \<Rightarrow> bool" where
  "cell_agreement L cfg evs s gw \<longleftrightarrow>
     (if alive (gr_comp s) \<and> no_panic s \<and> installationTick (cell (gr_comp s) gw) = None
      then currentRoute (cell (gr_comp s) gw) = confirmed L cfg (cell_events (worker_gateways s) (gw_state gw) evs)
      else True)"

text \<open>A goroutine that neither panicked nor was told to stop goes on.\<close>

lemma work_goes_on:
  assumes "gateway_ok cfg (gstate s)" and "gateway_step L i cfg s (Select ev) t" and "ev \<noteq> Dying"
  shows "phase t = Running \<or> (\<exists>p. phase t = Panicked p)"
proof -
  from step_outcome [OF assms(1,2)] have "phase s = Running" "outcome_of L i cfg s (outcome s ev) t" by simp_all
  with assms(3) show ?thesis
    by (cases ev) (auto simp: outcome_def elim!: outcome_of.cases split: option.splits)
qed

lemma agreement_work:
  assumes inv: "history_inv L cfgs evs s" and agree: "cell_agreement L (last cfgs) evs s g"
    and g: "g \<in> set (gateways (gr_comp s))" and np: "no_panic s"
    and k: "k < length (gr_workers s)" "gr_workers s ! k = (gw, ph)"
    and may: "may_take (gr_comp s) ev" and cfg: "config_of (gr_comp s) gw = Some cfg"
    and step: "gateway_step L (gw_index gw) cfg (view_of (gr_comp s) (gw, ph)) (Select ev) v"
  shows "cell_agreement L (last cfgs) (evs @ [Work k ev])
    (s\<lparr>gr_comp := store_cell gw (gstate v) (gr_comp s), gr_workers := (gr_workers s)[k := (gw, phase v)]\<rparr>) g"
    (is "cell_agreement L (last cfgs) ?evs ?t g")
proof (cases "alive (gr_comp s) \<and> no_panic ?t")
  case False
  then show ?thesis by (auto simp: cell_agreement_def)
next
  case True
  have gw: "gw \<in> set (gateways (gr_comp s))"
    using k history_invD(1) [OF inv] by (force simp: system_inv_def dest: nth_mem)
  note c = system_inv_cell [OF history_invD(1) [OF inv] gw]
  have cfg': "cfg = last cfgs" using cfg c(4) by simp
  have w: "worker_gateways s ! k = gw" "map fst ((gr_workers s)[k := (gw, x)]) = worker_gateways s" for x
    using k map_fst_update by auto
  show ?thesis
  proof (cases "g = gw")
    case False
    with component_ok_eq [OF history_invD(3) [OF inv] g gw] agree w np show ?thesis
      by (simp add: cell_agreement_def cell_store [OF c(1)])
  next
    case gw_eq: True
    let ?e = "cell_events (worker_gateways s) (gw_state gw) evs" and ?v = "view_of (gr_comp s) (gw, ph)"
    have ok: "gateway_ok (last cfgs) (gstate ?v)" using c(2) by (simp add: view_of_def)
    from step_outcome [OF ok step [unfolded cfg']]
    have run: "phase ?v = Running" and out: "outcome_of L (gw_index gw) (last cfgs) ?v (outcome ?v ev) v" by simp_all
    have know: "knows L (last cfgs) (handled ?e) = core (abs_gateway (gstate ?v))"
      using history_invD(4) [OF inv gw] by (simp add: cell_history_def handled_cell_events view_of_def)
    have "in_agreement L (last cfgs) (confirmed L (last cfgs) ?e) ?v"
      using knows_settled [OF know] agree True np
      by (auto simp: in_agreement_def view_of_def cell_agreement_def gw_eq)
    from agreement_outcome [OF ok run out know this]
    have after: "in_agreement L (last cfgs) (confirmed L (last cfgs) (?e @ [Select ev])) v" .
    have "ev \<noteq> Dying" using may True by (auto simp: may_take_def)
    from work_goes_on [OF ok step [unfolded cfg'] this] True k(1) have "phase v = Running"
      by (auto simp: no_panic_def list_all_length dest: spec [where x = k])
    with after show ?thesis
      by (auto simp: cell_agreement_def in_agreement_def gw_eq cell_store [OF c(1)] w)
  qed
qed

lemma agreement_step:
  assumes inv: "history_inv L cfgs evs s" and step: "gateways_step L s ev t"
    and agree: "list_all (cell_agreement L (last cfgs) evs s) (gateways (gr_comp s))"
  shows "list_all (cell_agreement L (last cfgs) (evs @ [ev]) t) (gateways (gr_comp t))"
  unfolding list_all_iff step_frame(2) [OF step]
proof
  fix g assume g: "g \<in> set (gateways (gr_comp s))"
  then have here: "cell_agreement L (last cfgs) evs s g" using agree by (simp add: list_all_iff)
  show "cell_agreement L (last cfgs) (evs @ [ev]) t g"
    using step
  proof cases
    case (push_one n gw gws c)
    have gw: "gw \<in> set (gateways (gr_comp s))"
      using history_invD(2) [OF inv] push_one(4) by (simp add: callback_suffix_def)
    note room = system_inv_cell(1) [OF history_invD(1) [OF inv] gw]
    obtain st where c: "c = store_cell gw st (gr_comp s)" "installationTick st = installationTick (cell (gr_comp s) gw)"
        "currentRoute st = currentRoute (cell (gr_comp s) gw)"
      using push_one(5) by (auto simp: pushNotification_store split: if_splits)
    with here push_one component_ok_eq [OF history_invD(3) [OF inv] g gw] show ?thesis
      by (auto simp: cell_agreement_def cell_store [OF room] no_panic_def)
  next
    case (work k gw ph c cfg v)
    with agreement_work [OF inv here g] show ?thesis by simp
  qed (use here in \<open>auto simp: cell_agreement_def no_panic_def cell_def\<close>)
qed

lemma agreement_start:
  assumes "gateways_start cfgs s"
  shows "list_all (cell_agreement L (last cfgs) [] s) (gateways (gr_comp s))"
proof -
  have c: "gr_comp s = Start_gateways (New cfgs)" using assms by (simp add: gateways_start_def)
  have "cell (gr_comp s) gw = new_gateway_state" if "gw \<in> set (gateways (gr_comp s))" for gw
    using that start_props(4) [OF c] gateways_start_inv [OF assms]
    by (auto simp: cell_def system_inv_def component_ok_def list_all_iff)
  then show ?thesis by (simp add: list_all_iff cell_agreement_def new_gateway_state_def)
qed

section \<open>An accepted installation\<close>

lemma accept_step:
  assumes inv: "system_inv cfgs s" and gw: "gw \<in> set (gateways (gr_comp s))" and ok: "healthy s"
    and pending: "installationTick (cell (gr_comp s) gw) \<noteq> None" and cur: "currentRoute (cell (gr_comp s) gw) \<noteq> None"
  shows "\<exists>k. gateways_step L s (Work k (InstallTick d None))
     (s\<lparr>gr_comp := store_cell gw ((cell (gr_comp s) gw)\<lparr>installationTick := None\<rparr>) (gr_comp s)\<rparr>)"
proof -
  note c = system_inv_cell [OF inv gw]
  have "(gw, Running) \<in> set (gr_workers s)" using ok gw by (simp add: attended_def list_all_iff)
  then obtain k where k: "k < length (gr_workers s)" "gr_workers s ! k = (gw, Running)"
    by (auto simp: in_set_conv_nth)
  let ?v = "view_of (gr_comp s) (gw, Running)" and ?st = "cell (gr_comp s) gw"
  obtain t r where t: "installationTick ?st = Some t" "currentRoute ?st = Some r" using pending cur by blast
  have "tickers_ok ?st" using c(2) by (simp add: gateway_ok_def)
  from run_Tick_ok [OF this t, of L "gw_index gw" "last cfgs" d] t(1)
  have "gateway_step L (gw_index gw) (last cfgs) ?v (Select (InstallTick d None)) (?v\<lparr>gstate := ?st\<lparr>installationTick := None\<rparr>,
      trace := trace ?v @ [AddRoute r, TickerStop t, GaugeUpdate (gw_metric (gw_index gw) ''.state'') LRGStateInstalled]\<rparr>)"
    by (intro gateway_step.continue [where st = ?st]) (simp_all add: view_of_def ready_def)
  from gateways_step.work [OF _ k _ c(4) this] ok
  have "gateways_step L s (Work k (InstallTick d None)) (s\<lparr>gr_comp := store_cell gw (?st\<lparr>installationTick := None\<rparr>) (gr_comp s),
      gr_workers := (gr_workers s)[k := (gw, Running)]\<rparr>)"
    by (simp add: may_take_def view_of_def)
  moreover have "(gr_workers s)[k := (gw, Running)] = gr_workers s" using k(2) by (metis list_update_id)
  ultimately show ?thesis by (intro exI [of _ k]) simp
qed

end
