(* ===== verification/Program_Kernel.thy ===== *)
theory Program_Kernel
  imports Program_Schedules Gateways_Agreement
begin

text \<open>
  The program against the kernel: what the netlink component learnt from it, through the gateways,
  down to the routes that it accepted or reported back.
\<close>

lemma program_agreement:
  assumes "execution (program_step L cb) p evs q" and "program_start L ncfg cb cfgs p"
  shows "list_all (cell_agreement L (last cfgs) (gateways_part evs) (pg_gateways q)) (gateways (gr_comp (pg_gateways q)))"
  using assms
proof (induction rule: execution.induct)
  case (execution_nil p)
  then show ?case by (simp add: program_start_def agreement_start)
next
  case (execution_snoc p evs q e u)
  have h: "history_inv L cfgs (gateways_part evs) (pg_gateways q)"
    using program_execution_inv [OF execution_snoc.hyps(1) execution_snoc.prems] by (simp add: program_inv_def)
  note here = execution_snoc.IH [OF execution_snoc.prems]
  from execution_snoc.hyps(2) show ?case
  proof cases
    case (netlink ev n es)
    with here show ?thesis by simp
  next
    case (call n ns g)
    with agreement_step [OF h call(4) here] show ?thesis by simp
  next
    case (gateways e' g)
    with agreement_step [OF h gateways(4) here] show ?thesis by simp
  qed
qed

text \<open>The kernel confirmed last, as \<open>c\<close>, the target of the candidates, up to \<^verbatim>\<open>Equal\<close>, if there are any.\<close>

definition kernel_has_target :: "'x netlink_lib \<Rightarrow> lrg_config \<Rightarrow> 'x route option \<Rightarrow> 'x gateway_state \<Rightarrow> bool" where
  "kernel_has_target L cfg c st \<longleftrightarrow> (if candidateRoutes st = [] then True
     else case (targetRoute L (candidateRoutes st) (To cfg), c) of
         (Some target, Some r) \<Rightarrow> r = target \<or> route_Equal L target r | _ \<Rightarrow> False)"

lemma settled_has_target:
  assumes "candidates_settled L cfg (abs_gateway st)"
  shows "kernel_has_target L cfg (currentRoute st) st"
  using assms targetRoute_None [of L "candidateRoutes st" "To cfg"]
  by (auto simp: kernel_has_target_def candidates_settled_def settled_def split: option.splits)

lemma program_settled:
  assumes inv: "program_inv L ncfg cb cfgs gws evs t" and gw: "gw \<in> set (gateways (gr_comp (pg_gateways t)))"
  shows "candidates_settled L (last cfgs) (abs_gateway (cell (gr_comp (pg_gateways t)) gw))"
proof -
  have "history_inv L cfgs (gateways_part evs) (pg_gateways t)" using inv by (simp add: program_inv_def)
  from history_invD(4) [OF this gw] show ?thesis by (auto simp: cell_history_def intro: knows_settled)
qed

text \<open>
  C2. No gateway is wrong about the kernel: in every run of the program, whatever the
  order of its goroutines, the answers of the kernel and the notifications, as long as the gateways were not told to
  stop and none panicked, a gateway without a pending installation holds exactly the route the kernel
  confirmed last (by accepting it, or by reporting a route of the \<^verbatim>\<open>to\<close> block that was handled), and while it
  has candidates that route is the target computed from them.
\<close>

theorem idle_gateways_agree_with_kernel:
  assumes "program_start L ncfg cb cfgs p" and "execution (program_step L cb) p evs t"
    and "alive (gr_comp (pg_gateways t))" and "no_panic (pg_gateways t)"
    and "gw \<in> set (gateways (gr_comp (pg_gateways t)))"
    and "installationTick (cell (gr_comp (pg_gateways t)) gw) = None"
  shows "let st = cell (gr_comp (pg_gateways t)) gw;
      c = confirmed L (last cfgs) (cell_events (worker_gateways (pg_gateways p)) (gw_state gw) (gateways_part evs))
    in currentRoute st = c \<and> kernel_has_target L (last cfgs) c st"
proof -
  note inv = program_execution_inv [OF assms(2,1)]
  have w: "worker_gateways (pg_gateways t) = worker_gateways (pg_gateways p)"
    using inv by (simp add: program_inv_def)
  have "cell_agreement L (last cfgs) (gateways_part evs) (pg_gateways t) gw"
    using program_agreement [OF assms(2,1)] assms(5) by (simp add: list_all_iff)
  with assms(3,4,6) w have "currentRoute (cell (gr_comp (pg_gateways t)) gw)
      = confirmed L (last cfgs) (cell_events (worker_gateways (pg_gateways p)) (gw_state gw) (gateways_part evs))"
    by (simp add: cell_agreement_def)
  with settled_has_target [OF program_settled [OF inv assms(5)]] show ?thesis by (simp add: Let_def)
qed

section \<open>The kernel accepts the pending routes\<close>

definition to_install :: "'x gateways_run \<Rightarrow> gateway set" where
  "to_install s = {gw \<in> set (gateways (gr_comp s)).
     installationTick (cell (gr_comp s) gw) \<noteq> None \<and> currentRoute (cell (gr_comp s) gw) \<noteq> None}"

lemma accept_all:
  assumes "program_inv L ncfg cb cfgs gws evs p" and "pg_outbox p = []"
    and "healthy (pg_gateways p)" and "drained (pg_gateways p)"
  shows "\<exists>fs t. execution (program_step L cb) p fs t \<and> pg_netlink t = pg_netlink p \<and> pg_outbox t = []
     \<and> healthy (pg_gateways t) \<and> drained (pg_gateways t) \<and> to_install (pg_gateways t) = {}"
  using assms
proof (induction "card (to_install (pg_gateways p))" arbitrary: p evs)
  case 0
  moreover have "finite (to_install (pg_gateways p))" by (simp add: to_install_def)
  ultimately have "to_install (pg_gateways p) = {}" by simp
  with 0 show ?case by (intro exI [of _ "[]"] exI [of _ p]) (simp add: execution_nil)
next
  case (Suc n)
  let ?s = "pg_gateways p"
  have fin: "finite (to_install ?s)" by (simp add: to_install_def)
  obtain gw where gw: "gw \<in> to_install ?s" using Suc.hyps(2) by fastforce
  then have gw': "gw \<in> set (gateways (gr_comp ?s))" by (simp add: to_install_def)
  have h: "history_inv L cfgs (gateways_part evs) ?s" using Suc.prems(1) by (simp add: program_inv_def)
  note room = system_inv_cell(1) [OF history_invD(1) [OF h] gw']
  let ?g = "?s\<lparr>gr_comp := store_cell gw ((cell (gr_comp ?s) gw)\<lparr>installationTick := None\<rparr>) (gr_comp ?s)\<rparr>"
  let ?q = "p\<lparr>pg_gateways := ?g\<rparr>"
  obtain k where "gateways_step L ?s (Work k (InstallTick second None)) ?g"
    using accept_step [OF history_invD(1) [OF h] gw' Suc.prems(3)] gw by (auto simp: to_install_def)
  from program_step.gateways [OF _ this] have step: "program_step L cb p (GatewaysStep (Work k (InstallTick second None))) ?q"
    by (simp add: of_callback_def)
  have "to_install ?g = to_install ?s - {gw}"
    using component_ok_eq [OF history_invD(3) [OF h] _ gw'] by (auto simp: to_install_def cell_store [OF room])
  then have "n = card (to_install (pg_gateways ?q))"
    using gw fin Suc.hyps(2) by simp
  moreover have "healthy (pg_gateways ?q)" "drained (pg_gateways ?q)"
    using Suc.prems(3,4) gw' by (auto simp: no_panic_def attended_def drained_def cell_store [OF room] list_all_iff queue_cell)
  ultimately obtain fs t where t: "execution (program_step L cb) ?q fs t" "pg_netlink t = pg_netlink p" "pg_outbox t = []"
      "healthy (pg_gateways t)" "drained (pg_gateways t)" "to_install (pg_gateways t) = {}"
    using Suc.hyps(1) [of ?q, OF _ program_step_inv [OF Suc.prems(1) step]] Suc.prems(2) by auto
  have "execution (program_step L cb) p (GatewaysStep (Work k (InstallTick second None)) # fs) t"
    by (rule execution_cons [where step = "program_step L cb", OF step t(1)])
  with t show ?case by blast
qed

text \<open>
  C1. The program does what it is for: from every state of a run in which the gateways were not told to stop, none
  panicked and each has a goroutine that runs, there is a continuation, with a kernel that accepts the routes and
  without any step of the netlink component, after which every gateway knows what was notified (after a dump, the
  matching routes the kernel listed) and, if it has candidates, the kernel has confirmed the
  target that follows from them.
\<close>

theorem program_installs_targets:
  assumes "program_start L ncfg cb cfgs p" and "execution (program_step L cb) p evs q"
    and "alive (gr_comp (pg_gateways q))" and "no_panic (pg_gateways q)" and "attended (pg_gateways q)"
  shows "\<exists>fs t. execution (program_step L cb) q fs t \<and> pg_netlink t = pg_netlink q
    \<and> list_all (\<lambda>gw. let st = cell (gr_comp (pg_gateways t)) gw;
          c = confirmed L (last cfgs) (cell_events (worker_gateways (pg_gateways p)) (gw_state gw) (gateways_part (evs @ fs)))
        in resynced L (last cfgs) cb (nl_trace (pg_netlink q)) st \<and> kernel_has_target L (last cfgs) c st)
      (gateways (gr_comp (pg_gateways t)))"
proof -
  note inv = program_execution_inv [OF assms(2,1)]
  from program_drains [OF inv] assms(3-5) obtain es r where r: "execution (program_step L cb) q es r"
      "pg_netlink r = pg_netlink q" "pg_outbox r = []" "healthy (pg_gateways r)" "drained (pg_gateways r)" by blast
  from accept_all [OF program_inv_execution [OF r(1) inv] r(3-5)] obtain fs t where
    t: "execution (program_step L cb) r fs t" "pg_netlink t = pg_netlink r" "pg_outbox t = []"
      "healthy (pg_gateways t)" "drained (pg_gateways t)" "to_install (pg_gateways t) = {}" by blast
  have run: "execution (program_step L cb) q (es @ fs) t"
    by (rule execution_append [where step = "program_step L cb", OF t(1) r(1)])
  have all: "execution (program_step L cb) p (evs @ es @ fs) t"
    by (rule execution_append [where step = "program_step L cb", OF run assms(2)])
  note inv_t = program_execution_inv [OF all assms(1)]
  have "kernel_has_target L (last cfgs) (confirmed L (last cfgs)
      (cell_events (worker_gateways (pg_gateways p)) (gw_state gw) (gateways_part (evs @ es @ fs))))
      (cell (gr_comp (pg_gateways t)) gw)" if gw: "gw \<in> set (gateways (gr_comp (pg_gateways t)))" for gw
  proof (cases "candidateRoutes (cell (gr_comp (pg_gateways t)) gw) = []")
    case False
    let ?st = "cell (gr_comp (pg_gateways t)) gw"
    note target = settled_has_target [OF program_settled [OF inv_t gw]]
    have "currentRoute ?st \<noteq> None" using target False by (auto simp: kernel_has_target_def split: option.splits)
    then have "installationTick ?st = None" using t(6) gw by (auto simp: to_install_def)
    moreover have "cell_agreement L (last cfgs) (gateways_part (evs @ es @ fs)) (pg_gateways t) gw"
      using program_agreement [OF all assms(1)] gw by (simp add: list_all_iff)
    moreover have "worker_gateways (pg_gateways t) = worker_gateways (pg_gateways p)"
      using inv_t by (simp add: program_inv_def)
    ultimately have "currentRoute ?st = confirmed L (last cfgs)
        (cell_events (worker_gateways (pg_gateways p)) (gw_state gw) (gateways_part (evs @ es @ fs)))"
      using t(4) by (simp add: cell_agreement_def)
    with target show ?thesis by simp
  qed (simp add: kernel_has_target_def)
  with drained_resynced [OF inv_t t(3,5)] t(2,4) r(2) run show ?thesis
    by (intro exI [of _ "es @ fs"] exI [of _ t]) (simp add: list_all_iff Let_def)
qed

section \<open>The example\<close>

lemma example_gateways:
  assumes "execution (program_step plain_lib 7) example_program evs t"
  shows "gateways (gr_comp (pg_gateways t)) \<noteq> []"
proof -
  have "gateways (gr_comp (pg_gateways example_program)) \<noteq> []"
    using start_props(7) [of "gr_comp example_system" "[example_config]"] example_system_start
    by (auto simp: example_program_def gateways_start_def)
  with program_run_work [OF assms program_start_inv [OF example_program_start]] show ?thesis
    by (auto simp: notification_cost_def)
qed

theorem program_installs_targets_witness:
  "\<exists>evs t. execution (program_step plain_lib 7) example_program evs t \<and> pg_netlink t = dumped_run
     \<and> gateways (gr_comp (pg_gateways t)) \<noteq> []
     \<and> list_all (\<lambda>gw. candidateRoutes (cell (gr_comp (pg_gateways t)) gw) = [example_route 5 2]
          \<and> kernel_has_target plain_lib example_config (confirmed plain_lib example_config
             (cell_events (worker_gateways (pg_gateways example_program)) (gw_state gw) (gateways_part evs)))
             (cell (gr_comp (pg_gateways t)) gw))
       (gateways (gr_comp (pg_gateways t)))"
proof -
  obtain evs q where q: "execution (program_step plain_lib 7) example_program evs q" "pg_netlink q = dumped_run"
      "healthy (pg_gateways q)" using example_program_dump by blast
  from program_installs_targets [OF example_program_start q(1)] q(2,3) obtain fs t where
    t: "execution (program_step plain_lib 7) q fs t" "pg_netlink t = dumped_run"
      "list_all (\<lambda>gw. let st = cell (gr_comp (pg_gateways t)) gw;
          c = confirmed plain_lib example_config (cell_events (worker_gateways (pg_gateways example_program))
            (gw_state gw) (gateways_part (evs @ fs)))
        in resynced plain_lib example_config 7 (nl_trace dumped_run) st \<and> kernel_has_target plain_lib example_config c st)
      (gateways (gr_comp (pg_gateways t)))" by auto
  obtain zs where zs: "nl_trace dumped_run = zs @ [Notify (Some 7) end_of_rib]" using dumped_run_trace by blast
  have "resynced plain_lib example_config 7 (nl_trace dumped_run) st \<Longrightarrow> candidateRoutes st = [example_route 5 2]" for st
    using dumped_run_listed dump_example by (auto simp: resynced_def zs)
  moreover have run: "execution (program_step plain_lib 7) example_program (evs @ fs) t"
    by (rule execution_append [where step = "program_step plain_lib 7", OF t(1) q(1)])
  ultimately show ?thesis using t(2,3) example_gateways [OF run]
    by (intro exI [of _ "evs @ fs"] exI [of _ t]) (simp add: list_all_iff Let_def)
qed

text \<open>After the example dump, with an accepted installation, nothing is pending.\<close>

lemma example_program_installed:
  "\<exists>evs t. execution (program_step plain_lib 7) example_program evs t \<and> healthy (pg_gateways t)
     \<and> pg_netlink t = dumped_run \<and> pg_outbox t = [] \<and> drained (pg_gateways t)
     \<and> gateways (gr_comp (pg_gateways t)) \<noteq> []
     \<and> list_all (\<lambda>gw. candidateRoutes (cell (gr_comp (pg_gateways t)) gw) = [example_route 5 2]
          \<and> installationTick (cell (gr_comp (pg_gateways t)) gw) = None) (gateways (gr_comp (pg_gateways t)))"
proof -
  obtain evs q where q: "execution (program_step plain_lib 7) example_program evs q" "pg_netlink q = dumped_run"
      "healthy (pg_gateways q)" using example_program_dump by blast
  note inv = program_execution_inv [OF q(1) example_program_start]
  from program_drains [OF inv q(3)] obtain es r where r: "execution (program_step plain_lib 7) q es r"
      "pg_netlink r = pg_netlink q" "pg_outbox r = []" "healthy (pg_gateways r)" "drained (pg_gateways r)" by blast
  from accept_all [OF program_inv_execution [OF r(1) inv] r(3-5)] obtain fs t where
    t: "execution (program_step plain_lib 7) r fs t" "pg_netlink t = pg_netlink r" "pg_outbox t = []"
      "healthy (pg_gateways t)" "drained (pg_gateways t)" "to_install (pg_gateways t) = {}" by blast
  have run: "execution (program_step plain_lib 7) example_program (evs @ es @ fs) t"
    by (rule execution_append [where step = "program_step plain_lib 7",
        OF execution_append [where step = "program_step plain_lib 7", OF t(1) r(1)] q(1)])
  note inv_t = program_execution_inv [OF run example_program_start]
  have net: "pg_netlink t = dumped_run" using t(2) r(2) q(2) by simp
  obtain zs where zs: "nl_trace dumped_run = zs @ [Notify (Some 7) end_of_rib]" using dumped_run_trace by blast
  have "candidateRoutes (cell (gr_comp (pg_gateways t)) gw) = [example_route 5 2]
      \<and> installationTick (cell (gr_comp (pg_gateways t)) gw) = None"
    if gw: "gw \<in> set (gateways (gr_comp (pg_gateways t)))" for gw
  proof
    let ?st = "cell (gr_comp (pg_gateways t)) gw"
    have "resynced plain_lib example_config 7 (nl_trace dumped_run) ?st"
      using drained_resynced [OF inv_t t(3,5)] t(4) gw net by (simp add: list_all_iff)
    then show c: "candidateRoutes ?st = [example_route 5 2]"
      using dumped_run_listed dump_example by (auto simp: resynced_def zs)
    have "currentRoute ?st \<noteq> None"
      using settled_has_target [OF program_settled [OF inv_t gw]] c
      by (auto simp: kernel_has_target_def split: option.splits)
    with t(6) gw show "installationTick ?st = None" by (auto simp: to_install_def)
  qed
  moreover have "gateways (gr_comp (pg_gateways t)) \<noteq> []"
    using example_gateways [OF run] .
  ultimately show ?thesis using run t(3-5) net by (auto simp: list_all_iff)
qed

theorem idle_gateways_agree_with_kernel_witness:
  "\<exists>evs t. execution (program_step plain_lib 7) example_program evs t
     \<and> gateways (gr_comp (pg_gateways t)) \<noteq> []
     \<and> list_all (\<lambda>gw. let st = cell (gr_comp (pg_gateways t)) gw;
           c = confirmed plain_lib example_config
             (cell_events (worker_gateways (pg_gateways example_program)) (gw_state gw) (gateways_part evs))
         in candidateRoutes st = [example_route 5 2] \<and> currentRoute st = c \<and> kernel_has_target plain_lib example_config c st)
       (gateways (gr_comp (pg_gateways t)))"
proof -
  obtain evs t where t: "execution (program_step plain_lib 7) example_program evs t" "healthy (pg_gateways t)"
      "gateways (gr_comp (pg_gateways t)) \<noteq> []" "list_all (\<lambda>gw. candidateRoutes (cell (gr_comp (pg_gateways t)) gw) = [example_route 5 2]
          \<and> installationTick (cell (gr_comp (pg_gateways t)) gw) = None) (gateways (gr_comp (pg_gateways t)))"
    using example_program_installed by blast
  then show ?thesis
    using idle_gateways_agree_with_kernel [OF example_program_start t(1)]
    by (intro exI [of _ evs] exI [of _ t]) (auto simp: list_all_iff Let_def)
qed

end
