(* ===== verification/Missing_Routes.thy ===== *)
theory Missing_Routes
  imports Program_Kernel
begin

text \<open>
  What a gateway does about a last-resort route that is no longer in the kernel
  (\<^verbatim>\<open>processNotification\<close> of \<^verbatim>\<open>src/gateways/gateway.go\<close>): it is told of the removal by a live update, or not
  at all, when the update was lost. The dump that follows a loss clears the candidates at its start, but
  not the current route.
\<close>

section \<open>Notifications that change nothing\<close>

text \<open>No installation is pending, before, between and after the notifications.\<close>

fun undisturbed :: "'x netlink_lib \<Rightarrow> lrg_config \<Rightarrow> 'x gateway_spec \<Rightarrow> 'x notification list \<Rightarrow> bool" where
  "undisturbed L cfg s [] \<longleftrightarrow> \<not> sp_pending s"
| "undisturbed L cfg s (n # ns) \<longleftrightarrow> \<not> sp_pending s \<and> undisturbed L cfg (spec_step L cfg (classify cfg n) s) ns"

abbreviation handle_all :: "'x netlink_lib \<Rightarrow> lrg_config \<Rightarrow> 'x notification list \<Rightarrow> 'x gateway_spec \<Rightarrow> 'x gateway_spec" where
  "handle_all L cfg ns s \<equiv> spec_steps L cfg (map (classify cfg) ns) s"

lemma undisturbed_append:
  "undisturbed L cfg s (xs @ ys) \<Longrightarrow> undisturbed L cfg s xs \<and> undisturbed L cfg (handle_all L cfg xs s) ys"
  by (induction xs arbitrary: s) (cases ys; simp)+

lemma undisturbed_idle: "undisturbed L cfg s ns \<Longrightarrow> \<not> sp_pending s"
  by (cases ns) simp_all

text \<open>Only a report about the \<^verbatim>\<open>to\<close> block or a new installation changes the current route.\<close>

lemma undisturbed_current:
  assumes "undisturbed L cfg s ns"
    and "list_all (\<lambda>n. case RouteUpdate n of None \<Rightarrow> True | Some u \<Rightarrow> \<not> to_Match (To cfg) (ru_Route u)) ns"
  shows "sp_current (handle_all L cfg ns s) = sp_current s"
  using assms
proof (induction ns arbitrary: s)
  case (Cons n ns)
  let ?t = "spec_step L cfg (classify cfg n) s"
  have "\<not> sp_pending ?t" using Cons.prems(1) undisturbed_idle by auto
  with Cons.prems(2) have "sp_current ?t = sp_current s"
    by (auto simp: spec_step_def spec_learn_def spec_settle_def classify_def Let_def split: option.splits if_splits)
  with Cons show ?case by simp
qed simp

section \<open>A gateway that is not disturbed\<close>

lemma notified_spec:
  assumes ok: "gateway_ok cfg (gstate s)" and step: "gateway_step L i cfg s (Select (Notified n)) t"
  shows "abs_gateway (gstate t) = spec_step L cfg (classify cfg n) (abs_gateway (gstate s))"
proof -
  from step_outcome [OF assms] obtain q st' es where
    pn: "processNotification L i cfg ((gstate s)\<lparr>notification := q\<rparr>) n = Inr (st', es)" and t: "gstate t = st'"
    by (auto simp: outcome_def elim: outcome_of.cases)
  have "gateway_ok cfg ((gstate s)\<lparr>notification := q\<rparr>)" using ok by simp
  from go_okD [OF processNotification_implements [OF this] pn] show ?thesis
    by (simp add: implements_def t)
qed

lemma quiet_step:
  assumes inv: "history_inv L cfgs evs s" and step: "gateways_step L s e t" and live: "alive (gr_comp t)"
    and g: "g \<in> set (gateways (gr_comp s))" and idle: "installationTick (cell (gr_comp s) g) = None"
  shows "abs_gateway (cell (gr_comp t) g) = handle_all L (last cfgs)
        (handled_cell (worker_gateways s) (gw_state g) [e]) (abs_gateway (cell (gr_comp s) g))
    \<and> cell_events (worker_gateways s) (gw_state g) [e]
        = map (\<lambda>n. Select (Notified n)) (handled_cell (worker_gateways s) (gw_state g) [e])"
  using step
proof cases
  case (push_one n gw gws c)
  have gw: "gw \<in> set (gateways (gr_comp s))"
    using history_invD(2) [OF inv] push_one(4) by (simp add: callback_suffix_def)
  note room = system_inv_cell(1) [OF history_invD(1) [OF inv] gw]
  obtain st where c: "c = store_cell gw st (gr_comp s)" "abs_gateway st = abs_gateway (cell (gr_comp s) gw)"
    using push_one(5) by (auto simp: pushNotification_store abs_gateway_def split: if_splits)
  with push_one component_ok_eq [OF history_invD(3) [OF inv] g gw] show ?thesis
    by (auto simp: cell_store [OF room])
next
  case (work k gw ph ev cfg v)
  have gw: "gw \<in> set (gateways (gr_comp s))"
    using work(4,5) history_invD(1) [OF inv] by (force simp: system_inv_def dest: nth_mem)
  note c = system_inv_cell [OF history_invD(1) [OF inv] gw]
  have cfg: "cfg = last cfgs" using work(7) c(4) by simp
  have w: "worker_gateways s ! k = gw" using work(4,5) by simp
  show ?thesis
  proof (cases "g = gw")
    case False
    with component_ok_eq [OF history_invD(3) [OF inv] g gw] work(1,2) w show ?thesis
      by (simp add: cell_store [OF c(1)])
  next
    case True
    let ?v = "view_of (gr_comp s) (gw, ph)"
    have ok: "gateway_ok (last cfgs) (gstate ?v)" using c(2) by (simp add: view_of_def)
    have "alive (gr_comp s)" using step_frame(3) [OF step live] .
    then have "ev \<noteq> Dying" using work(6) by (auto simp: may_take_def)
    moreover have "ev \<noteq> InstallTick d err" for d err
      using work(8) idle True by (auto elim!: gateway_step_SelectE simp: ready_def view_of_def)
    ultimately obtain n where n: "ev = Notified n" by (cases ev) auto
    from notified_spec [OF ok work(8) [unfolded cfg n]]
    have "abs_gateway (gstate v) = spec_step L (last cfgs) (classify (last cfgs) n) (abs_gateway (cell (gr_comp s) gw))"
      by (simp add: view_of_def)
    with work(1,2) w True n show ?thesis by (simp add: cell_store [OF c(1)] handled_def)
  qed
qed (simp_all add: cell_def)

lemma quiet_run:
  assumes "execution (gateways_step L) s fs t" and "history_inv L cfgs evs s" and "alive (gr_comp t)"
    and "g \<in> set (gateways (gr_comp s))"
    and "undisturbed L (last cfgs) (abs_gateway (cell (gr_comp s) g)) (handled_cell (worker_gateways s) (gw_state g) fs @ rest)"
  shows "abs_gateway (cell (gr_comp t) g) = handle_all L (last cfgs)
        (handled_cell (worker_gateways s) (gw_state g) fs) (abs_gateway (cell (gr_comp s) g))
    \<and> cell_events (worker_gateways s) (gw_state g) fs
        = map (\<lambda>n. Select (Notified n)) (handled_cell (worker_gateways s) (gw_state g) fs)
    \<and> worker_gateways t = worker_gateways s \<and> gateways (gr_comp t) = gateways (gr_comp s)
    \<and> history_inv L cfgs (evs @ fs) t"
  using assms
proof (induction arbitrary: rest rule: execution.induct)
  case (execution_snoc s fs t e u)
  let ?h = "handled_cell (worker_gateways s) (gw_state g)" and ?s = "abs_gateway (cell (gr_comp s) g)"
  have live: "alive (gr_comp t)"
    using step_frame(3) [OF execution_snoc.hyps(2)] execution_snoc.prems(2) by blast
  have und: "undisturbed L (last cfgs) ?s (?h fs @ (?h [e] @ rest))"
    using execution_snoc.prems(4) by simp
  from execution_snoc.IH [OF execution_snoc.prems(1) live execution_snoc.prems(3) und]
  have t: "abs_gateway (cell (gr_comp t) g) = handle_all L (last cfgs) (?h fs) ?s"
    "cell_events (worker_gateways s) (gw_state g) fs = map (\<lambda>n. Select (Notified n)) (?h fs)"
    "worker_gateways t = worker_gateways s" "gateways (gr_comp t) = gateways (gr_comp s)"
    "history_inv L cfgs (evs @ fs) t" by simp_all
  have "installationTick (cell (gr_comp t) g) = None"
    using undisturbed_idle [OF conjunct2 [OF undisturbed_append [OF und]]] t(1)
    by (metis abs_gateway_simps(3))
  from quiet_step [OF t(5) execution_snoc.hyps(2) execution_snoc.prems(2) _ this] execution_snoc.prems(3) t
    history_step [OF t(5) execution_snoc.hyps(2)] step_frame(1,2) [OF execution_snoc.hyps(2)]
  show ?case by (simp add: spec_steps_append)
qed simp

lemma gateways_part_run:
  assumes "execution (program_step L cb) p fs q"
  shows "execution (gateways_step L) (pg_gateways p) (gateways_part fs) (pg_gateways q)"
  using assms
proof (induction rule: execution.induct)
  case (execution_nil p)
  then show ?case by (simp add: execution.execution_nil)
next
  case (execution_snoc p es q e u)
  from execution_snoc.hyps(2) show ?case
    by cases (use execution_snoc.IH in \<open>auto intro: execution.execution_snoc\<close>)
qed

lemma run_frame:
  assumes "execution (gateways_step L) s fs t"
  shows run_gateways: "gateways (gr_comp t) = gateways (gr_comp s)"
    and run_alive: "alive (gr_comp t) \<Longrightarrow> alive (gr_comp s)"
proof -
  have "gateways (gr_comp t) = gateways (gr_comp s) \<and> (alive (gr_comp t) \<longrightarrow> alive (gr_comp s))"
    using assms
  proof (induction rule: execution.induct)
    case (execution_snoc s es t e u)
    with step_frame(2,3) [OF execution_snoc.hyps(2)] show ?case by simp
  qed simp
  then show "gateways (gr_comp t) = gateways (gr_comp s)" "alive (gr_comp t) \<Longrightarrow> alive (gr_comp s)"
    by simp_all
qed

lemma program_history:
  assumes inv: "program_inv L ncfg cb cfgs gws evs t" and "alive (gr_comp (pg_gateways t))"
    and "gw \<in> set (gateways (gr_comp (pg_gateways t)))"
  shows "delivered cb (nl_trace (pg_netlink t)) = handled_cell gws (gw_state gw) (gateways_part evs)
    @ queue (gr_comp (pg_gateways t)) (gw_state gw) @ in_flight gw (pg_gateways t) @ pg_outbox t"
proof -
  have h: "history_inv L cfgs (gateways_part evs) (pg_gateways t)" and w: "worker_gateways (pg_gateways t) = gws"
    and d: "delivered cb (nl_trace (pg_netlink t)) = entered (gateways_part evs) @ pg_outbox t"
    using inv by (simp_all add: program_inv_def)
  from history_invD(4) [OF h assms(3)] assms(2) d show ?thesis by (simp add: cell_history_def w)
qed

section \<open>The notifications of a dump\<close>

definition dump_notifications :: "'x route_update list \<Rightarrow> 'x notification list" where
  "dump_notifications us = start_of_rib # map route_notif us @ [end_of_rib]"

text \<open>
  The current route is the target, up to \<^verbatim>\<open>Equal\<close>, of what is known after each update of the dump, and
  none of them is about the \<^verbatim>\<open>to\<close> block.
\<close>

definition dump_keeps :: "'x netlink_lib \<Rightarrow> lrg_config \<Rightarrow> 'x route \<Rightarrow> 'x route_update list \<Rightarrow> bool" where
  "dump_keeps L cfg c us \<longleftrightarrow> us \<noteq> []
     \<and> list_all (\<lambda>u. \<not> to_Match (To cfg) (ru_Route u)) us
     \<and> list_all (\<lambda>k. keeps_current L cfg (learn_all L cfg (take k us)) (Some c)) [1..<Suc (length us)]"

lemma undisturbed_snoc:
  "undisturbed L cfg s (ns @ [n]) \<longleftrightarrow> undisturbed L cfg s ns \<and> \<not> sp_pending (handle_all L cfg (ns @ [n]) s)"
  by (induction ns arbitrary: s) auto

lemma update_step:
  assumes "\<not> to_Match (To cfg) (ru_Route u)" and "keeps_current L cfg (learn L cfg u cs) (Some c)"
  shows "spec_step L cfg (classify cfg (route_notif u)) \<lparr>sp_candidates = cs, sp_current = Some c, sp_pending = False\<rparr>
    = \<lparr>sp_candidates = learn L cfg u cs, sp_current = Some c, sp_pending = False\<rparr>"
  using assms
  by (auto simp: spec_step_def classify_def spec_learn_def spec_settle_def learn_def route_notif_def Let_def
      RTM_NEWROUTE_def RTM_DELROUTE_def)

lemma dump_undisturbed:
  fixes cs :: "'x route list"
  assumes "dump_keeps L cfg c us"
  defines "s \<equiv> \<lparr>sp_candidates = cs, sp_current = Some c, sp_pending = False\<rparr>"
  shows "undisturbed L cfg s (dump_notifications us)"
    and "handle_all L cfg (dump_notifications us) s = \<lparr>sp_candidates = learn_all L cfg us, sp_current = Some c, sp_pending = False\<rparr>"
proof -
  have keeps: "keeps_current L cfg (learn_all L cfg (take k us)) (Some c)" if "0 < k" "k \<le> length us" for k
    using assms(1) that by (auto simp: dump_keeps_def list_all_iff)
  have no: "\<not> to_Match (To cfg) (ru_Route u)" if "u \<in> set us" for u
    using assms(1) that by (auto simp: dump_keeps_def list_all_iff)
  have part: "undisturbed L cfg s (start_of_rib # map route_notif (take k us))
      \<and> handle_all L cfg (start_of_rib # map route_notif (take k us)) s
        = \<lparr>sp_candidates = learn_all L cfg (take k us), sp_current = Some c, sp_pending = False\<rparr>"
    if "k \<le> length us" for k
    using that
  proof (induction k)
    case 0
    show ?case
      by (simp add: s_def classify_def start_of_rib_def spec_step_def spec_learn_def learn_all_def)
  next
    case (Suc k)
    then have k: "k < length us" by simp
    have "learn_all L cfg (take (Suc k) us) = learn L cfg (us ! k) (learn_all L cfg (take k us))"
      by (simp add: take_Suc_conv_app_nth [OF k] learn_all_def)
    with update_step [OF no [OF nth_mem [OF k]], of L "learn_all L cfg (take k us)" c] keeps [of "Suc k"] Suc
    show ?case
      using undisturbed_snoc [of L cfg s "start_of_rib # map route_notif (take k us)" "route_notif (us ! k)"]
      by (simp add: take_Suc_conv_app_nth [OF k] spec_steps_append)
  qed
  have "us \<noteq> []" using assms(1) by (simp add: dump_keeps_def)
  then have "keeps_current L cfg (learn_all L cfg us) (Some c)" using keeps [of "length us"] by simp
  then have last: "spec_step L cfg (classify cfg end_of_rib) \<lparr>sp_candidates = learn_all L cfg us, sp_current = Some c, sp_pending = False\<rparr>
      = \<lparr>sp_candidates = learn_all L cfg us, sp_current = Some c, sp_pending = False\<rparr>"
    by (simp add: classify_def end_of_rib_def spec_step_def spec_learn_def spec_settle_def)
  show "undisturbed L cfg s (dump_notifications us)"
    using part [of "length us"] last
      undisturbed_snoc [of L cfg s "start_of_rib # map route_notif us" end_of_rib]
    by (simp add: dump_notifications_def spec_steps_append)
  show "handle_all L cfg (dump_notifications us) s = \<lparr>sp_candidates = learn_all L cfg us, sp_current = Some c, sp_pending = False\<rparr>"
    using part [of "length us"] last by (simp add: dump_notifications_def spec_steps_append)
qed

lemma dump_prefix_current:
  assumes keeps: "dump_keeps L cfg c us" and "dump_notifications us = ns @ rest"
  shows "sp_current (handle_all L cfg ns \<lparr>sp_candidates = cs, sp_current = Some c, sp_pending = False\<rparr>) = Some c"
proof -
  let ?s = "\<lparr>sp_candidates = cs, sp_current = Some c, sp_pending = False\<rparr>"
  have "undisturbed L cfg ?s (ns @ rest)" using dump_undisturbed(1) [OF keeps] assms(2) by metis
  moreover have "list_all (\<lambda>n. case RouteUpdate n of None \<Rightarrow> True | Some u \<Rightarrow> \<not> to_Match (To cfg) (ru_Route u)) (ns @ rest)"
    using keeps unfolding assms(2) [symmetric] by (auto simp: dump_keeps_def dump_notifications_def list_all_iff)
  ultimately show ?thesis using undisturbed_current [of L cfg ?s ns] by (auto dest: undisturbed_append)
qed

section \<open>A route that is missing from a dump\<close>


section \<open>An example\<close>

text \<open>
  After the example dump, and the installation of the target, the receive buffer of the socket
  overflows; the next dump has the source route again, and nothing about the target.
\<close>

definition second_dump :: "nat nl_event list" where
  "second_dump = (let K = kernel_with [example_route 5 2, main_route 1] [] in
     [LibError 0 (Errno ENOBUFS), LibClose 0, Loop K NlUpdate, Loop K NlTick,
      InjSelect 0, InjSend 0, Loop K NlUpdate, InjSelect 0, InjSend 0,
      Loop K NlUpdate, InjClose 0, Loop K NlUpdate, InjClose 0, Loop K NlUpdate])"

definition twice_dumped_run :: "nat netlink_run" where
  "twice_dumped_run = the (nl_exec plain_lib (route_dump @ second_dump) (nl_init DefaultConfiguration))"

lemma twice_dumped_exec:
  "nl_exec plain_lib (route_dump @ second_dump) (nl_init DefaultConfiguration) = Some twice_dumped_run"
proof -
  have "nl_exec plain_lib (route_dump @ second_dump) (nl_init DefaultConfiguration) \<noteq> None"
    by (simp add: route_dump_def second_dump_def nl_eval Let_def zero_update_def RT_TABLE_UNSPEC_def new_update_def
        main_route_def example_route_def in_hand_def lib_report_def lib_close_def report_lost_updates_def
        sleep_before_transition_def arm_transition_def arm_cure_def case_transition_tick_def halt_ticker_def ENOBUFS_def)
  then show ?thesis by (auto simp: twice_dumped_run_def)
qed

text \<open>The library is used as documented on the way.\<close>

fun all_documented :: "'x netlink_lib \<Rightarrow> 'x nl_event list \<Rightarrow> 'x netlink_run \<Rightarrow> bool" where
  "all_documented L [] s \<longleftrightarrow> True"
| "all_documented L (ev # evs) s \<longleftrightarrow> documented (nl_comp s) ev
     \<and> (case nl_do L ev s of None \<Rightarrow> False | Some t \<Rightarrow> all_documented L evs t)"

lemma all_documented_execution:
  "all_documented L evs s \<Longrightarrow> nl_exec L evs s = Some t \<Longrightarrow> execution (documented_step L) s evs t"
proof (induction evs arbitrary: s)
  case Nil
  then show ?case by (simp add: execution_nil)
next
  case (Cons ev evs)
  then obtain u where u: "nl_do L ev s = Some u" "all_documented L evs u" "nl_exec L evs u = Some t"
    by (auto split: option.splits)
  have "documented_step L s ev u" using Cons.prems(1) u(1) by (simp add: nl_do_step documented_step_def)
  from execution_cons [where step = "documented_step L", OF this Cons.IH [OF u(2,3)]] show ?case .
qed

lemma nl_exec_append:
  "nl_exec L (xs @ ys) s = (case nl_exec L xs s of None \<Rightarrow> None | Some t \<Rightarrow> nl_exec L ys t)"
  by (induction xs arbitrary: s) (auto split: option.splits)

lemma second_dump_documented: "all_documented plain_lib second_dump dumped_run"
  by (simp add: dumped_run_def documented_def real_kernel_def real_route_def
        route_dump_def second_dump_def nl_eval Let_def zero_update_def RT_TABLE_UNSPEC_def new_update_def
        main_route_def example_route_def in_hand_def lib_report_def lib_close_def report_lost_updates_def
        sleep_before_transition_def arm_transition_def arm_cure_def case_transition_tick_def halt_ticker_def ENOBUFS_def)

lemma second_dump_execution: "execution (documented_step plain_lib) dumped_run second_dump twice_dumped_run"
  by (rule all_documented_execution [OF second_dump_documented])
     (use twice_dumped_exec in \<open>simp add: nl_exec_append dumped_run_exec\<close>)

lemma second_dump_delivered:
  "delivered 7 (nl_trace twice_dumped_run) = delivered 7 (nl_trace dumped_run)
     @ dump_notifications (map new_update [example_route 5 2, main_route 1])"
  by (simp add: twice_dumped_run_def dumped_run_def dump_notifications_def delivered_def List.map_filter_simps
        route_dump_def second_dump_def nl_eval Let_def zero_update_def RT_TABLE_UNSPEC_def new_update_def
        main_route_def example_route_def in_hand_def lib_report_def lib_close_def report_lost_updates_def
        sleep_before_transition_def arm_transition_def arm_cure_def case_transition_tick_def halt_ticker_def ENOBUFS_def)

lemma example_keeps:
  "dump_keeps plain_lib example_config (retarget (To example_config) (example_route 5 2))
     (map new_update [example_route 5 2, main_route 1])"
  by code_simp

lemma example_target: "targetRoute plain_lib [example_route 5 2] (To example_config)
    = Some (retarget (To example_config) (example_route 5 2))"
  by code_simp


end
