(* ===== verification/Route_Reports.thy ===== *)
theory Route_Reports
  imports Gateway_Loop
begin

text \<open>
  What a gateway does when the kernel reports the route it has just been given
  (\<^verbatim>\<open>processNotification\<close> and \<^verbatim>\<open>installCandidateRoute\<close> of \<^verbatim>\<open>src/gateways/gateway.go\<close>): the report becomes the
  current route, and it is compared with the target by \<^verbatim>\<open>Equal\<close>.
\<close>

text \<open>The kernel accepts the pending route and then reports it as \<open>r\<close>.\<close>

definition report_cycle :: "duration \<Rightarrow> 'x route \<Rightarrow> 'x gateway_event list" where
  "report_cycle d r = [Select (InstallTick d None), Push (new_route r), Select (Notified (new_route r))]"

definition asked_for :: "'x route \<Rightarrow> 'x effect list \<Rightarrow> nat" where
  "asked_for r es = length (filter (\<lambda>e. e = AddRoute r) es)"

lemma asked_for_simps [simp]:
  "asked_for r [] = 0" "asked_for r (es @ fs) = asked_for r es + asked_for r fs"
  "asked_for r (e # es) = (if e = AddRoute r then 1 else 0) + asked_for r es"
  by (simp_all add: asked_for_def)

text \<open>The gateway is about to install its target, and has nothing else to do.\<close>

definition installing :: "'x netlink_lib \<Rightarrow> lrg_config \<Rightarrow> 'x route \<Rightarrow> 'x gateway_state \<Rightarrow> bool" where
  "installing L cfg target st \<longleftrightarrow> tickers_ok st \<and> installationTick st \<noteq> None \<and> currentRoute st = Some target
     \<and> targetRoute L (candidateRoutes st) (To cfg) = Some target \<and> notification st = []"

lemma classify_report: "to_Match (To cfg) r \<Longrightarrow> classify cfg (new_route r) = TargetSeen r"
  by (simp add: classify_def new_route_def RTM_NEWROUTE_def RTM_DELROUTE_def Let_def)

text \<open>The report is handled by a gateway without a pending installation.\<close>

lemma report_handled:
  assumes st: "tickers_ok st" "installationTick st = None" "targetRoute L (candidateRoutes st) (To cfg) = Some target"
    and r: "to_Match (To cfg) r"
  obtains st' es where "processNotification L i cfg st (new_route r) = Inr (st', es)"
    and "candidateRoutes st' = candidateRoutes st" and "notification st' = notification st"
    and "asked_for target es = 0"
    and "if route_Equal L target r then st' = st\<lparr>currentRoute := Some r\<rparr>
         else tickers_ok st' \<and> installationTick st' \<noteq> None \<and> currentRoute st' = Some target"
proof (cases "route_Equal L target r")
  case True
  let ?st = "st\<lparr>currentRoute := Some r\<rparr>"
  have "keeps_current L cfg (candidateRoutes ?st) (currentRoute ?st)" using st(3) True by (simp add: keeps_current_def)
  from installCandidateRoute_keep [OF this, of i] st(3) obtain es where
    es: "installCandidateRoute L i cfg ?st = Inr (?st, es)" "asked_for target es = 0" by (auto simp: st(3))
  show ?thesis
    by (rule that [of ?st "[CounterInc (gw_metric i ''.updates.total'') 1, CounterInc (gw_metric i ''.updates.target'') 1] @ es"])
      (use es True in \<open>auto simp: process_TargetSeen [OF classify_report [OF r]] go_bind_emit_Inr\<close>)
next
  case False
  let ?st = "st\<lparr>currentRoute := Some r\<rparr>"
  have "tickers_ok ?st" "\<not> keeps_current L cfg (candidateRoutes ?st) (currentRoute ?st)"
    using st False by (simp_all add: keeps_current_def)
  from installCandidateRoute_change [OF this, of i]
  show ?thesis
    by (intro that [of "started (?st\<lparr>currentRoute := Some target\<rparr>)"])
      (use st False in \<open>auto simp: process_TargetSeen [OF classify_report [OF r]] go_bind_emit_Inr stop_current_def\<close>)
qed

lemma one_report:
  assumes st: "installing L cfg target st" and r: "to_Match (To cfg) r"
  shows "\<exists>st' es'. execution (gateway_step L i cfg) (run_from st es) (report_cycle d r) (run_from st' es')
    \<and> asked_for target es' = asked_for target es + 1 \<and> candidateRoutes st' = candidateRoutes st
    \<and> (if route_Equal L target r then installationTick st' = None \<and> currentRoute st' = Some r
       else installing L cfg target st')"
proof -
  obtain t where t: "tickers_ok st" "installationTick st = Some t" "currentRoute st = Some target"
      "targetRoute L (candidateRoutes st) (To cfg) = Some target" "notification st = []"
    using st by (auto simp: installing_def)
  let ?st = "st\<lparr>installationTick := None\<rparr>"
  let ?es = "es @ [AddRoute target, TickerStop t, GaugeUpdate (gw_metric i ''.state'') LRGStateInstalled]"
  note tick = success_tick [OF t(1-3), of L i cfg es d]
  have idle: "tickers_ok ?st" "installationTick ?st = None" "targetRoute L (candidateRoutes ?st) (To cfg) = Some target"
    using t by (simp_all add: tickers_ok_def)
  obtain st' fs where h: "processNotification L i cfg ?st (new_route r) = Inr (st', fs)"
    "candidateRoutes st' = candidateRoutes ?st" "notification st' = notification ?st" "asked_for target fs = 0"
    "if route_Equal L target r then st' = ?st\<lparr>currentRoute := Some r\<rparr>
     else tickers_ok st' \<and> installationTick st' \<noteq> None \<and> currentRoute st' = Some target"
    by (rule report_handled [OF idle r])
  have "notification ?st = []" using t(5) by simp
  from execution_cons [OF tick handle_run [OF this h(1)]]
  have "execution (gateway_step L i cfg) (run_from st es) (report_cycle d r) (run_from st' (?es @ fs))"
    by (simp add: report_cycle_def)
  with h t show ?thesis
    by (intro exI [of _ st'] exI [of _ "?es @ fs"]) (auto simp: installing_def)
qed

text \<open>
  C17. An accepted installation settles the gateway exactly when the kernel reports the route as
  it was asked for, up to \<^verbatim>\<open>Equal\<close>: then the gateway rests on the reported route. If the kernel reports it with a
  difference (a field it fills in, for instance), the report counts as a change made by somebody else, and the
  route is installed again, each time with a new ticker instead of a growing delay: after \<open>n\<close> accepted
  installations and their reports another one is pending, without end.
\<close>

theorem reports_settle_or_reinstall:
  assumes "installing L cfg target st" and "to_Match (To cfg) r"
  shows "if route_Equal L target r
    then \<exists>st' es'. execution (gateway_step L i cfg) (run_from st es) (report_cycle d r) (run_from st' es')
      \<and> asked_for target es' = asked_for target es + 1
      \<and> installationTick st' = None \<and> currentRoute st' = Some r \<and> candidateRoutes st' = candidateRoutes st
    else \<exists>st' es'. execution (gateway_step L i cfg) (run_from st es) (concat (replicate n (report_cycle d r))) (run_from st' es')
      \<and> asked_for target es' = asked_for target es + n
      \<and> installing L cfg target st' \<and> candidateRoutes st' = candidateRoutes st"
proof (cases "route_Equal L target r")
  case True
  with one_report [OF assms, of i es d] show ?thesis by auto
next
  case False
  have "\<exists>st' es'. execution (gateway_step L i cfg) (run_from st es) (concat (replicate n (report_cycle d r))) (run_from st' es')
      \<and> asked_for target es' = asked_for target es + n
      \<and> installing L cfg target st' \<and> candidateRoutes st' = candidateRoutes st"
    using assms(1)
  proof (induction n arbitrary: st es)
    case 0
    then show ?case by (intro exI [of _ st] exI [of _ es]) (simp add: execution_nil)
  next
    case (Suc n)
    from one_report [OF Suc.prems assms(2), of i es d] False obtain st1 es1 where
      one: "execution (gateway_step L i cfg) (run_from st es) (report_cycle d r) (run_from st1 es1)"
        "asked_for target es1 = asked_for target es + 1" "candidateRoutes st1 = candidateRoutes st"
        "installing L cfg target st1" by auto
    from Suc.IH [OF one(4), of es1] obtain st2 es2 where
      more: "execution (gateway_step L i cfg) (run_from st1 es1) (concat (replicate n (report_cycle d r))) (run_from st2 es2)"
        "asked_for target es2 = asked_for target es1 + n" "installing L cfg target st2"
        "candidateRoutes st2 = candidateRoutes st1" by blast
    from execution_append [OF more(1) one(1)] more(2-4) one(2,3) show ?case
      by (intro exI [of _ st2] exI [of _ es2]) simp
  qed
  with False show ?thesis by simp
qed

text \<open>A kernel that reports the type of the route differently.\<close>

theorem reports_settle_or_reinstall_witness:
  "\<exists>st' es'. execution (gateway_step plain_lib 1 example_config)
      (run_from (started (gateway_with [example_route 5 2] (targetRoute plain_lib [example_route 5 2] (To example_config)))) [])
      (concat (replicate 1000 (report_cycle second ((retarget (To example_config) (example_route 5 2))\<lparr>rt_Type := 6\<rparr>))))
      (run_from st' es')
    \<and> asked_for (retarget (To example_config) (example_route 5 2)) es' = 1000 \<and> installationTick st' \<noteq> None"
proof -
  let ?t = "retarget (To example_config) (example_route 5 2)"
  let ?st = "started (gateway_with [example_route 5 2] (Some ?t))"
  have target: "targetRoute plain_lib [example_route 5 2] (To example_config) = Some ?t" by code_simp
  then have "installing plain_lib example_config ?t ?st" by (simp add: installing_def gateway_with_def new_gateway_state_def)
  moreover have "to_Match (To example_config) (?t\<lparr>rt_Type := 6\<rparr>)" by code_simp
  moreover have "\<not> route_Equal plain_lib ?t (?t\<lparr>rt_Type := 6\<rparr>)" by code_simp
  ultimately show ?thesis
    using reports_settle_or_reinstall [of plain_lib example_config ?t ?st "?t\<lparr>rt_Type := 6\<rparr>" 1 "[]" second 1000]
    unfolding target by (auto simp: installing_def)
qed

end
