(* ===== verification/Netlink_Divergences.thy ===== *)
theory Netlink_Divergences
  imports Netlink_Properties
begin

text \<open>
  Where the netlink component departs from its comments and its documentation: the interval of
  the cure timer has no effect, the first synchronisation is retried without any delay, failed
  attempts leave subscriptions behind, and the channel that is read is not always the live one.
\<close>

section \<open>The cure timer\<close>

text \<open>Everything but the cure timer: its flag in the state and the calls that arm it.\<close>

definition no_cure :: "'x netlink \<Rightarrow> 'x netlink" where
  "no_cure c = c\<lparr>cureTick := False\<rparr>"

definition visible :: "'x nl_effect list \<Rightarrow> 'x nl_effect list" where
  "visible es = filter (\<lambda>e. case e of AfterCall d \<Rightarrow> False | _ \<Rightarrow> True) es"

lemma visible_simps [simp]:
  "visible [] = []" "visible (es @ fs) = visible es @ visible fs"
  "visible (Notify cb n # es) = Notify cb n # visible es"
  "visible (Count m # es) = Count m # visible es"
  "visible (Report l m # es) = Report l m # visible es"
  "visible (ReportError e m # es) = ReportError e m # visible es"
  "visible (SubscribeCall a r # es) = SubscribeCall a r # visible es"
  "visible (ListCall f rs # es) = ListCall f rs # visible es"
  "visible (TickerStart t b # es) = TickerStart t b # visible es"
  "visible (TickerHalt t # es) = TickerHalt t # visible es"
  "visible (AfterCall d # es) = visible es"
  by (simp_all add: visible_def)

text \<open>Two runs of the same code agree but for the cure timer.\<close>

definition agree :: "('a \<Rightarrow> 'b \<Rightarrow> bool) \<Rightarrow> ('x nl_effect, 'a) go \<Rightarrow> ('x nl_effect, 'b) go \<Rightarrow> bool" where
  "agree R m m' = rel_sum (=) (\<lambda>(a, es) (b, fs). R a b \<and> visible es = visible fs) m m'"

lemma agree_simps [simp]:
  "agree R (go_return a) (go_return b) \<longleftrightarrow> R a b"
  "agree R (go_emit es a) (go_emit fs b) \<longleftrightarrow> R a b \<and> visible es = visible fs"
  "agree R (go_return a) (go_emit fs b) \<longleftrightarrow> R a b \<and> visible fs = []"
  "agree R (go_emit es a) (go_return b) \<longleftrightarrow> R a b \<and> visible es = []"
  "agree R (go_panic p) (go_panic q) \<longleftrightarrow> p = q"
  by (auto simp: agree_def go_return_def go_emit_def go_panic_def)

lemma agree_bind:
  assumes "agree R m m'" and "\<And>a b. R a b \<Longrightarrow> agree S (f a) (f' b)"
  shows "agree S (go_bind m f) (go_bind m' f')"
proof (cases m)
  case (Inl p)
  with assms(1) show ?thesis by (cases m') (auto simp: agree_def)
next
  case (Inr p)
  obtain a es where m: "m = Inr (a, es)" using Inr by (cases p) auto
  with assms(1) obtain b fs where m': "m' = Inr (b, fs)" and r: "R a b" "visible es = visible fs"
    by (cases m') (auto simp: agree_def)
  from assms(2) [OF r(1)] r(2) show ?thesis
    by (auto simp: m m' go_bind_def agree_def split: sum.splits)
qed

lemma agree_refl: "(\<And>a. R a a) \<Longrightarrow> agree R m m"
  by (auto simp: agree_def intro!: sum.rel_refl)

definition cure_eq :: "'x netlink \<Rightarrow> 'x netlink \<Rightarrow> bool" where
  "cure_eq c d \<longleftrightarrow> no_cure c = no_cure d"

lemma cure_eqE:
  assumes "cure_eq c d"
  obtains q where "d = c\<lparr>cureTick := q\<rparr>"
  using assms by (cases c; cases d) (auto simp: cure_eq_def no_cure_def)

lemma cure_eq_upd [simp]: "cure_eq c (c\<lparr>cureTick := q\<rparr>)"
  by (simp add: cure_eq_def no_cure_def)

definition result_eq :: "'x nl_result \<Rightarrow> 'x nl_result \<Rightarrow> bool" where
  "result_eq r r' \<longleftrightarrow> (case (r, r') of (Next c, Next d) \<Rightarrow> cure_eq c d
     | (Exit c, Exit d) \<Rightarrow> cure_eq c d | _ \<Rightarrow> False)"

lemma result_eq_simps [simp]:
  "result_eq (Next c) (Next d) = cure_eq c d" "result_eq (Exit c) (Exit d) = cure_eq c d"
  by (simp_all add: result_eq_def)

lemma transition_agree:
  assumes "cure_eq c d"
  shows "agree (\<lambda>(e, c) (e', d). e = e' \<and> cure_eq c d) (transition K c) (transition K d)"
proof -
  obtain q where d: "d = c\<lparr>cureTick := q\<rparr>" using assms by (rule cure_eqE)
  show ?thesis
    by (cases "fsm c"; cases "subscribe_answer K"; cases "list_answer K FAMILY_V4";
        cases "list_answer K FAMILY_V6")
       (simp_all add: d transition_def transition_start_def transition_ipv4_def transition_ipv6_def
         make_chan_def injectRoutes_def notify_all_def Let_def agree_def go_bind_def go_emit_def
         go_return_def cure_eq_def no_cure_def)
qed

lemma halt_ticker_agree:
  assumes "cure_eq c d"
  shows "agree (=) (halt_ticker c) (halt_ticker d)"
proof -
  obtain q where "d = c\<lparr>cureTick := q\<rparr>" using assms by (rule cure_eqE)
  then show ?thesis by (simp add: halt_ticker_def split: option.splits)
qed

lemma sleep_agree:
  assumes "cure_eq c d"
  shows "agree result_eq (sleep_before_transition c) (sleep_before_transition d)"
proof -
  obtain q where d: "d = c\<lparr>cureTick := q\<rparr>" using assms by (rule cure_eqE)
  show ?thesis
    by (cases "transitionTick c"; cases "transitionBackoff c"; cases "cureTick c"; cases q)
       (simp_all add: d sleep_before_transition_def arm_transition_def arm_cure_def Let_def
         agree_def go_bind_def go_emit_def go_return_def go_panic_def cure_eq_def no_cure_def)
qed

lemma update_agree:
  assumes "cure_eq c d"
  shows "agree result_eq (case_update K u c) (case_update K u d)"
proof -
  obtain q where d: "d = c\<lparr>cureTick := q\<rparr>" using assms by (rule cure_eqE)
  have nil: "cure_eq (c\<lparr>updates := None\<rparr>) (d\<lparr>updates := None\<rparr>)" by (simp add: d cure_eq_def no_cure_def)
  have lost: "report_lost_updates (d\<lparr>updates := None\<rparr>) = report_lost_updates (c\<lparr>updates := None\<rparr>)"
    by (cases "subscribeError c") (simp_all add: d report_lost_updates_def split: nl_error.split)
  show ?thesis
  proof (cases "Table (ru_Route u) = RT_TABLE_UNSPEC")
    case False
    then show ?thesis using assms
      by (auto simp: case_update_def notify_all_def d intro!: agree_bind [where R = "(=)"])
  next
    case True
    have "fsm d = fsm c" by (simp add: d)
    with True show ?thesis
      by (auto simp: case_update_def case_closed_def Let_def lost
          intro!: agree_bind [where R = "(=)"] agree_refl sleep_agree nil
            agree_bind [OF transition_agree [OF nil]] split: option.splits)
  qed
qed

lemma tick_agree:
  assumes "cure_eq c d"
  shows "agree result_eq (case_transition_tick K c) (case_transition_tick K d)"
  unfolding case_transition_tick_def
proof (rule agree_bind [OF transition_agree [OF assms]], clarify)
  fix e and c1 d1 :: "'a netlink"
  assume eq: "cure_eq c1 d1"
  have "cure_eq (c1\<lparr>transitionTick := None\<rparr>) (d1\<lparr>transitionTick := None\<rparr>)"
    by (rule cure_eqE [OF eq]) (simp add: cure_eq_def no_cure_def)
  with eq show "agree result_eq
      (case e of None \<Rightarrow> go_bind (halt_ticker c1) (\<lambda>_. go_return (Next (c1\<lparr>transitionTick := None\<rparr>)))
        | Some e \<Rightarrow> go_emit [cannot_change_state e] (Next c1))
      (case e of None \<Rightarrow> go_bind (halt_ticker d1) (\<lambda>_. go_return (Next (d1\<lparr>transitionTick := None\<rparr>)))
        | Some e \<Rightarrow> go_emit [cannot_change_state e] (Next d1))"
    by (auto intro!: agree_bind [OF halt_ticker_agree [OF eq]] split: option.splits)
qed

lemma subscribed_agree:
  assumes "cure_eq c d"
  shows "agree result_eq (case_subscribed K c) (case_subscribed K d)"
  unfolding case_subscribed_def
proof (rule agree_bind [OF transition_agree [OF assms]], clarify)
  fix e and c1 d1 :: "'a netlink"
  assume eq: "cure_eq c1 d1"
  have "cure_eq (c1\<lparr>obs := (obs c1)\<lparr>subscribed := NilChan\<rparr>\<rparr>) (d1\<lparr>obs := (obs d1)\<lparr>subscribed := NilChan\<rparr>\<rparr>)"
    by (rule cure_eqE [OF eq]) (simp add: cure_eq_def no_cure_def)
  with eq show "agree result_eq
      (case e of None \<Rightarrow> go_return (Next (c1\<lparr>obs := (obs c1)\<lparr>subscribed := NilChan\<rparr>\<rparr>))
        | Some e \<Rightarrow> go_emit [cannot_change_state e] (Next c1))
      (case e of None \<Rightarrow> go_return (Next (d1\<lparr>obs := (obs d1)\<lparr>subscribed := NilChan\<rparr>\<rparr>))
        | Some e \<Rightarrow> go_emit [cannot_change_state e] (Next d1))"
    by (auto split: option.splits)
qed

lemma dying_agree:
  assumes "cure_eq c d"
  shows "agree result_eq (case_dying c) (case_dying d)"
proof -
  obtain q where d: "d = c\<lparr>cureTick := q\<rparr>" using assms by (rule cure_eqE)
  show ?thesis
    by (auto simp: d case_dying_def intro!: agree_bind [OF halt_ticker_agree])
qed

definition is_cure :: "'x nl_event \<Rightarrow> bool" where
  "is_cure ev = (case ev of Loop K cs \<Rightarrow> cs = NlCure | _ \<Rightarrow> False)"

lemma next_agree:
  assumes eq: "cure_eq c d" and ev: "\<not> is_cure ev"
  shows "rel_option (agree result_eq) (nl_next L ev c) (nl_next L ev d)"
proof -
  obtain q where d: "d = c\<lparr>cureTick := q\<rparr>" using eq by (rule cure_eqE)
  show ?thesis
  proof (cases ev)
    case (Loop K cs)
    show ?thesis
    proof (cases cs)
      case NlUpdate
      show ?thesis
      proof (cases "receive L c")
        case None
        then show ?thesis
          by (auto simp: Loop NlUpdate nl_next_def nl_select_def receive_def d
              split: option.splits list.splits if_splits)
      next
        case (Some p)
        obtain u c' where r: "receive L c = Some (u, c')" using Some by (cases p) auto
        then have "receive L d = Some (u, c'\<lparr>cureTick := q\<rparr>)"
          by (auto simp: receive_def d split: option.splits list.splits if_splits)
        with r show ?thesis by (simp add: Loop NlUpdate nl_next_def nl_select_def update_agree)
      qed
    qed (use eq ev in \<open>simp_all add: Loop nl_next_def nl_select_def is_cure_def dying_agree tick_agree subscribed_agree\<close>,
      simp_all add: d)
  next
    case (InjSend i)
    then show ?thesis
      by (auto simp: nl_next_def d inject_send_def chan_put_def inject_advance_def Let_def next_state_def
          capacity_def cure_eq_def no_cure_def split: inj_phase.splits option.splits list.splits
          intro!: agree_bind [where R = cure_eq])
  next
    case (InjHandoff i K)
    have "cure_eq (inject_advance i c) (inject_advance i d)"
      by (simp add: d inject_advance_def Let_def cure_eq_def no_cure_def)
    with InjHandoff show ?thesis
      by (auto simp: nl_next_def d nl_handoff_def capacity_def split: inj_phase.splits option.splits list.splits
          intro!: agree_bind [where R = "(=)"] update_agree)
  next
    case (LibHandoff a u K)
    with eq show ?thesis
      by (simp add: nl_next_def d capacity_def in_hand_def update_agree)
  qed (auto simp: d nl_next_def inject_select_def inject_close_def inject_dying_def silent_def next_state_def
      chan_put_def chan_close_def drop_injector_def lib_report_def lib_close_def in_hand_def capacity_def
      cure_eq_def no_cure_def Let_def split: option.splits sum.splits
      intro!: agree_bind [where R = cure_eq])
qed

definition run_eq :: "'x netlink_run \<Rightarrow> 'x netlink_run \<Rightarrow> bool" where
  "run_eq s t \<longleftrightarrow> nl_phase s = nl_phase t \<and> cure_eq (nl_comp s) (nl_comp t)
     \<and> visible (nl_trace s) = visible (nl_trace t)"

lemma do_agree:
  assumes eq: "run_eq s t" and ev: "\<not> is_cure ev" and d: "nl_do L ev s = Some s'"
  shows "\<exists>t'. nl_do L ev t = Some t' \<and> run_eq s' t'"
proof -
  have may: "nl_may (nl_phase t) ev" using d eq by (auto simp: nl_do_def run_eq_def split: if_splits)
  obtain m where m: "nl_next L ev (nl_comp s) = Some m"
    using d by (auto simp: nl_do_def split: if_splits option.splits)
  have "cure_eq (nl_comp s) (nl_comp t)" using eq by (simp add: run_eq_def)
  from next_agree [OF this ev, of L] m obtain n
    where n: "nl_next L ev (nl_comp t) = Some n" and a: "agree result_eq m n"
    by (auto simp: option_rel_Some1)
  show ?thesis
  proof (cases m)
    case (Inl p)
    with a have "n = Inl p" by (cases n) (auto simp: agree_def)
    with Inl m n d may eq show ?thesis by (auto simp: nl_do_def run_eq_def split: if_splits)
  next
    case (Inr q)
    obtain r es where q: "q = (r, es)" by (cases q)
    from a Inr q obtain r' fs where n': "n = Inr (r', fs)" and r: "result_eq r r'" "visible es = visible fs"
      by (cases n) (auto simp: agree_def)
    with Inr q m n d may eq show ?thesis
      by (cases r; cases r') (auto simp: nl_do_def run_eq_def result_eq_def split: if_splits)
  qed
qed

lemma do_cure:
  assumes "is_cure ev" and "nl_do L ev s = Some s'"
  shows "run_eq s' s"
  using assms
  by (auto simp: is_cure_def nl_do_def nl_next_def nl_select_def case_cure_tick_def go_return_def run_eq_def
      cure_eq_def no_cure_def split: nl_event.splits if_splits)

lemma run_eq_trans: "run_eq r s \<Longrightarrow> run_eq s t \<Longrightarrow> run_eq r t"
  by (simp add: run_eq_def cure_eq_def)

lemma exec_agree:
  assumes "nl_exec L evs s = Some s'" and "run_eq s t"
  shows "\<exists>t'. nl_exec L (filter (\<lambda>ev. \<not> is_cure ev) evs) t = Some t' \<and> run_eq s' t'"
  using assms
proof (induction evs arbitrary: s t)
  case Nil
  then show ?case by simp
next
  case (Cons ev evs)
  then obtain u where u: "nl_do L ev s = Some u" "nl_exec L evs u = Some s'"
    by (auto split: option.splits)
  show ?case
  proof (cases "is_cure ev")
    case True
    from run_eq_trans [OF do_cure [OF True u(1)] Cons.prems(2)] Cons.IH [OF u(2)] True show ?thesis by simp
  next
    case False
    from do_agree [OF Cons.prems(2) False u(1)] obtain v where "nl_do L ev t = Some v" "run_eq u v" by blast
    with Cons.IH [OF u(2)] False show ?thesis by simp
  qed
qed

text \<open>
  C39. The cure interval changes nothing: removing every tick of the cure timer from a run gives
  a run with the same calls to the kernel, the subscriber, the reporter and the tickers (with the
  same backoff settings), in the same order. The documentation says that the backoff is reset
  after this interval without errors.
\<close>

theorem cure_interval_has_no_effect:
  assumes "nl_exec L evs s = Some t"
  shows "\<exists>t'. nl_exec L (filter (\<lambda>ev. \<not> is_cure ev) evs) s = Some t'
     \<and> nl_phase t' = nl_phase t \<and> visible (nl_trace t') = visible (nl_trace t)
     \<and> no_cure (nl_comp t') = no_cure (nl_comp t)"
  using exec_agree [OF assms, of s] by (auto simp: run_eq_def cure_eq_def)

definition cure_events :: "nat nl_event list" where
  "cure_events = [Loop (kernel_with [] []) NlUpdate, Loop (kernel_with [] []) NlCure]"

lemma cure_events_run: "nl_exec plain_lib cure_events lost_run \<noteq> None"
  by (simp add: cure_events_def lost_run_def lib_close_def lib_report_def nl_eval Let_def zero_update_def
      RT_TABLE_UNSPEC_def new_update_def main_route_def report_lost_updates_def sleep_before_transition_def
      arm_transition_def arm_cure_def case_cure_tick_def)

theorem cure_interval_has_no_effect_witness:
  "\<exists>t t'. nl_exec plain_lib cure_events lost_run = Some t
     \<and> nl_exec plain_lib [Loop (kernel_with [] []) NlUpdate] lost_run = Some t'
     \<and> visible (nl_trace t') = visible (nl_trace t)"
proof -
  obtain t where t: "nl_exec plain_lib cure_events lost_run = Some t" using cure_events_run by auto
  from cure_interval_has_no_effect [OF this] show ?thesis using t
    by (auto simp: cure_events_def is_cure_def)
qed

section \<open>The first synchronisation is retried at once\<close>

definition refused :: "nl_error \<Rightarrow> 'x kernel" where
  "refused e = (kernel_with [] [])\<lparr>subscribe_answer := Some e\<rparr>"

definition no_list :: "nl_error \<Rightarrow> 'x kernel" where
  "no_list e = (kernel_with [] [])\<lparr>list_answer := (\<lambda>f. Inl e)\<rparr>"

text \<open>The alerts and the started tickers of a trace.\<close>

definition alerts :: "'x nl_effect list \<Rightarrow> nat" where
  "alerts es = length (filter (\<lambda>e. case e of ReportError x m \<Rightarrow> True | _ \<Rightarrow> False) es)"

definition starts_ticker :: "'x nl_effect \<Rightarrow> bool" where
  "starts_ticker e = (case e of TickerStart t b \<Rightarrow> True | AfterCall d \<Rightarrow> True | _ \<Rightarrow> False)"

text \<open>Waiting for the first synchronisation.\<close>

definition waiting :: "'x netlink_run \<Rightarrow> bool" where
  "waiting s \<longleftrightarrow> nl_phase s = Running \<and> fsm (nl_comp s) = idle \<and> subscribed (obs (nl_comp s)) = Closed
     \<and> transitionTick (nl_comp s) = None"

lemma refused_attempt:
  assumes "waiting s"
  shows "\<exists>t. nl_do L (Loop (refused e) NlSubscribed) s = Some t \<and> waiting t
     \<and> alerts (nl_trace t) = Suc (alerts (nl_trace s))
     \<and> filter starts_ticker (nl_trace t) = filter starts_ticker (nl_trace s)
     \<and> length (channels (nl_comp t)) = Suc (length (channels (nl_comp s)))"
  using assms
  by (simp add: waiting_def nl_do_def nl_may_def nl_next_def nl_select_def case_subscribed_def
      transition_def transition_start_def make_chan_def Let_def cannot_change_state_def go_bind_def
      go_emit_def go_return_def refused_def alerts_def starts_ticker_def)

lemma no_list_attempt:
  assumes "waiting s"
  shows "\<exists>t. nl_do L (Loop (no_list e) NlSubscribed) s = Some t \<and> waiting t
     \<and> length (subscriptions (nl_comp t)) = Suc (length (subscriptions (nl_comp s)))
     \<and> filter starts_ticker (nl_trace t) = filter starts_ticker (nl_trace s)"
  using assms
  by (simp add: waiting_def nl_do_def nl_may_def nl_next_def nl_select_def case_subscribed_def
      transition_def transition_start_def make_chan_def Let_def cannot_change_state_def go_bind_def
      go_emit_def go_return_def no_list_def kernel_with_def starts_ticker_def notify_all_def
      injectRoutes_def)

text \<open>
  While the kernel refuses the first subscription, the component tries again without any
  delay: every attempt fails, raises an alert and leaves the same case of the \<^verbatim>\<open>select\<close> ready,
  and no timer is ever started. The documentation announces an exponential backoff.
\<close>

theorem refused_start_is_retried_at_once:
  assumes "waiting s"
  shows "\<exists>t. nl_exec L (replicate n (Loop (refused e) NlSubscribed)) s = Some t \<and> waiting t
     \<and> alerts (nl_trace t) = alerts (nl_trace s) + n
     \<and> filter starts_ticker (nl_trace t) = filter starts_ticker (nl_trace s)"
  using assms
proof (induction n arbitrary: s)
  case (Suc n)
  from refused_attempt [OF Suc.prems, of L e] obtain t
    where t: "nl_do L (Loop (refused e) NlSubscribed) s = Some t" "waiting t"
      "alerts (nl_trace t) = Suc (alerts (nl_trace s))"
      "filter starts_ticker (nl_trace t) = filter starts_ticker (nl_trace s)" by blast
  from Suc.IH [OF t(2)] t show ?case by simp
qed simp

definition ready_run :: "nat netlink_run" where
  "ready_run = (nl_init DefaultConfiguration)\<lparr>nl_comp :=
     (netlink_New DefaultConfiguration)\<lparr>obs := \<lparr>callback = Some 7, subscribed = Closed, once_done = True\<rparr>\<rparr>\<rparr>"

lemma ready_run_reach: "nl_reach plain_lib DefaultConfiguration ready_run"
proof -
  have "nl_do plain_lib (AddSubscriber (Some 7)) (nl_init DefaultConfiguration) = Some ready_run"
    by (simp add: nl_do_def nl_may_def nl_next_def nl_init_def Subscribe_def newObserver_def netlink_New_def
        close_signal_def go_return_def ready_run_def Let_def)
  from nl_reach_do [OF nl_reach_init _ this] show ?thesis by (simp add: documented_def)
qed

lemma ready_run_waiting: "waiting ready_run"
  by (simp add: waiting_def ready_run_def nl_init_def netlink_New_def)

theorem refused_start_is_retried_at_once_witness:
  "\<exists>t. nl_exec plain_lib (replicate 1000 (Loop (refused (Errno 12)) NlSubscribed)) ready_run = Some t
     \<and> alerts (nl_trace t) = 1000 \<and> filter starts_ticker (nl_trace t) = []"
  using refused_start_is_retried_at_once [OF ready_run_waiting, of plain_lib 1000 "Errno 12"]
  by (fastforce simp: ready_run_def nl_init_def alerts_def)

text \<open>
  Every attempt that gets its subscription but no list of routes leaves its subscription
  open: after \<open>n\<close> attempts the library holds \<open>n\<close> more channels, and the loop will read at most one
  of them.
\<close>

theorem failed_attempts_leak_subscriptions:
  assumes "waiting s"
  shows "\<exists>t. nl_exec L (replicate n (Loop (no_list e) NlSubscribed)) s = Some t \<and> waiting t
     \<and> length (subscriptions (nl_comp t)) = length (subscriptions (nl_comp s)) + n
     \<and> filter starts_ticker (nl_trace t) = filter starts_ticker (nl_trace s)"
  using assms
proof (induction n arbitrary: s)
  case (Suc n)
  from no_list_attempt [OF Suc.prems, of L e] obtain t
    where t: "nl_do L (Loop (no_list e) NlSubscribed) s = Some t" "waiting t"
      "length (subscriptions (nl_comp t)) = Suc (length (subscriptions (nl_comp s)))"
      "filter starts_ticker (nl_trace t) = filter starts_ticker (nl_trace s)" by blast
  from Suc.IH [OF t(2)] t show ?case by simp
qed simp

theorem failed_attempts_leak_subscriptions_witness:
  "\<exists>t. nl_exec plain_lib (replicate 50 (Loop (no_list (Errno 12)) NlSubscribed)) ready_run = Some t
     \<and> length (subscriptions (nl_comp t)) = 50"
  using failed_attempts_leak_subscriptions [OF ready_run_waiting, of plain_lib 50 "Errno 12"]
  by (auto simp: ready_run_def nl_init_def netlink_New_def)

section \<open>The channel that is read\<close>

text \<open>
  A state with \<^verbatim>\<open>state == updateRoutes\<close> and \<^verbatim>\<open>updates != liveUpdates\<close> is reached, as soon as
  the loss of the live channel is noticed; the comment on the fields of \<^verbatim>\<open>realComponent\<close> says that
  they are then equal.
\<close>

theorem updates_differ_from_live:
  "\<exists>s. nl_reach plain_lib DefaultConfiguration s \<and> nl_phase s = Running
     \<and> fsm (nl_comp s) = updateRoutes \<and> updates (nl_comp s) \<noteq> liveUpdates (nl_comp s)"
proof -
  let ?evs = "[Loop (kernel_with [] []) NlUpdate] :: nat nl_event list"
  let ?s = "the (nl_exec plain_lib ?evs lost_run)"
  have s: "nl_exec plain_lib ?evs lost_run = Some ?s" using cure_events_run
    by (auto simp: cure_events_def split: option.splits)
  have "list_all plain_event ?evs" by (simp add: plain_event_def)
  from nl_reach_exec [OF lost_run_reach this s] have "nl_reach plain_lib DefaultConfiguration ?s" .
  moreover have "nl_phase ?s = Running" "fsm (nl_comp ?s) = updateRoutes"
      "updates (nl_comp ?s) \<noteq> liveUpdates (nl_comp ?s)"
    by (simp_all add: lost_run_def lib_close_def lib_report_def nl_eval Let_def zero_update_def
      RT_TABLE_UNSPEC_def new_update_def main_route_def report_lost_updates_def sleep_before_transition_def
      arm_transition_def arm_cure_def case_cure_tick_def)
  ultimately show ?thesis by blast
qed

end
