(* ===== verification/Program_Shutdown.thy ===== *)
theory Program_Shutdown
  imports Program_Flow Netlink_Divergences
begin

text \<open>
  The end of the program (the deferred function of \<^verbatim>\<open>src/cmd/daemon.go\<close>): the gateways are stopped
  first, then the netlink component, whose \<^verbatim>\<open>Stop\<close> waits for its goroutine. That goroutine may be
  inside the callback of the gateways component, and then it never ends.
\<close>

section \<open>A flow of notifications\<close>

text \<open>
  While the kernel lists no routes, the netlink component starts again and again, and notifies a start
  of RIB each time.
\<close>

lemma no_list_real: "real_kernel (no_list e)"
  by (simp add: real_kernel_def no_list_def kernel_with_def)

lemma no_list_notifies:
  assumes "waiting s" and "subscribed_to cb (nl_comp s)"
  shows "\<exists>t es. documented_step L s (Loop (no_list e) NlSubscribed) t \<and> waiting t
     \<and> subscribed_to cb (nl_comp t) \<and> nl_trace t = nl_trace s @ es \<and> delivered cb es = [start_of_rib]"
proof -
  obtain t where t: "nl_do L (Loop (no_list e) NlSubscribed) s = Some t" "waiting t"
    using no_list_attempt [OF assms(1), of L e] by blast
  then have "\<exists>es. nl_trace t = nl_trace s @ es \<and> delivered cb es = [start_of_rib]" and "subscribed_to cb (nl_comp t)"
    using assms
    by (auto simp: waiting_def nl_do_def nl_may_def nl_next_def nl_select_def case_subscribed_def subscribed_to_def
      transition_def transition_start_def make_chan_def Let_def cannot_change_state_def go_bind_def
      go_emit_def go_return_def no_list_def kernel_with_def notify_all_def injectRoutes_def delivered_def
      List.map_filter_def)
  with t t(1) [unfolded nl_do_step] show ?thesis by (auto simp: documented_step_def documented_def no_list_real)
qed

text \<open>A run of the gateways component on such notifications is a run of the program.\<close>

definition refusing :: "callback_name \<Rightarrow> 'x program \<Rightarrow> bool" where
  "refusing cb p \<longleftrightarrow> waiting (pg_netlink p) \<and> subscribed_to cb (nl_comp (pg_netlink p)) \<and> pg_outbox p = []"

lemma fed_run:
  assumes "execution (gateways_step L) g es g'" and "refusing cb p" and "pg_gateways p = g"
    and "set (entered es) \<subseteq> {start_of_rib}"
  shows "\<exists>evs q. execution (program_step L cb) p evs q \<and> refusing cb q \<and> pg_gateways q = g'
     \<and> dying (nl_comp (pg_netlink q)) = dying (nl_comp (pg_netlink p))"
  using assms
proof (induction rule: execution.induct)
  case (execution_nil g)
  then show ?case by (metis execution.execution_nil)
next
  case (execution_snoc g es h e k)
  then obtain evs q where q: "execution (program_step L cb) p evs q" "refusing cb q" "pg_gateways q = h"
      "dying (nl_comp (pg_netlink q)) = dying (nl_comp (pg_netlink p))" by auto
  show ?case
  proof (cases "\<exists>n. e = EnterCallback n")
    case True
    with execution_snoc.prems(3) have e: "e = EnterCallback start_of_rib" by auto
    have h: "no_panic h" "gr_callback h = None"
      using execution_snoc.hyps(2) e by (auto elim: gateways_stepE)
    obtain t ds where t: "documented_step L (pg_netlink q) (Loop (no_list (Errno 12)) NlSubscribed) t" "waiting t"
        "subscribed_to cb (nl_comp t)" "nl_trace t = nl_trace (pg_netlink q) @ ds" "delivered cb ds = [start_of_rib]"
      using no_list_notifies q(2) unfolding refusing_def by blast
    let ?r = "q\<lparr>pg_netlink := t, pg_outbox := pg_outbox q @ delivered cb ds\<rparr>"
    let ?s = "?r\<lparr>pg_outbox := [], pg_gateways := k\<rparr>"
    have "program_step L cb q (NetlinkStep (Loop (no_list (Errno 12)) NlSubscribed)) ?r"
      by (rule program_step.netlink [OF _ t(1,4)])
        (use h q in \<open>simp add: netlink_may_def callback_returned_def refusing_def of_run_def\<close>)
    moreover have "program_step L cb ?r (Call start_of_rib) ?s"
      by (rule program_step.call) (use execution_snoc.hyps(2) e q t(5) in \<open>simp_all add: refusing_def\<close>)
    ultimately have "execution (program_step L cb) p ((evs @ [NetlinkStep (Loop (no_list (Errno 12)) NlSubscribed)])
        @ [Call start_of_rib]) ?s"
      using q(1) by (blast intro: execution.execution_snoc)
    moreover have "refusing cb ?s" "pg_gateways ?s = k" using t by (simp_all add: refusing_def)
    moreover have "dying (nl_comp t) = dying (nl_comp (pg_netlink p))"
      using nl_step_dying [of L "pg_netlink q" "Loop (no_list (Errno 12)) NlSubscribed" t cb] t(1) q(2,4) by (simp add: documented_step_def refusing_def)
    ultimately show ?thesis by force
  next
    case False
    then have "program_step L cb q (GatewaysStep e) (q\<lparr>pg_gateways := k\<rparr>)"
      using execution_snoc.hyps(2) q(3)
      by (intro program_step.gateways) (auto simp: of_callback_def split: gateways_event.splits)
    with q(1) have "execution (program_step L cb) p (evs @ [GatewaysStep e]) (q\<lparr>pg_gateways := k\<rparr>)"
      by (rule execution.execution_snoc)
    moreover have "refusing cb (q\<lparr>pg_gateways := k\<rparr>)" "pg_gateways (q\<lparr>pg_gateways := k\<rparr>) = k"
      using q(2) by (simp_all add: refusing_def)
    ultimately show ?thesis using q(4) by force
  qed
qed

section \<open>The goroutine that waits in the callback\<close>

definition hung :: "'x program \<Rightarrow> bool" where
  "hung p \<longleftrightarrow> stuck (pg_gateways p) \<and> nl_phase (pg_netlink p) = Running"

text \<open>Only the loop of the netlink component can leave it.\<close>

lemma exit_of_loop:
  assumes "nl_next L ev c = Some (Inr (Exit c', es))"
  shows "of_run ev"
proof (cases ev)
  case (LibUpdate a u)
  with assms show ?thesis
    by (cases "chan_put a u c") (auto simp: nl_next_def go_return_def go_panic_def split: if_splits sum.splits)
qed (use assms in \<open>auto simp: nl_next_def of_run_def silent_def next_state_def inject_select_def inject_send_def inject_close_def
        inject_dying_def lib_report_def lib_close_def chan_close_def go_bind_def go_return_def go_panic_def go_emit_def
        Let_def split: if_splits option.splits inj_phase.splits list.splits sum.splits prod.splits\<close>)

lemma hung_step:
  assumes "program_step L cb p e q" and "hung p" and "nl_reach L ncfg (pg_netlink p)"
  shows "hung q \<and> nl_reach L ncfg (pg_netlink q)"
  using assms(1)
proof cases
  case (netlink ev n es)
  have no: "\<not> of_run ev" using netlink(3) assms(2)
    by (auto simp: netlink_may_def hung_def stuck_def callback_returned_def split: nl_event.splits if_splits)
  have reach: "nl_reach L ncfg n"
    using assms(3) netlink(4) unfolding nl_reach_def by (blast intro: reach_step)
  have "nl_step L (pg_netlink p) ev n" using netlink(4) by (simp add: documented_step_def)
  then have "nl_phase n = Running"
  proof cases
    case (nl_step_panic x)
    with nl_reachE [OF reach] show ?thesis by fastforce
  next
    case (nl_step_exit c es')
    with exit_of_loop no show ?thesis by blast
  qed (use assms(2) in \<open>simp add: hung_def\<close>)
  with netlink(2) reach assms(2) show ?thesis by (simp add: hung_def)
next
  case (call n ns g)
  with stuck_step [OF _ call(4)] assms(2,3) show ?thesis by (simp add: hung_def)
next
  case (gateways e g)
  with stuck_step [OF _ gateways(4)] assms(2,3) show ?thesis by (simp add: hung_def)
qed

lemma hung_forever:
  assumes "execution (program_step L cb) p evs q" and "hung p" and "nl_reach L ncfg (pg_netlink p)"
  shows "hung q \<and> nl_reach L ncfg (pg_netlink q)"
  using assms by (induction rule: execution.induct) (auto dest: hung_step)

text \<open>The next step of the shutdown: the tomb of the netlink component is killed.\<close>

lemma kill_step:
  assumes "hung p" and "no_panic (pg_gateways p)"
  shows "program_step L cb p (NetlinkStep Kill)
     (p\<lparr>pg_netlink := (pg_netlink p)\<lparr>nl_comp := netlink_Stop (nl_comp (pg_netlink p))\<rparr>\<rparr>)"
proof -
  let ?n = "(pg_netlink p)\<lparr>nl_comp := netlink_Stop (nl_comp (pg_netlink p))\<rparr>"
  have "nl_step L (pg_netlink p) Kill ((pg_netlink p)\<lparr>nl_comp := netlink_Stop (nl_comp (pg_netlink p)),
      nl_trace := nl_trace (pg_netlink p) @ []\<rparr>)"
    using assms(1) by (intro nl_step_next) (simp_all add: nl_may_def hung_def nl_next_def go_return_def)
  then have "documented_step L (pg_netlink p) Kill ?n" by (simp add: documented_step_def documented_def)
  from program_step.netlink [OF _ this, of "[]" cb] assms(2) show ?thesis
    by (simp add: netlink_may_def of_run_def)
qed

text \<open>
  The daemon may never end: whatever gateways are configured, the program has a run in which
  the gateways are stopped, as the first of the components, while the goroutine of the netlink
  component waits for room in the channel of one of them; the netlink component is told to stop
  next, and from then on, whatever happens, its goroutine does not return, so that its \<^verbatim>\<open>Stop\<close>
  waits for ever and the components after it are never stopped.
\<close>

theorem daemon_may_never_end:
  assumes "program_start L ncfg cb cfgs p" and "cfgs \<noteq> []"
  shows "\<exists>evs q. execution (program_step L cb) p evs q
     \<and> stopped_all (pg_gateways q) \<and> dying (nl_comp (pg_netlink q))
     \<and> (\<forall>evs' r. execution (program_step L cb) q evs' r \<longrightarrow> nl_phase (pg_netlink r) = Running)"
proof -
  let ?ns = "replicate channel_capacity start_of_rib"
  have g: "gateways_start cfgs (pg_gateways p)" and out: "pg_outbox p = []"
    and sub: "documented_step L (nl_init ncfg) (AddSubscriber (Some cb)) (pg_netlink p)"
    using assms(1) by (simp_all add: program_start_def)
  obtain es t where t: "execution (gateways_step L) (pg_gateways p) es t" "stopped_all t" "stuck t"
      "entered es = ?ns @ [start_of_rib]"
    using blocked_run [OF g assms(2), of ?ns L start_of_rib] by auto
  have "refusing cb p"
    using sub out by (auto simp: refusing_def documented_step_def waiting_def subscribed_to_def elim!: nl_step.cases)
      (auto simp: nl_next_def nl_init_def netlink_New_def Subscribe_def newObserver_def close_signal_def)
  moreover have "set (entered es) \<subseteq> {start_of_rib}" unfolding t(4) by auto
  ultimately obtain evs q where q: "execution (program_step L cb) p evs q"
      "refusing cb q" "pg_gateways q = t" using fed_run [OF t(1)] by blast
  have hung: "hung q" using q(2,3) t(3) by (simp add: hung_def refusing_def waiting_def)
  have reach: "nl_reach L ncfg (pg_netlink q)"
    using program_execution_inv [OF q(1) assms(1)] by (simp add: program_inv_def)
  have "no_panic (pg_gateways q)"
    using t(2) q(3) by (auto simp: no_panic_def stopped_all_def list_all_iff)
  note kill = kill_step [OF hung this, of L cb]
  let ?r = "q\<lparr>pg_netlink := (pg_netlink q)\<lparr>nl_comp := netlink_Stop (nl_comp (pg_netlink q))\<rparr>\<rparr>"
  have "execution (program_step L cb) p (evs @ [NetlinkStep Kill]) ?r"
    by (rule execution_snoc [where step = "program_step L cb", OF q(1) kill])
  moreover have "\<forall>evs' s. execution (program_step L cb) ?r evs' s \<longrightarrow> nl_phase (pg_netlink s) = Running"
    using hung_forever hung_step [OF kill hung reach] unfolding hung_def by blast
  ultimately show ?thesis using t(2) q(3) by (intro exI [of _ "evs @ [NetlinkStep Kill]"] exI [of _ ?r]) simp
qed

theorem daemon_may_never_end_witness:
  "\<exists>evs q. execution (program_step plain_lib 7) example_program evs q \<and> stopped_all (pg_gateways q)
     \<and> dying (nl_comp (pg_netlink q)) \<and> nl_phase (pg_netlink q) = Running"
proof -
  obtain evs q where q: "execution (program_step plain_lib 7) example_program evs q" "stopped_all (pg_gateways q)"
      "dying (nl_comp (pg_netlink q))"
      "\<forall>evs' r. execution (program_step plain_lib 7) q evs' r \<longrightarrow> nl_phase (pg_netlink r) = Running"
    using daemon_may_never_end [OF example_program_start] by blast
  then show ?thesis using execution_nil [of "program_step plain_lib 7" q] by blast
qed

end
