(* ===== verification/Daemon_Lifecycle.thy ===== *)
theory Daemon_Lifecycle
  imports LRG_Prelude "HOL-Library.Signed_Division"
begin

text \<open>
  The daemon component (\<^verbatim>\<open>src/daemon\<close>): the termination channel, the goroutine that waits for a
  signal, and the watchdog ticker. The operating system (which signals arrive when, what systemd
  answers) is the environment.
\<close>

section \<open>State\<close>

datatype os_signal = SIGINT | SIGTERM | SIGHUP

text \<open>
  The goroutine of \<^verbatim>\<open>Start\<close>: not started, about to register for signals, blocked in its
  \<^verbatim>\<open>select\<close>, or finished.
\<close>

datatype waiter = NotStarted | Spawned | Waiting | Finished

text \<open>
  \<^verbatim>\<open>realComponent\<close>, with the channel of signals (room for one) and whether signals are routed to
  it; \<open>killed\<close> tells that a signal took its default action and ended the process. A ticker is
  named by a number.
\<close>

record daemon =
  terminated :: bool
  terminate_once :: bool
  waiter :: waiter
  signals :: "os_signal list"
  routed :: bool
  killed :: bool
  watchdogTicker :: "nat option"
  watchdog_next :: nat

datatype daemon_effect =
    SdNotify string
  | Unsetenv string
  | StopSelf
  | WatchdogNew nat duration
  | WatchdogStop nat
  | DaemonLog log_level string

definition New_daemon :: daemon where
  "New_daemon = \<lparr>terminated = False, terminate_once = False, waiter = NotStarted, signals = [],
     routed = False, killed = False, watchdogTicker = None, watchdog_next = 0\<rparr>"

section \<open>Lifecycle\<close>

text \<open>\<^verbatim>\<open>Terminate\<close>: the channel is closed by the first call; closing it twice would panic.\<close>

definition Terminate :: "daemon \<Rightarrow> (daemon_effect, daemon) go" where
  "Terminate d =
     (if terminate_once d then go_return d
      else if terminated d then go_panic CloseOfClosedChannel
      else go_return (d\<lparr>terminate_once := True, terminated := True\<rparr>))"

text \<open>\<^verbatim>\<open>Terminated\<close>: a receive on the channel it returns goes on when the channel is closed.\<close>

definition Terminated :: "daemon \<Rightarrow> bool" where
  "Terminated d = terminated d"

declare Terminated_def [simp]

section \<open>Watchdog\<close>

definition TickWatchdog :: "(daemon_effect, unit) go" where
  "TickWatchdog = go_emit [SdNotify ''WATCHDOG=1''] ()"

text \<open>
  \<^verbatim>\<open>initializeWatchdog\<close>; \<open>enabled\<close> is the answer of \<^verbatim>\<open>SdWatchdogEnabled\<close>. The division is Go's, and
  \<^verbatim>\<open>time.NewTicker\<close> panics on an interval that is not positive.
\<close>

definition initializeWatchdog :: "string + duration \<Rightarrow> daemon \<Rightarrow> (daemon_effect, daemon) go" where
  "initializeWatchdog enabled d = (case enabled of
      Inl err \<Rightarrow> go_emit [DaemonLog Warn ''unable to query watchdog timer''] d
    | Inr interval \<Rightarrow>
        if interval = 0 then go_return d
        else let delay = interval sdiv 3; t = watchdog_next d in
          if delay \<le> 0 then go_panic NonPositiveInterval
          else go_bind (go_emit [WatchdogNew t delay] ()) (\<lambda>_.
               go_bind TickWatchdog (\<lambda>_.
               go_emit [DaemonLog Info ''watchdog enabled'']
                 (d\<lparr>watchdogTicker := Some t, watchdog_next := Suc t\<rparr>))))"

definition stopWatchdog :: "daemon \<Rightarrow> (daemon_effect, daemon) go" where
  "stopWatchdog d = (case watchdogTicker d of
      None \<Rightarrow> go_return d
    | Some t \<Rightarrow> go_emit [WatchdogStop t] (d\<lparr>watchdogTicker := None\<rparr>))"

text \<open>\<^verbatim>\<open>Watchdog\<close>: the channel of the ticker, which is named by the ticker, or \<^verbatim>\<open>nil\<close>.\<close>

definition Watchdog :: "daemon \<Rightarrow> nat option" where
  "Watchdog d = watchdogTicker d"

text \<open>
  \<^verbatim>\<open>Ready\<close>: systemd is told; a process that upstart started, which shows in the variable
  \<^verbatim>\<open>UPSTART_JOB\<close>, clears the variable and stops itself. The value is what the variable holds then.
\<close>

definition Ready :: "string \<Rightarrow> (daemon_effect, string) go" where
  "Ready upstart_job =
     go_bind (go_emit [SdNotify ''READY=1''] ()) (\<lambda>_.
     if upstart_job \<noteq> '''' then go_emit [Unsetenv ''UPSTART_JOB'', StopSelf] ''''
     else go_return upstart_job)"

section \<open>Start, stop and signals\<close>

definition Start_daemon :: "string + duration \<Rightarrow> daemon \<Rightarrow> (daemon_effect, daemon) go" where
  "Start_daemon enabled d =
     initializeWatchdog enabled (d\<lparr>waiter := Spawned\<rparr>)"

definition Stop_daemon :: "daemon \<Rightarrow> (daemon_effect, daemon) go" where
  "Stop_daemon d = go_bind (stopWatchdog d) Terminate"

text \<open>
  The operating system delivers a signal: to the channel when it is routed there (it is dropped
  when the channel is full), with its default action, the end of the process, otherwise.
\<close>

definition deliver :: "os_signal \<Rightarrow> daemon \<Rightarrow> daemon" where
  "deliver sg d =
     (if \<not> routed d then d\<lparr>killed := True\<rparr>
      else if signals d = [] then d\<lparr>signals := [sg]\<rparr>
      else d)"

text \<open>The goroutine registers for the three signals: \<^verbatim>\<open>signal.Notify\<close>.\<close>

definition on_spawned :: "daemon \<Rightarrow> (daemon_effect, daemon) go option" where
  "on_spawned d =
     (if waiter d = Spawned then Some (go_return (d\<lparr>waiter := Waiting, routed := True\<rparr>)) else None)"

text \<open>The two cases of the goroutine's \<^verbatim>\<open>select\<close>; it ends after either.\<close>

definition on_signal :: "daemon \<Rightarrow> (daemon_effect, daemon) go option" where
  "on_signal d = (case (waiter d, signals d) of
      (Waiting, sg # rest) \<Rightarrow>
        let d = d\<lparr>waiter := Finished, signals := rest\<rparr> in
        Some (if sg = SIGINT \<or> sg = SIGTERM
              then go_bind (go_emit [DaemonLog Info ''quitting...''] ()) (\<lambda>_.
                   go_bind (Terminate d) (\<lambda>d. go_return (d\<lparr>routed := False\<rparr>)))
              else go_return d)
    | _ \<Rightarrow> None)"

definition on_terminated :: "daemon \<Rightarrow> (daemon_effect, daemon) go option" where
  "on_terminated d =
     (if waiter d = Waiting \<and> terminated d then Some (go_return (d\<lparr>waiter := Finished\<rparr>)) else None)"

section \<open>The daemon as a step relation\<close>

datatype daemon_event =
    StartDaemon "string + duration"
  | StopDaemon
  | TerminateDaemon
  | OsSignal os_signal
  | WaiterSetup
  | WaiterSignal
  | WaiterTerminated

definition daemon_next :: "daemon_event \<Rightarrow> daemon \<Rightarrow> (daemon_effect, daemon) go option" where
  "daemon_next ev d = (case ev of
      StartDaemon enabled \<Rightarrow> if waiter d = NotStarted then Some (Start_daemon enabled d) else None
    | StopDaemon \<Rightarrow> Some (Stop_daemon d)
    | TerminateDaemon \<Rightarrow> Some (Terminate d)
    | OsSignal sg \<Rightarrow> Some (go_return (deliver sg d))
    | WaiterSetup \<Rightarrow> on_spawned d
    | WaiterSignal \<Rightarrow> on_signal d
    | WaiterTerminated \<Rightarrow> on_terminated d)"

record daemon_run =
  d_phase :: phase
  d_state :: daemon
  d_trace :: "daemon_effect list"

inductive daemon_step :: "daemon_run \<Rightarrow> daemon_event \<Rightarrow> daemon_run \<Rightarrow> bool" where
  daemon_ok: "d_phase s = Running \<Longrightarrow> \<not> killed (d_state s) \<Longrightarrow>
     daemon_next ev (d_state s) = Some (Inr (d, es)) \<Longrightarrow>
     daemon_step s ev (s\<lparr>d_state := d, d_trace := d_trace s @ es\<rparr>)"
| daemon_panic: "d_phase s = Running \<Longrightarrow> \<not> killed (d_state s) \<Longrightarrow>
     daemon_next ev (d_state s) = Some (Inl p) \<Longrightarrow>
     daemon_step s ev (s\<lparr>d_phase := Panicked p\<rparr>)"

inductive_cases daemon_stepE: "daemon_step s ev t"

definition daemon_start :: "daemon_run \<Rightarrow> bool" where
  "daemon_start s \<longleftrightarrow> s = \<lparr>d_phase = Running, d_state = New_daemon, d_trace = []\<rparr>"

text \<open>systemd announces intervals in microseconds: a positive one is at least 1000ns.\<close>

definition plausible :: "daemon_event \<Rightarrow> bool" where
  "plausible ev = (case ev of StartDaemon (Inr interval) \<Rightarrow> interval = 0 \<or> 1000 \<le> interval | _ \<Rightarrow> True)"

definition plausible_step :: "daemon_run \<Rightarrow> daemon_event \<Rightarrow> daemon_run \<Rightarrow> bool" where
  "plausible_step s ev t \<longleftrightarrow> daemon_step s ev t \<and> plausible ev"

definition daemon_reach :: "daemon_run \<Rightarrow> bool" where
  "daemon_reach = reach daemon_start plausible_step"

section \<open>Invariant\<close>

text \<open>The tickers that a trace has started and not stopped.\<close>

fun running_watchdogs :: "daemon_effect list \<Rightarrow> nat list \<Rightarrow> nat list" where
  "running_watchdogs [] ts = ts"
| "running_watchdogs (WatchdogNew t d # es) ts = running_watchdogs es (t # ts)"
| "running_watchdogs (WatchdogStop t # es) ts = running_watchdogs es (remove1 t ts)"
| "running_watchdogs (_ # es) ts = running_watchdogs es ts"

lemma running_watchdogs_append [simp]:
  "running_watchdogs (xs @ ys) ts = running_watchdogs ys (running_watchdogs xs ts)"
  by (induction xs ts rule: running_watchdogs.induct) simp_all

definition daemon_inv :: "daemon_run \<Rightarrow> bool" where
  "daemon_inv s \<longleftrightarrow> d_phase s = Running
     \<and> (terminated (d_state s) \<longleftrightarrow> terminate_once (d_state s))
     \<and> (waiter (d_state s) = NotStarted \<longrightarrow> watchdogTicker (d_state s) = None)
     \<and> running_watchdogs (d_trace s) [] =
         (case watchdogTicker (d_state s) of None \<Rightarrow> [] | Some t \<Rightarrow> [t])"

lemma sdiv_plausible: "1000 \<le> (i :: int) \<Longrightarrow> 0 < i sdiv 3"
  by (simp add: signed_divide_int_def sgn_if)

lemma daemon_next_inv:
  assumes inv: "daemon_inv s" and ev: "plausible ev" and n: "daemon_next ev (d_state s) = Some m"
  shows "go_ok m (\<lambda>d es. daemon_inv (s\<lparr>d_state := d, d_trace := d_trace s @ es\<rparr>))"
proof (cases ev)
  case (StartDaemon enabled)
  show ?thesis
  proof (cases enabled)
    case (Inl err)
    with StartDaemon n inv show ?thesis
      by (auto simp: daemon_next_def Start_daemon_def initializeWatchdog_def daemon_inv_def
          split: if_splits option.splits)
  next
    case (Inr i)
    with StartDaemon ev have "i = 0 \<or> 0 < i sdiv 3" using sdiv_plausible by (auto simp: plausible_def)
    with StartDaemon Inr n inv show ?thesis
      by (auto simp: daemon_next_def Start_daemon_def initializeWatchdog_def daemon_inv_def Let_def
          TickWatchdog_def split: if_splits option.splits)
  qed
next
  case StopDaemon
  with n inv show ?thesis
    by (cases "watchdogTicker (d_state s)")
       (auto simp: daemon_next_def Stop_daemon_def stopWatchdog_def Terminate_def daemon_inv_def)
next
  case TerminateDaemon
  with n inv show ?thesis by (auto simp: daemon_next_def Terminate_def daemon_inv_def)
next
  case (OsSignal sg)
  with n inv show ?thesis by (auto simp: daemon_next_def deliver_def daemon_inv_def)
next
  case WaiterSetup
  with n inv show ?thesis by (auto simp: daemon_next_def on_spawned_def daemon_inv_def split: if_splits)
next
  case WaiterSignal
  with n inv show ?thesis
    by (auto simp: daemon_next_def on_signal_def Terminate_def daemon_inv_def Let_def
        split: waiter.splits list.splits if_splits)
next
  case WaiterTerminated
  with n inv show ?thesis
    by (auto simp: daemon_next_def on_terminated_def daemon_inv_def split: if_splits)
qed

lemma plausible_step_inv:
  assumes "daemon_inv s" and "plausible_step s ev t"
  shows "daemon_inv t"
proof -
  from assms(2) have st: "daemon_step s ev t" and ev: "plausible ev" by (simp_all add: plausible_step_def)
  from st show ?thesis
  proof (cases rule: daemon_step.cases)
    case (daemon_ok d es)
    with daemon_next_inv [OF assms(1) ev daemon_ok(4)] show ?thesis by simp
  next
    case (daemon_panic p)
    with daemon_next_inv [OF assms(1) ev daemon_panic(4)] show ?thesis by simp
  qed
qed

interpretation daemon: step_system daemon_start plausible_step daemon_inv
proof
  show "daemon_inv s" if "daemon_start s" for s
    using that by (simp add: daemon_start_def daemon_inv_def New_daemon_def)
qed (rule plausible_step_inv)

text \<open>
  C32. Whatever the order of signals, terminations, stops and the steps of the goroutine: the
  termination channel is closed at most once (no panic), the only running watchdog ticker is the
  one \<^verbatim>\<open>Watchdog\<close> returns, and after a stop the component is terminated and no ticker runs.
\<close>

theorem daemon_lifecycle_safe:
  assumes "daemon_reach s"
  shows "d_phase s = Running
     \<and> running_watchdogs (d_trace s) [] = (case Watchdog (d_state s) of None \<Rightarrow> [] | Some t \<Rightarrow> [t])
     \<and> (\<exists>d es. Stop_daemon (d_state s) = Inr (d, es) \<and> terminated d \<and> Watchdog d = None
          \<and> running_watchdogs (d_trace s @ es) [] = [])"
proof -
  have inv: "daemon_inv s" using daemon.reach_inv assms unfolding daemon_reach_def .
  then show ?thesis
    by (cases "watchdogTicker (d_state s)")
       (auto simp: daemon_inv_def Watchdog_def Stop_daemon_def stopWatchdog_def Terminate_def go_bind_def
         go_emit_def go_return_def)
qed

text \<open>Running a list of events.\<close>

definition daemon_do :: "daemon_event \<Rightarrow> daemon_run \<Rightarrow> daemon_run option" where
  "daemon_do ev s =
     (if d_phase s = Running \<and> \<not> killed (d_state s) then
        (case daemon_next ev (d_state s) of
           None \<Rightarrow> None
         | Some (Inl p) \<Rightarrow> Some (s\<lparr>d_phase := Panicked p\<rparr>)
         | Some (Inr (d, es)) \<Rightarrow> Some (s\<lparr>d_state := d, d_trace := d_trace s @ es\<rparr>))
      else None)"

fun daemon_exec :: "daemon_event list \<Rightarrow> daemon_run \<Rightarrow> daemon_run option" where
  "daemon_exec [] s = Some s"
| "daemon_exec (ev # evs) s = (case daemon_do ev s of None \<Rightarrow> None | Some t \<Rightarrow> daemon_exec evs t)"

lemma daemon_do_step: "daemon_do ev s = Some t \<Longrightarrow> daemon_step s ev t"
  by (auto simp: daemon_do_def intro: daemon_step.intros split: if_splits option.splits sum.splits)

lemma daemon_exec_reach:
  "daemon_reach s \<Longrightarrow> list_all plausible evs \<Longrightarrow> daemon_exec evs s = Some t \<Longrightarrow> daemon_reach t"
proof (induction evs arbitrary: s)
  case (Cons ev evs)
  then obtain u where u: "daemon_do ev s = Some u" by (auto split: option.splits)
  with Cons.prems have "plausible_step s ev u" by (simp add: plausible_step_def daemon_do_step)
  with Cons.prems(1) have "daemon_reach u" unfolding daemon_reach_def by (rule reach_step)
  with Cons u show ?case by simp
qed simp

definition daemon_init :: daemon_run where
  "daemon_init = \<lparr>d_phase = Running, d_state = New_daemon, d_trace = []\<rparr>"

lemma daemon_reach_init: "daemon_reach daemon_init"
  unfolding daemon_reach_def by (rule reach_start) (simp add: daemon_start_def daemon_init_def)

lemmas daemon_eval = daemon_do_def daemon_next_def Start_daemon_def initializeWatchdog_def TickWatchdog_def
  on_spawned_def on_signal_def deliver_def daemon_init_def New_daemon_def go_return_def go_emit_def
  go_bind_def signed_divide_int_def Let_def

definition hup_run :: daemon_run where
  "hup_run = \<lparr>d_phase = Running,
     d_state = \<lparr>terminated = False, terminate_once = False, waiter = Finished, signals = [],
       routed = True, killed = False, watchdogTicker = Some 0, watchdog_next = 1\<rparr>,
     d_trace = [WatchdogNew 0 (10 * second), SdNotify ''WATCHDOG=1'', DaemonLog Info ''watchdog enabled'']\<rparr>"

lemma hup_run_reach: "daemon_reach hup_run"
proof -
  let ?evs = "[StartDaemon (Inr (30 * second)), WaiterSetup, OsSignal SIGHUP, WaiterSignal]"
  have "daemon_exec ?evs daemon_init = Some hup_run"
    by (simp add: daemon_eval second_def millisecond_def hup_run_def)
  moreover have "list_all plausible ?evs" by (simp add: plausible_def second_def millisecond_def)
  ultimately show ?thesis using daemon_exec_reach [OF daemon_reach_init] by blast
qed

theorem daemon_lifecycle_safe_witness:
  "daemon_reach hup_run \<and> (\<exists>d es. Stop_daemon (d_state hup_run) = Inr (d, es) \<and> terminated d)"
  using daemon_lifecycle_safe [OF hup_run_reach] hup_run_reach by blast

section \<open>After a SIGHUP\<close>

text \<open>What the operating system and the goroutine do on their own.\<close>

definition signal_event :: "daemon_event \<Rightarrow> bool" where
  "signal_event ev = (case ev of OsSignal sg \<Rightarrow> True | WaiterSetup \<Rightarrow> True | WaiterSignal \<Rightarrow> True
     | WaiterTerminated \<Rightarrow> True | _ \<Rightarrow> False)"

definition deaf :: "daemon \<Rightarrow> bool" where
  "deaf d \<longleftrightarrow> waiter d = Finished \<and> routed d \<and> \<not> terminated d \<and> \<not> killed d"

lemma deaf_step:
  assumes "deaf (d_state s)" "signal_event ev" "daemon_step s ev t"
  shows "deaf (d_state t)"
  using assms
  by (auto elim!: daemon_stepE simp: daemon_next_def deliver_def on_spawned_def on_signal_def
      on_terminated_def deaf_def signal_event_def go_return_def split: daemon_event.splits if_splits)

lemma deaf_execution:
  assumes "execution daemon_step s evs t" "deaf (d_state s)" "list_all signal_event evs"
  shows "deaf (d_state t)"
  using assms by (induction rule: execution.induct) (auto intro: deaf_step)

text \<open>
  The first signal ends the goroutine whatever it is. When it was a SIGHUP, no signal can end
  the daemon any more: from then on, after any number of signals, it is neither terminated nor
  killed, because signals still go to a channel that nobody reads.
\<close>

theorem sighup_disables_signals:
  assumes "waiter d = Waiting" and "signals d = [SIGHUP]" and "routed d" and "\<not> terminated d" and "\<not> killed d"
  shows "\<exists>d'. on_signal d = Some (Inr (d', [])) \<and> (\<forall>s evs t. d_state s = d' \<longrightarrow> list_all signal_event evs
     \<longrightarrow> execution daemon_step s evs t \<longrightarrow> \<not> terminated (d_state t) \<and> \<not> killed (d_state t))"
proof -
  let ?d = "d\<lparr>waiter := Finished, signals := []\<rparr>"
  have "on_signal d = Some (Inr (?d, []))"
    using assms by (simp add: on_signal_def go_return_def Let_def)
  moreover have "deaf ?d" using assms by (simp add: deaf_def)
  ultimately show ?thesis using deaf_execution by (fastforce simp: deaf_def)
qed

definition after_hup :: daemon_run where
  "after_hup = \<lparr>d_phase = Running, d_state = New_daemon\<lparr>waiter := Finished, routed := True\<rparr>, d_trace = []\<rparr>"

lemma after_hup_execution:
  "\<exists>t. execution daemon_step after_hup [OsSignal SIGTERM, OsSignal SIGINT] t"
proof -
  obtain t where t: "daemon_do (OsSignal SIGTERM) after_hup = Some t" "daemon_do (OsSignal SIGINT) t = Some t"
    by (simp add: daemon_eval after_hup_def)
  have "daemon_step after_hup (OsSignal SIGTERM) t" "daemon_step t (OsSignal SIGINT) t"
    using t by (auto intro: daemon_do_step)
  then have "execution daemon_step after_hup (([] @ [OsSignal SIGTERM]) @ [OsSignal SIGINT]) t"
    by (blast intro: execution_nil execution_snoc)
  then show ?thesis by auto
qed

theorem sighup_disables_signals_witness:
  "\<exists>t. execution daemon_step after_hup [OsSignal SIGTERM, OsSignal SIGINT] t
     \<and> \<not> terminated (d_state t) \<and> \<not> killed (d_state t)"
proof -
  let ?d = "New_daemon\<lparr>waiter := Waiting, routed := True, signals := [SIGHUP]\<rparr>"
  obtain d' where d: "on_signal ?d = Some (Inr (d', []))" and
    deaf: "\<forall>s evs t. d_state s = d' \<longrightarrow> list_all signal_event evs
     \<longrightarrow> execution daemon_step s evs t \<longrightarrow> \<not> terminated (d_state t) \<and> \<not> killed (d_state t)"
    using sighup_disables_signals [of ?d] by (auto simp: New_daemon_def)
  have "d_state after_hup = d'" using d by (simp add: daemon_eval after_hup_def)
  moreover have "list_all signal_event [OsSignal SIGTERM, OsSignal SIGINT]" by (simp add: signal_event_def)
  ultimately show ?thesis using deaf after_hup_execution by blast
qed

end
