(* ===== verification/Metrics_Exporters.thy ===== *)
theory Metrics_Exporters
  imports LRG_Prelude
begin

text \<open>
  The metrics subsystem (\<^verbatim>\<open>src/reporter/metrics\<close>): the configuration of the exporters and the
  goroutines between \<^verbatim>\<open>Start\<close> and \<^verbatim>\<open>Stop\<close>, with the channel that ends them and the wait group that
  \<^verbatim>\<open>Stop\<close> waits for. The YAML library and the outcomes of opening a file, a socket and a connection
  are parameters; what an exporter writes is in \<open>Metric_Names\<close>.
\<close>

section \<open>Configuration\<close>

record expvar_config =
  ev_Listen :: string

record file_config =
  fl_Path :: string
  fl_Interval :: duration

record collectd_config =
  cd_Connect :: string
  cd_Interval :: duration

datatype exporter_config =
    Expvar expvar_config
  | File file_config
  | Collectd collectd_config

datatype 'e metrics_error =
    DecodeFailed 'e string
  | MissingListen
  | MissingPath
  | MissingInterval string
  | NotOneElement nat nat
  | BadExporterName nat
  | MarshalFailed 'e nat
  | ForItem "'e metrics_error" string nat
  | UnknownSystem string nat

definition unmarshal_expvar ::
    "(expvar_config \<Rightarrow> 'e + expvar_config) \<Rightarrow> 'e metrics_error + expvar_config" where
  "unmarshal_expvar decode = (case decode \<lparr>ev_Listen = ''''\<rparr> of
      Inl e \<Rightarrow> Inl (DecodeFailed e ''unable to decode expvar configuration'')
    | Inr raw \<Rightarrow> if ev_Listen raw = '''' then Inl MissingListen else Inr raw)"

definition unmarshal_file ::
    "(file_config \<Rightarrow> 'e + file_config) \<Rightarrow> 'e metrics_error + file_config" where
  "unmarshal_file decode = (case decode \<lparr>fl_Path = '''', fl_Interval = 0\<rparr> of
      Inl e \<Rightarrow> Inl (DecodeFailed e ''unable to decode file configuration'')
    | Inr raw \<Rightarrow>
        if fl_Interval raw = 0 then Inl (MissingInterval ''file'')
        else if fl_Path raw = '''' then Inl MissingPath
        else Inr raw)"

definition unmarshal_collectd ::
    "(collectd_config \<Rightarrow> 'e + collectd_config) \<Rightarrow> 'e metrics_error + collectd_config" where
  "unmarshal_collectd decode = (case decode \<lparr>cd_Connect = ''127.0.0.1:25826'', cd_Interval = 0\<rparr> of
      Inl e \<Rightarrow> Inl (DecodeFailed e ''unable to decode collectd configuration'')
    | Inr raw \<Rightarrow>
        if cd_Interval raw = 0 then Inl (MissingInterval ''collectd'')
        else Inr raw)"

text \<open>
  The YAML library: the key of a map, the encoding of a value, and the decoding of a document
  into a structure without an \<^verbatim>\<open>UnmarshalYAML\<close> of its own.
\<close>

datatype yaml_key = StringKey string | OtherKey

record ('v, 'doc, 'e) metrics_yaml =
  marshal :: "'v \<Rightarrow> 'e + 'doc"
  decode_expvar :: "'doc \<Rightarrow> expvar_config \<Rightarrow> 'e + expvar_config"
  decode_file :: "'doc \<Rightarrow> file_config \<Rightarrow> 'e + file_config"
  decode_collectd :: "'doc \<Rightarrow> collectd_config \<Rightarrow> 'e + collectd_config"

definition for_item ::
    "string \<Rightarrow> nat \<Rightarrow> ('c \<Rightarrow> exporter_config) \<Rightarrow> 'e metrics_error + 'c \<Rightarrow> 'e metrics_error + exporter_config" where
  "for_item msg i wrap r = (case r of Inl e \<Rightarrow> Inl (ForItem e msg i) | Inr c \<Rightarrow> Inr (wrap c))"

text \<open>The body of the loop, for the item with number \<open>i\<close> (counted from 1 in the messages).\<close>

definition unmarshal_item ::
    "('v, 'doc, 'e) metrics_yaml \<Rightarrow> nat \<Rightarrow> (yaml_key \<times> 'v) list \<Rightarrow> 'e metrics_error + exporter_config" where
  "unmarshal_item Y i item = (case item of
      [(key, val)] \<Rightarrow> (case key of
          OtherKey \<Rightarrow> Inl (BadExporterName (i + 1))
        | StringKey name \<Rightarrow> (case marshal Y val of
            Inl e \<Rightarrow> Inl (MarshalFailed e (i + 1))
          | Inr doc \<Rightarrow>
              if name = ''expvar''
              then for_item ''incorrect expvar configuration'' (i + 1) Expvar (unmarshal_expvar (decode_expvar Y doc))
              else if name = ''file''
              then for_item ''incorrect file configuration'' (i + 1) File (unmarshal_file (decode_file Y doc))
              else if name = ''collectd''
              then for_item ''incorrect collectd configuration'' (i + 1) Collectd (unmarshal_collectd (decode_collectd Y doc))
              else Inl (UnknownSystem name (i + 1))))
    | _ \<Rightarrow> Inl (NotOneElement (i + 1) (length item)))"

fun unmarshal_items ::
    "('v, 'doc, 'e) metrics_yaml \<Rightarrow> nat \<Rightarrow> (yaml_key \<times> 'v) list list \<Rightarrow> 'e metrics_error + exporter_config list" where
  "unmarshal_items Y i [] = Inr []"
| "unmarshal_items Y i (item # items) = (case unmarshal_item Y i item of
      Inl e \<Rightarrow> Inl e
    | Inr c \<Rightarrow> (case unmarshal_items Y (i + 1) items of Inl e \<Rightarrow> Inl e | Inr cs \<Rightarrow> Inr (c # cs)))"

definition unmarshal_metrics ::
    "('v, 'doc, 'e) metrics_yaml \<Rightarrow> 'e + (yaml_key \<times> 'v) list list \<Rightarrow> 'e metrics_error + exporter_config list" where
  "unmarshal_metrics Y raw_config = (case raw_config of
      Inl e \<Rightarrow> Inl (DecodeFailed e ''unable to decode list of metric exporters'')
    | Inr items \<Rightarrow> unmarshal_items Y 0 items)"

text \<open>What the checks of the three decoders guarantee.\<close>

definition exporter_checked :: "exporter_config \<Rightarrow> bool" where
  "exporter_checked c = (case c of
      Expvar e \<Rightarrow> ev_Listen e \<noteq> ''''
    | File f \<Rightarrow> fl_Interval f \<noteq> 0 \<and> fl_Path f \<noteq> ''''
    | Collectd d \<Rightarrow> cd_Interval d \<noteq> 0)"

lemma unmarshal_item_checked: "unmarshal_item Y i item = Inr c \<Longrightarrow> exporter_checked c"
  by (auto simp: unmarshal_item_def for_item_def unmarshal_expvar_def unmarshal_file_def unmarshal_collectd_def
      exporter_checked_def split: list.splits yaml_key.splits sum.splits if_splits prod.splits)

lemma unmarshal_items_checked:
  "unmarshal_items Y i items = Inr cs \<Longrightarrow> list_all exporter_checked cs \<and> length cs = length items"
  by (induction Y i items arbitrary: cs rule: unmarshal_items.induct)
     (auto split: sum.splits dest: unmarshal_item_checked)

section \<open>Exporters and their goroutines\<close>

text \<open>
  The goroutine of an exporter: started, at its \<^verbatim>\<open>select\<close>, past the end signal, or ended. The one of
  expvar has no ticker: it waits for the end signal from the start.
\<close>

datatype exp_phase = Spawned | Looping | Finishing | Ended

record exporter =
  ex_conf :: exporter_config
  ex_phase :: exp_phase

text \<open>
  The goroutine that called \<^verbatim>\<open>Start\<close> or \<^verbatim>\<open>Stop\<close>: while it waits for the wait group it carries the
  error it will return.
\<close>

datatype main_phase = NotStarted | Started | WaitingGroup "err option" | Stopped "err option"

record metrics =
  m_config :: "exporter_config list"
  m_prefix :: string
  done_closed :: bool
  wg :: nat
  exporters :: "exporter list"
  runtime_loop :: bool
  main :: "main_phase"

datatype metrics_effect =
    OpenOutput nat
  | CloseOutput nat
  | TickerNew nat duration
  | TickerEnd nat
  | WriteMetrics nat
  | SyncOutput nat
  | FlushOutput nat
  | ServerStop nat
  | CaptureRuntime

definition Metrics_New :: "exporter_config list \<Rightarrow> string \<Rightarrow> metrics" where
  "Metrics_New cfg prefix = \<lparr>m_config = cfg, m_prefix = prefix, done_closed = False, wg = 0, exporters = [],
     runtime_loop = False, main = NotStarted\<rparr>"

text \<open>The outcome of opening a file, connecting to collectd and listening.\<close>

record backends =
  open_file :: "string \<Rightarrow> err option"
  dial :: "string \<Rightarrow> err option"
  listen :: "string \<Rightarrow> err option"

definition add_exporter :: "exporter_config \<Rightarrow> exp_phase \<Rightarrow> metrics \<Rightarrow> metrics" where
  "add_exporter c ph m = m\<lparr>exporters := exporters m @ [\<lparr>ex_conf = c, ex_phase = ph\<rparr>], wg := wg m + 1\<rparr>"

text \<open>\<^verbatim>\<open>initExporter\<close> of the three configurations.\<close>

definition init_expvar ::
    "backends \<Rightarrow> expvar_config \<Rightarrow> metrics \<Rightarrow> err option \<times> metrics \<times> metrics_effect list" where
  "init_expvar B c m = (case listen B (ev_Listen c) of
      Some e \<Rightarrow> (Some (Wrap e (''unable to listen to '' @ ev_Listen c)), m, [])
    | None \<Rightarrow> (None, add_exporter (Expvar c) Looping m, [OpenOutput (length (exporters m))]))"

definition init_file ::
    "backends \<Rightarrow> file_config \<Rightarrow> metrics \<Rightarrow> err option \<times> metrics \<times> metrics_effect list" where
  "init_file B c m = (case open_file B (fl_Path c) of
      Some e \<Rightarrow> (Some (Wrap e (''unable to open file '' @ fl_Path c)), m, [])
    | None \<Rightarrow> (None, add_exporter (File c) Spawned m, [OpenOutput (length (exporters m))]))"

definition init_collectd ::
    "backends \<Rightarrow> collectd_config \<Rightarrow> metrics \<Rightarrow> err option \<times> metrics \<times> metrics_effect list" where
  "init_collectd B c m = (case dial B (cd_Connect c) of
      Some e \<Rightarrow> (Some (Wrap e (''unable to connect to collectd '' @ cd_Connect c)), m, [])
    | None \<Rightarrow> (None, add_exporter (Collectd c) Spawned m, [OpenOutput (length (exporters m))]))"

definition initExporter ::
    "backends \<Rightarrow> exporter_config \<Rightarrow> metrics \<Rightarrow> err option \<times> metrics \<times> metrics_effect list" where
  "initExporter B c m = (case c of
      Expvar e \<Rightarrow> init_expvar B e m | File f \<Rightarrow> init_file B f m | Collectd d \<Rightarrow> init_collectd B d m)"

lemmas init_defs = initExporter_def init_expvar_def init_file_def init_collectd_def

fun init_exporters ::
    "backends \<Rightarrow> exporter_config list \<Rightarrow> metrics \<Rightarrow> err option \<times> metrics \<times> metrics_effect list" where
  "init_exporters B [] m = (None, m, [])"
| "init_exporters B (c # cs) m = (case initExporter B c m of
      (Some err, m, es) \<Rightarrow> (Some err, m, es)
    | (None, m, es) \<Rightarrow> (let (r, m, fs) = init_exporters B cs m in (r, m, es @ fs)))"

text \<open>\<^verbatim>\<open>Stop\<close>: close the channel, then wait; the wait is the state \<open>WaitingGroup\<close>.\<close>

definition begin_stop :: "err option \<Rightarrow> metrics \<Rightarrow> (metrics_effect, metrics) go" where
  "begin_stop err m =
     (if done_closed m then go_panic CloseOfClosedChannel
      else go_return (m\<lparr>done_closed := True, main := WaitingGroup err\<rparr>))"

definition wait_return :: "metrics \<Rightarrow> (metrics_effect, metrics) go option" where
  "wait_return m = (case main m of
      WaitingGroup err \<Rightarrow> if wg m = 0 then Some (go_return (m\<lparr>main := Stopped err\<rparr>)) else None
    | _ \<Rightarrow> None)"

text \<open>\<^verbatim>\<open>Start\<close>: when an exporter cannot be initialised, the others are stopped before it returns.\<close>

definition Metrics_Start :: "backends \<Rightarrow> metrics \<Rightarrow> (metrics_effect, metrics) go" where
  "Metrics_Start B m =
     (let (r, m, es) = init_exporters B (m_config m) (m\<lparr>runtime_loop := True\<rparr>) in
      go_bind (go_emit es ()) (\<lambda>_. case r of
        Some err \<Rightarrow> begin_stop (Some err) m
      | None \<Rightarrow> go_return (m\<lparr>main := Started\<rparr>)))"

text \<open>The goroutine of the runtime metrics.\<close>

definition runtime_tick :: "metrics \<Rightarrow> (metrics_effect, metrics) go option" where
  "runtime_tick m = (if runtime_loop m then Some (go_emit [CaptureRuntime] m) else None)"

definition runtime_done :: "metrics \<Rightarrow> (metrics_effect, metrics) go option" where
  "runtime_done m =
     (if runtime_loop m \<and> done_closed m then Some (go_return (m\<lparr>runtime_loop := False\<rparr>)) else None)"

text \<open>The steps of the goroutine of exporter \<open>i\<close>.\<close>

definition set_phase :: "nat \<Rightarrow> exp_phase \<Rightarrow> metrics \<Rightarrow> metrics" where
  "set_phase i ph m = m\<lparr>exporters := (exporters m)[i := (exporters m ! i)\<lparr>ex_phase := ph\<rparr>]\<rparr>"

definition wg_done :: "metrics \<Rightarrow> (metrics_effect, metrics) go" where
  "wg_done m = (if wg m = 0 then go_panic NegativeWaitGroup else go_return (m\<lparr>wg := wg m - 1\<rparr>))"

definition exporter_interval :: "exporter_config \<Rightarrow> duration option" where
  "exporter_interval c = (case c of
      Expvar e \<Rightarrow> None | File f \<Rightarrow> Some (fl_Interval f) | Collectd d \<Rightarrow> Some (cd_Interval d))"

text \<open>\<^verbatim>\<open>time.NewTicker\<close>, which panics on an interval that is not positive.\<close>

definition exp_begin :: "nat \<Rightarrow> metrics \<Rightarrow> (metrics_effect, metrics) go option" where
  "exp_begin i m = (case exporter_interval (ex_conf (exporters m ! i)) of
      None \<Rightarrow> None
    | Some d \<Rightarrow>
        if ex_phase (exporters m ! i) \<noteq> Spawned then None
        else if d \<le> 0 then Some (go_panic NonPositiveInterval)
        else Some (go_emit [TickerNew i d] (set_phase i Looping m)))"

definition exp_tick :: "nat \<Rightarrow> metrics \<Rightarrow> (metrics_effect, metrics) go option" where
  "exp_tick i m =
     (if ex_phase (exporters m ! i) = Looping
      then (case ex_conf (exporters m ! i) of
          Expvar e \<Rightarrow> None
        | File f \<Rightarrow> Some (go_emit [WriteMetrics i, SyncOutput i] m)
        | Collectd d \<Rightarrow> Some (go_emit [WriteMetrics i] m))
      else None)"

text \<open>
  The end signal: a file or a connection is closed and the wait group told; the server of expvar
  is asked to stop.
\<close>

definition exp_leave :: "nat \<Rightarrow> metrics \<Rightarrow> (metrics_effect, metrics) go option" where
  "exp_leave i m =
     (if done_closed m \<and> ex_phase (exporters m ! i) = Looping
      then Some (case ex_conf (exporters m ! i) of
          Expvar e \<Rightarrow> go_emit [ServerStop i] (set_phase i Finishing m)
        | File f \<Rightarrow> go_bind (go_emit [CloseOutput i] ()) (\<lambda>_. wg_done (set_phase i Finishing m))
        | Collectd d \<Rightarrow>
            go_bind (go_emit [FlushOutput i, CloseOutput i] ()) (\<lambda>_. wg_done (set_phase i Finishing m)))
      else None)"

text \<open>The end: the deferred stop of the ticker, or the server has stopped.\<close>

definition exp_return :: "nat \<Rightarrow> metrics \<Rightarrow> (metrics_effect, metrics) go option" where
  "exp_return i m =
     (if ex_phase (exporters m ! i) = Finishing
      then Some (case exporter_interval (ex_conf (exporters m ! i)) of
          None \<Rightarrow> go_bind (go_emit [CloseOutput i] ()) (\<lambda>_. wg_done (set_phase i Ended m))
        | Some d \<Rightarrow> go_emit [TickerEnd i] (set_phase i Ended m))
      else None)"

section \<open>The subsystem as a step relation\<close>

datatype metrics_event =
    StartMetrics "backends"
  | StopMetrics
  | WaitReturn
  | RuntimeTick
  | RuntimeDone
  | ExpBegin nat
  | ExpTick nat
  | ExpLeave nat
  | ExpReturn nat

definition on_exporter ::
    "(nat \<Rightarrow> metrics \<Rightarrow> (metrics_effect, metrics) go option) \<Rightarrow> nat \<Rightarrow> metrics
      \<Rightarrow> (metrics_effect, metrics) go option" where
  "on_exporter f i m = (if i < length (exporters m) then f i m else None)"

text \<open>The goroutine of \<^verbatim>\<open>Start\<close> and \<^verbatim>\<open>Stop\<close> can call neither while it waits.\<close>

definition metrics_next :: "metrics_event \<Rightarrow> metrics \<Rightarrow> (metrics_effect, metrics) go option" where
  "metrics_next ev m = (case ev of
      StartMetrics B \<Rightarrow> if main m = NotStarted then Some (Metrics_Start B m) else None
    | StopMetrics \<Rightarrow> (case main m of WaitingGroup e \<Rightarrow> None | _ \<Rightarrow> Some (begin_stop None m))
    | WaitReturn \<Rightarrow> wait_return m
    | RuntimeTick \<Rightarrow> runtime_tick m
    | RuntimeDone \<Rightarrow> runtime_done m
    | ExpBegin i \<Rightarrow> on_exporter exp_begin i m
    | ExpTick i \<Rightarrow> on_exporter exp_tick i m
    | ExpLeave i \<Rightarrow> on_exporter exp_leave i m
    | ExpReturn i \<Rightarrow> on_exporter exp_return i m)"

record metrics_run =
  mt_phase :: phase
  mt_state :: "metrics"
  mt_trace :: "metrics_effect list"

inductive metrics_step :: "metrics_run \<Rightarrow> metrics_event \<Rightarrow> metrics_run \<Rightarrow> bool" where
  metrics_ok: "mt_phase s = Running \<Longrightarrow> metrics_next ev (mt_state s) = Some (Inr (m, es)) \<Longrightarrow>
     metrics_step s ev (s\<lparr>mt_state := m, mt_trace := mt_trace s @ es\<rparr>)"
| metrics_panic: "mt_phase s = Running \<Longrightarrow> metrics_next ev (mt_state s) = Some (Inl p) \<Longrightarrow>
     metrics_step s ev (s\<lparr>mt_phase := Panicked p\<rparr>)"

definition metrics_init :: "exporter_config list \<Rightarrow> metrics_run" where
  "metrics_init cfg = \<lparr>mt_phase = Running, mt_state = Metrics_New cfg ''lrg'', mt_trace = []\<rparr>"

definition metrics_start :: "exporter_config list \<Rightarrow> metrics_run \<Rightarrow> bool" where
  "metrics_start cfg s \<longleftrightarrow> s = metrics_init cfg"

text \<open>
  The client calls \<^verbatim>\<open>Stop\<close> at most once, and only when \<^verbatim>\<open>Start\<close> succeeded (or was not called), as
  the \<^verbatim>\<open>daemon\<close> command does.
\<close>

definition disciplined :: "metrics \<Rightarrow> metrics_event \<Rightarrow> bool" where
  "disciplined m ev \<longleftrightarrow> (ev = StopMetrics \<longrightarrow> main m = Started \<or> main m = NotStarted)"

definition disciplined_step :: "metrics_run \<Rightarrow> metrics_event \<Rightarrow> metrics_run \<Rightarrow> bool" where
  "disciplined_step s ev t \<longleftrightarrow> metrics_step s ev t \<and> disciplined (mt_state s) ev"

definition metrics_reach :: "exporter_config list \<Rightarrow> metrics_run \<Rightarrow> bool" where
  "metrics_reach cfg = reach (metrics_start cfg) disciplined_step"

section \<open>Invariant\<close>

text \<open>An exporter that the wait group still counts.\<close>

definition pending :: "exporter \<Rightarrow> bool" where
  "pending e \<longleftrightarrow> (case exporter_interval (ex_conf e) of
      None \<Rightarrow> ex_phase e \<noteq> Ended | Some d \<Rightarrow> ex_phase e = Spawned \<or> ex_phase e = Looping)"

definition positive_interval :: "exporter_config \<Rightarrow> bool" where
  "positive_interval c \<longleftrightarrow> (case exporter_interval c of None \<Rightarrow> True | Some d \<Rightarrow> 0 < d)"

text \<open>An exporter with a usable interval; the one of expvar needs no ticker to be at its \<^verbatim>\<open>select\<close>.\<close>

definition sound :: "exporter \<Rightarrow> bool" where
  "sound e \<longleftrightarrow> positive_interval (ex_conf e)
     \<and> (exporter_interval (ex_conf e) = None \<longrightarrow> ex_phase e \<noteq> Spawned)"

definition count_pending :: "exporter list \<Rightarrow> nat" where
  "count_pending es = length (filter pending es)"

definition metrics_inv :: "metrics \<Rightarrow> bool" where
  "metrics_inv m \<longleftrightarrow> list_all sound (exporters m)
     \<and> list_all positive_interval (m_config m)
     \<and> wg m = count_pending (exporters m)
     \<and> (done_closed m \<longleftrightarrow> main m \<noteq> NotStarted \<and> main m \<noteq> Started)
     \<and> (main m = NotStarted \<longrightarrow> exporters m = [])
     \<and> (\<forall>e. main m = Stopped e \<longrightarrow> wg m = 0)"

text \<open>What was opened and closed, from the trace.\<close>

definition outputs_inv :: "metrics_effect list \<Rightarrow> exporter list \<Rightarrow> bool" where
  "outputs_inv es xs \<longleftrightarrow> (\<forall>i. count_list es (OpenOutput i) = (if i < length xs then 1 else 0)
     \<and> count_list es (CloseOutput i) = (if i < length xs \<and> \<not> pending (xs ! i) then 1 else 0))"

lemma count_pending_update:
  assumes "i < length xs" and "pending (xs ! i)" and "\<not> pending e"
  shows "count_pending (xs[i := e]) = count_pending xs - 1 \<and> 0 < count_pending xs"
proof -
  have xs: "xs = take i xs @ xs ! i # drop (Suc i) xs" using assms(1) by (rule id_take_nth_drop)
  have "count_pending xs = count_pending (take i xs) + 1 + count_pending (drop (Suc i) xs)"
    by (subst xs) (simp add: count_pending_def assms(2))
  moreover have "count_pending (xs[i := e]) = count_pending (take i xs) + count_pending (drop (Suc i) xs)"
    using assms(1,3) by (simp add: count_pending_def upd_conv_take_nth_drop)
  ultimately show ?thesis by simp
qed

lemma count_pending_same:
  assumes "i < length xs" and "pending (xs ! i) = pending e"
  shows "count_pending (xs[i := e]) = count_pending xs"
proof -
  have xs: "xs = take i xs @ xs ! i # drop (Suc i) xs" using assms(1) by (rule id_take_nth_drop)
  have "count_pending xs = count_pending (take i xs @ xs ! i # drop (Suc i) xs)" using xs by simp
  also have "\<dots> = count_pending (xs[i := e])"
    using assms by (simp add: count_pending_def upd_conv_take_nth_drop)
  finally show ?thesis by simp
qed

lemma init_exporters_inv:
  assumes "init_exporters B cs m = (r, m', es)"
    and "list_all positive_interval cs"
    and "list_all sound (exporters m)"
    and "wg m = count_pending (exporters m)"
    and "outputs_inv tr (exporters m)"
  shows "list_all sound (exporters m')
     \<and> wg m' = count_pending (exporters m') \<and> outputs_inv (tr @ es) (exporters m')
     \<and> m_config m' = m_config m \<and> done_closed m' = done_closed m \<and> main m' = main m"
  using assms
proof (induction cs arbitrary: m r m' es tr)
  case Nil
  then show ?case by simp
next
  case (Cons c cs)
  obtain q m1 es1 where i: "initExporter B c m = (q, m1, es1)" by (cases "initExporter B c m") auto
  show ?case
  proof (cases q)
    case (Some err)
    with Cons.prems i have "m1 = m" "es1 = []"
      by (auto simp: init_defs split: exporter_config.splits option.splits)
    with Cons.prems i Some show ?thesis by simp
  next
    case None
    then have new: "\<exists>ph. m1 = add_exporter c ph m \<and> es1 = [OpenOutput (length (exporters m))] \<and>
        (ph = Spawned \<and> exporter_interval c \<noteq> None \<or> exporter_interval c = None \<and> ph = Looping)"
      using i by (auto simp: init_defs exporter_interval_def
          split: exporter_config.splits option.splits)
    then obtain ph where ph: "m1 = add_exporter c ph m" "es1 = [OpenOutput (length (exporters m))]"
        "ph = Spawned \<and> exporter_interval c \<noteq> None \<or> exporter_interval c = None \<and> ph = Looping" by blast
    have p: "pending \<lparr>ex_conf = c, ex_phase = ph\<rparr>"
      using ph(3) by (auto simp: pending_def split: option.splits)
    obtain r2 m2 es2 where rest: "init_exporters B cs m1 = (r2, m2, es2)" by (cases "init_exporters B cs m1") auto
    have o: "outputs_inv (tr @ es1) (exporters m1)"
      using Cons.prems(5) p unfolding ph by (auto simp: outputs_inv_def add_exporter_def nth_append less_Suc_eq)
    have "list_all sound (exporters m2)
       \<and> wg m2 = count_pending (exporters m2) \<and> outputs_inv ((tr @ es1) @ es2) (exporters m2)
       \<and> m_config m2 = m_config m1 \<and> done_closed m2 = done_closed m1 \<and> main m2 = main m1"
    proof (rule Cons.IH [OF rest])
      show "list_all positive_interval cs" using Cons.prems(2) by simp
      show "list_all sound (exporters m1)"
        using Cons.prems(2,3) ph(3) by (auto simp: ph(1) add_exporter_def sound_def [of "\<lparr>ex_conf = c, ex_phase = ph\<rparr>"])
      show "wg m1 = count_pending (exporters m1)"
        using Cons.prems(4) p by (simp add: ph add_exporter_def count_pending_def)
      show "outputs_inv (tr @ es1) (exporters m1)" by (rule o)
    qed
    moreover have "m' = m2" "es = es1 @ es2" using Cons.prems(1) i None rest by auto
    moreover have "m_config m1 = m_config m" "done_closed m1 = done_closed m" "main m1 = main m"
      by (simp_all add: ph add_exporter_def)
    ultimately show ?thesis by simp
  qed
qed

definition metrics_run_inv :: "metrics_run \<Rightarrow> bool" where
  "metrics_run_inv s \<longleftrightarrow> mt_phase s = Running \<and> metrics_inv (mt_state s)
     \<and> outputs_inv (mt_trace s) (exporters (mt_state s))"

definition keeps :: "metrics_effect list \<Rightarrow> metrics \<Rightarrow> metrics_effect list \<Rightarrow> bool" where
  "keeps tr m es \<longleftrightarrow> metrics_inv m \<and> outputs_inv (tr @ es) (exporters m)"

text \<open>Effects that open and close nothing.\<close>

definition neutral :: "metrics_effect \<Rightarrow> bool" where
  "neutral e = (case e of OpenOutput i \<Rightarrow> False | CloseOutput i \<Rightarrow> False | _ \<Rightarrow> True)"

lemma neutral_count:
  "list_all neutral es \<Longrightarrow> count_list es (OpenOutput i) = 0 \<and> count_list es (CloseOutput i) = 0"
  by (induction es) (auto simp: neutral_def)

lemma outputs_inv_neutral: "list_all neutral es \<Longrightarrow> outputs_inv tr xs \<Longrightarrow> outputs_inv (tr @ es) xs"
  by (simp add: outputs_inv_def neutral_count)

lemma outputs_inv_same:
  assumes "outputs_inv tr xs" and "i < length xs" and "pending e = pending (xs ! i)"
  shows "outputs_inv tr (xs[i := e])"
  using assms by (auto simp: outputs_inv_def nth_list_update)

lemma outputs_inv_close:
  assumes "outputs_inv tr xs" and "i < length xs" and "pending (xs ! i)" and "\<not> pending e"
    and "es = pre @ [CloseOutput i]" and "list_all neutral pre"
  shows "outputs_inv (tr @ es) (xs[i := e])"
  using assms by (auto simp: outputs_inv_def nth_list_update neutral_count)

lemma set_phase_same:
  assumes "metrics_inv m" and "i < length (exporters m)"
    and "pending (exporters m ! i) = pending ((exporters m ! i)\<lparr>ex_phase := ph\<rparr>)" and "ph \<noteq> Spawned"
  shows "metrics_inv (set_phase i ph m)"
  using assms count_pending_same [OF assms(2,3)]
  by (auto simp: metrics_inv_def set_phase_def list_all_length nth_list_update sound_def)

lemma set_phase_done:
  assumes inv: "metrics_inv m" and i: "i < length (exporters m)"
    and p: "pending (exporters m ! i)" and q: "\<not> pending ((exporters m ! i)\<lparr>ex_phase := ph\<rparr>)"
    and ph: "ph \<noteq> Spawned"
  shows "go_ok (wg_done (set_phase i ph m)) (\<lambda>m' es. es = [] \<and> metrics_inv m'
     \<and> exporters m' = (exporters m)[i := (exporters m ! i)\<lparr>ex_phase := ph\<rparr>])"
  using inv count_pending_update [OF i p q] i ph
  by (auto simp: metrics_inv_def set_phase_def wg_done_def list_all_length nth_list_update sound_def)

lemma exporter_step_inv:
  assumes inv: "metrics_inv m" and o: "outputs_inv tr (exporters m)" and i: "i < length (exporters m)"
    and ev: "exp_begin i m = Some r \<or> exp_tick i m = Some r \<or> exp_leave i m = Some r \<or> exp_return i m = Some r"
  shows "go_ok r (keeps tr)"
proof -
  let ?e = "exporters m ! i"
  have pos: "exporter_interval (ex_conf ?e) = Some d \<Longrightarrow> 0 < d" for d
    using inv i by (auto simp: metrics_inv_def list_all_length sound_def positive_interval_def)
  have same: "go_ok (go_emit es (set_phase i ph m)) (keeps tr)"
    if "pending ?e = pending (?e\<lparr>ex_phase := ph\<rparr>)" "list_all neutral es" "ph \<noteq> Spawned" for ph es
    using set_phase_same [OF inv i that(1,3)] outputs_inv_same [OF outputs_inv_neutral [OF that(2) o] i that(1) [symmetric]]
    by (simp add: keeps_def set_phase_def)
  have leave: "go_ok (go_bind (go_emit es ()) (\<lambda>_. wg_done (set_phase i ph m))) (keeps tr)"
    if "pending ?e" "\<not> pending (?e\<lparr>ex_phase := ph\<rparr>)" "es = pre @ [CloseOutput i]" "list_all neutral pre"
      "ph \<noteq> Spawned" for ph es pre
    using outputs_inv_close [OF o i that(1,2,3,4)]
    by (auto simp: keeps_def intro!: go_ok_mono [OF set_phase_done [OF inv i that(1,2,5)]])
  show ?thesis
  proof (cases "ex_conf ?e")
    case (Expvar c)
    then have n: "exporter_interval (ex_conf ?e) = None" by (simp add: exporter_interval_def)
    have "go_ok (go_emit [ServerStop i] (set_phase i Finishing m)) (keeps tr)" if "ex_phase ?e = Looping"
      by (rule same) (simp_all add: pending_def n that neutral_def)
    moreover have "go_ok (go_bind (go_emit [CloseOutput i] ()) (\<lambda>_. wg_done (set_phase i Ended m))) (keeps tr)"
      if "ex_phase ?e = Finishing"
      by (rule leave [where pre = "[]"]) (simp_all add: pending_def n that)
    ultimately show ?thesis using ev n Expvar
      by (auto simp: exp_begin_def exp_tick_def exp_leave_def exp_return_def split: if_splits)
  next
    case (File c)
    then have n: "exporter_interval (ex_conf ?e) = Some (fl_Interval c)" by (simp add: exporter_interval_def)
    have "go_ok (go_emit [TickerNew i d] (set_phase i Looping m)) (keeps tr)" if "ex_phase ?e = Spawned" for d
      by (rule same) (simp_all add: pending_def n that neutral_def)
    moreover have "go_ok (go_emit [WriteMetrics i, SyncOutput i] m) (keeps tr)"
      using inv outputs_inv_neutral [OF _ o, of "[WriteMetrics i, SyncOutput i]"] by (simp add: keeps_def neutral_def)
    moreover have "go_ok (go_bind (go_emit [CloseOutput i] ()) (\<lambda>_. wg_done (set_phase i Finishing m))) (keeps tr)"
      if "ex_phase ?e = Looping"
      by (rule leave [where pre = "[]"]) (simp_all add: pending_def n that)
    moreover have "go_ok (go_emit [TickerEnd i] (set_phase i Ended m)) (keeps tr)" if "ex_phase ?e = Finishing"
      by (rule same) (simp_all add: pending_def n that neutral_def)
    ultimately show ?thesis using ev n File pos
      by (auto simp: exp_begin_def exp_tick_def exp_leave_def exp_return_def split: if_splits)
  next
    case (Collectd c)
    then have n: "exporter_interval (ex_conf ?e) = Some (cd_Interval c)" by (simp add: exporter_interval_def)
    have "go_ok (go_emit [TickerNew i d] (set_phase i Looping m)) (keeps tr)" if "ex_phase ?e = Spawned" for d
      by (rule same) (simp_all add: pending_def n that neutral_def)
    moreover have "go_ok (go_emit [WriteMetrics i] m) (keeps tr)"
      using inv outputs_inv_neutral [OF _ o, of "[WriteMetrics i]"] by (simp add: keeps_def neutral_def)
    moreover have "go_ok (go_bind (go_emit [FlushOutput i, CloseOutput i] ()) (\<lambda>_. wg_done (set_phase i Finishing m)))
        (keeps tr)"
      if "ex_phase ?e = Looping"
      by (rule leave [where pre = "[FlushOutput i]"]) (simp_all add: pending_def n that neutral_def)
    moreover have "go_ok (go_emit [TickerEnd i] (set_phase i Ended m)) (keeps tr)" if "ex_phase ?e = Finishing"
      by (rule same) (simp_all add: pending_def n that neutral_def)
    ultimately show ?thesis using ev n Collectd pos
      by (auto simp: exp_begin_def exp_tick_def exp_leave_def exp_return_def split: if_splits)
  qed
qed

lemma start_inv:
  assumes inv: "metrics_inv m" and o: "outputs_inv tr (exporters m)" and m: "main m = NotStarted"
  shows "go_ok (Metrics_Start B m) (keeps tr)"
proof -
  obtain r m' es where i: "init_exporters B (m_config m) (m\<lparr>runtime_loop := True\<rparr>) = (r, m', es)"
    by (cases "init_exporters B (m_config m) (m\<lparr>runtime_loop := True\<rparr>)") auto
  from init_exporters_inv [OF i, of tr] inv o have "list_all sound (exporters m')"
    "wg m' = count_pending (exporters m')" "outputs_inv (tr @ es) (exporters m')" "m_config m' = m_config m"
    "done_closed m' = done_closed m" "main m' = main m"
    by (simp_all add: metrics_inv_def)
  with inv m show ?thesis
    by (cases r) (simp_all add: Metrics_Start_def i begin_stop_def keeps_def metrics_inv_def)
qed

lemma metrics_next_inv:
  assumes inv: "metrics_inv m" and o: "outputs_inv tr (exporters m)" and d: "disciplined m ev"
    and n: "metrics_next ev m = Some r"
  shows "go_ok r (keeps tr)"
proof (cases ev)
  case (StartMetrics B)
  with n inv o show ?thesis by (auto simp: metrics_next_def split: if_splits intro: start_inv)
next
  case StopMetrics
  with n inv o d show ?thesis
    by (auto simp: metrics_next_def disciplined_def begin_stop_def metrics_inv_def keeps_def
        split: main_phase.splits)
next
  case WaitReturn
  with n inv o show ?thesis
    by (auto simp: metrics_next_def wait_return_def metrics_inv_def keeps_def split: main_phase.splits if_splits)
next
  case RuntimeTick
  with n inv o show ?thesis
    by (auto simp: metrics_next_def runtime_tick_def keeps_def neutral_def outputs_inv_neutral split: if_splits)
next
  case RuntimeDone
  with n inv o show ?thesis
    by (auto simp: metrics_next_def runtime_done_def keeps_def metrics_inv_def split: if_splits)
qed (use n inv o in \<open>auto simp: metrics_next_def on_exporter_def split: if_splits intro: exporter_step_inv\<close>)

lemma disciplined_step_inv:
  assumes "metrics_run_inv s" and "disciplined_step s ev t"
  shows "metrics_run_inv t"
proof -
  from assms(2) have st: "metrics_step s ev t" and d: "disciplined (mt_state s) ev"
    by (simp_all add: disciplined_step_def)
  have inv: "metrics_inv (mt_state s)" "outputs_inv (mt_trace s) (exporters (mt_state s))" "mt_phase s = Running"
    using assms(1) by (simp_all add: metrics_run_inv_def)
  from st show ?thesis
  proof (cases rule: metrics_step.cases)
    case (metrics_ok m es)
    with metrics_next_inv [OF inv(1,2) d] inv(3) show ?thesis by (auto simp: metrics_run_inv_def keeps_def)
  next
    case (metrics_panic p)
    with metrics_next_inv [OF inv(1,2) d] show ?thesis by auto
  qed
qed

definition positive_start :: "exporter_config list \<Rightarrow> metrics_run \<Rightarrow> bool" where
  "positive_start cfg s \<longleftrightarrow> metrics_start cfg s \<and> list_all positive_interval cfg"

interpretation metrics: step_system "positive_start cfg" disciplined_step metrics_run_inv for cfg
proof
  show "metrics_run_inv s" if "positive_start cfg s" for s :: "metrics_run"
    using that by (simp add: positive_start_def metrics_start_def metrics_init_def Metrics_New_def metrics_run_inv_def
        metrics_inv_def outputs_inv_def count_pending_def)
qed (rule disciplined_step_inv)

lemma metrics_reach_inv:
  assumes "metrics_reach cfg s" and "list_all positive_interval cfg"
  shows "metrics_run_inv s"
proof (rule metrics.reach_inv)
  have "positive_start cfg = (metrics_start cfg :: metrics_run \<Rightarrow> bool)"
    using assms(2) by (simp add: positive_start_def fun_eq_iff)
  with assms(1) show "reach (positive_start cfg) disciplined_step s" by (simp add: metrics_reach_def)
qed

text \<open>
  C33. When the intervals are positive and \<^verbatim>\<open>Stop\<close> is called at most once, after a successful \<^verbatim>\<open>Start\<close>,
  no goroutine of the metrics panics; the wait group counts the exporters that still hold their
  output; and when \<^verbatim>\<open>Stop\<close>, or a \<^verbatim>\<open>Start\<close> that failed, has returned, every output that was opened
  was closed exactly once.
\<close>

theorem metrics_outputs_closed:
  assumes "metrics_reach cfg s" and "list_all positive_interval cfg"
  shows "mt_phase s = Running
     \<and> wg (mt_state s) = length (filter pending (exporters (mt_state s)))
     \<and> (\<forall>e. main (mt_state s) = Stopped e \<longrightarrow>
          (\<forall>i. count_list (mt_trace s) (CloseOutput i) = count_list (mt_trace s) (OpenOutput i)))"
proof -
  have inv: "metrics_run_inv s" using metrics_reach_inv [OF assms] .
  have "\<not> pending (exporters (mt_state s) ! i)"
    if "main (mt_state s) = Stopped e" "i < length (exporters (mt_state s))" for e i
    using inv that by (auto simp: metrics_run_inv_def metrics_inv_def count_pending_def filter_empty_conv)
  with inv show ?thesis by (auto simp: metrics_run_inv_def metrics_inv_def count_pending_def outputs_inv_def)
qed

text \<open>Running a list of events.\<close>

definition metrics_do :: "metrics_event \<Rightarrow> metrics_run \<Rightarrow> metrics_run option" where
  "metrics_do ev s =
     (if mt_phase s = Running then
        (case metrics_next ev (mt_state s) of
           None \<Rightarrow> None
         | Some (Inl p) \<Rightarrow> Some (s\<lparr>mt_phase := Panicked p\<rparr>)
         | Some (Inr (m, es)) \<Rightarrow> Some (s\<lparr>mt_state := m, mt_trace := mt_trace s @ es\<rparr>))
      else None)"

lemma metrics_do_step: "metrics_do ev s = Some t \<Longrightarrow> metrics_step s ev t"
  by (auto simp: metrics_do_def intro: metrics_step.intros split: if_splits option.splits sum.splits)

lemma metrics_do_reach:
  assumes "metrics_reach cfg s" and "disciplined (mt_state s) ev" and "metrics_do ev s = Some t"
  shows "metrics_reach cfg t"
  unfolding metrics_reach_def
  by (rule reach_step [OF assms(1) [unfolded metrics_reach_def], where e = ev])
     (simp add: disciplined_step_def assms(2) metrics_do_step [OF assms(3)])

lemma metrics_reach_init: "metrics_reach cfg (metrics_init cfg)"
  unfolding metrics_reach_def by (rule reach_start) (simp add: metrics_start_def)

definition all_well :: "backends" where
  "all_well = \<lparr>open_file = (\<lambda>_. None), dial = (\<lambda>_. None), listen = (\<lambda>_. None)\<rparr>"

definition one_file :: "exporter_config list" where
  "one_file = [File \<lparr>fl_Path = ''/tmp/metrics'', fl_Interval = 10 * second\<rparr>]"

definition stopped_run :: "metrics_run" where
  "stopped_run = \<lparr>mt_phase = Running, mt_state = \<lparr>m_config = one_file, m_prefix = ''lrg'', done_closed = True, wg = 0,
       exporters = [\<lparr>ex_conf = hd one_file, ex_phase = Finishing\<rparr>], runtime_loop = True, main = Stopped None\<rparr>,
     mt_trace = [OpenOutput 0, TickerNew 0 (10 * second), WriteMetrics 0, SyncOutput 0, CloseOutput 0]\<rparr>"

lemmas metrics_eval = metrics_do_def metrics_next_def Metrics_Start_def begin_stop_def wait_return_def
  on_exporter_def exp_begin_def exp_tick_def exp_leave_def exp_return_def set_phase_def wg_done_def
  exporter_interval_def init_defs add_exporter_def Metrics_New_def go_return_def go_emit_def go_bind_def
  metrics_init_def all_well_def one_file_def second_def millisecond_def

lemma stopped_run_reach: "metrics_reach one_file stopped_run"
proof -
  define s1 where "s1 = the (metrics_do (StartMetrics all_well) (metrics_init one_file))"
  define s2 where "s2 = the (metrics_do (ExpBegin 0) s1)"
  define s3 where "s3 = the (metrics_do (ExpTick 0) s2)"
  define s4 where "s4 = the (metrics_do StopMetrics s3)"
  define s5 where "s5 = the (metrics_do (ExpLeave 0) s4)"
  note eval = s1_def s2_def s3_def s4_def s5_def metrics_eval
  have "metrics_reach one_file s1"
    by (rule metrics_do_reach [OF metrics_reach_init, where ev = "StartMetrics all_well"])
       (simp_all add: eval disciplined_def)
  then have "metrics_reach one_file s2"
    by (rule metrics_do_reach [where ev = "ExpBegin 0"]) (simp_all add: eval disciplined_def)
  then have "metrics_reach one_file s3"
    by (rule metrics_do_reach [where ev = "ExpTick 0"]) (simp_all add: eval disciplined_def)
  then have "metrics_reach one_file s4"
    by (rule metrics_do_reach [where ev = StopMetrics]) (simp_all add: eval disciplined_def)
  then have "metrics_reach one_file s5"
    by (rule metrics_do_reach [where ev = "ExpLeave 0"]) (simp_all add: eval disciplined_def)
  then show ?thesis
    by (rule metrics_do_reach [where ev = WaitReturn]) (simp_all add: eval disciplined_def stopped_run_def)
qed

lemma one_file_positive: "list_all positive_interval one_file"
  by (simp add: one_file_def positive_interval_def exporter_interval_def second_def millisecond_def)

theorem metrics_outputs_closed_witness:
  "count_list (mt_trace stopped_run) (CloseOutput 0) = count_list (mt_trace stopped_run) (OpenOutput 0)
   \<and> OpenOutput 0 \<in> set (mt_trace stopped_run)"
  using metrics_outputs_closed [OF stopped_run_reach one_file_positive] by (simp add: stopped_run_def)

section \<open>Stopping terminates\<close>

definition phase_work :: "exporter \<Rightarrow> nat" where
  "phase_work e = (case ex_phase e of Spawned \<Rightarrow> 3 | Looping \<Rightarrow> 2 | Finishing \<Rightarrow> 1 | Ended \<Rightarrow> 0)"

definition work :: "metrics \<Rightarrow> nat" where
  "work m = sum_list (map phase_work (exporters m))"

lemma work_bound: "work m \<le> 3 * length (exporters m)"
proof -
  have "sum_list (map phase_work xs) \<le> 3 * length xs" for xs
    by (induction xs) (auto simp: phase_work_def split: exp_phase.splits)
  then show ?thesis by (simp add: work_def)
qed

lemma work_update:
  assumes "i < length (exporters m)" and "phase_work e < phase_work (exporters m ! i)"
    and "exporters m' = (exporters m)[i := e]"
  shows "work m' < work m"
proof -
  let ?xs = "exporters m"
  have xs: "?xs = take i ?xs @ ?xs ! i # drop (Suc i) ?xs" using assms(1) by (rule id_take_nth_drop)
  have "work m = sum_list (map phase_work (take i ?xs)) + phase_work (?xs ! i) + sum_list (map phase_work (drop (Suc i) ?xs))"
    unfolding work_def by (subst xs) simp
  moreover have "work m' = sum_list (map phase_work (take i ?xs)) + phase_work e + sum_list (map phase_work (drop (Suc i) ?xs))"
    using assms(1,3) by (simp add: work_def upd_conv_take_nth_drop)
  ultimately show ?thesis using assms(2) by simp
qed

text \<open>While \<^verbatim>\<open>Stop\<close> waits, some exporter can take a step towards its end, or the wait is over.\<close>

lemma waiting_progress:
  assumes inv: "metrics_run_inv s" and w: "main (mt_state s) = WaitingGroup e" and n: "wg (mt_state s) \<noteq> 0"
  shows "\<exists>ev t. disciplined_step s ev t \<and> main (mt_state t) = WaitingGroup e \<and> work (mt_state t) < work (mt_state s)
     \<and> length (exporters (mt_state t)) = length (exporters (mt_state s))"
proof -
  let ?m = "mt_state s"
  have m: "metrics_inv ?m" and run: "mt_phase s = Running" using inv by (simp_all add: metrics_run_inv_def)
  have closed: "done_closed ?m" using m w by (simp add: metrics_inv_def)
  from n m have "filter pending (exporters ?m) \<noteq> []" by (simp add: metrics_inv_def count_pending_def)
  then obtain x where "x \<in> set (exporters ?m)" "pending x" by (auto simp: filter_empty_conv)
  then obtain i where i: "i < length (exporters ?m)" "pending (exporters ?m ! i)" by (metis in_set_conv_nth)
  let ?e = "exporters ?m ! i"
  have pos: "exporter_interval (ex_conf ?e) = Some d \<Longrightarrow> 0 < d" for d
    using m i(1) by (auto simp: metrics_inv_def list_all_length sound_def positive_interval_def)
  have step: ?thesis
    if "metrics_next ev ?m = Some (Inr (m', es))" "ev \<noteq> StopMetrics" "main m' = main ?m"
      "exporters m' = (exporters ?m)[i := ?e\<lparr>ex_phase := ph\<rparr>]"
      "phase_work (?e\<lparr>ex_phase := ph\<rparr>) < phase_work ?e" for ev m' es ph
  proof (intro exI conjI)
    show "disciplined_step s ev (s\<lparr>mt_state := m', mt_trace := mt_trace s @ es\<rparr>)"
      using that(1,2) by (auto simp: disciplined_step_def disciplined_def intro: metrics_ok [OF run])
  qed (use that w i(1) in \<open>auto intro: work_update\<close>)
  have wg: "wg ?m \<noteq> 0" by (rule n)
  show ?thesis
  proof (cases "exporter_interval (ex_conf ?e)")
    case None
    then obtain c where c: "ex_conf ?e = Expvar c" by (auto simp: exporter_interval_def split: exporter_config.splits)
    show ?thesis
    proof (cases "ex_phase ?e")
      case Spawned
      with m i(1) None show ?thesis by (auto simp: metrics_inv_def list_all_length sound_def)
    next
      case Looping
      show ?thesis
        by (rule step [where ph = Finishing and ev = "ExpLeave i" and m' = "set_phase i Finishing ?m"])
           (use i(1) closed c Looping in \<open>simp_all add: metrics_next_def on_exporter_def exp_leave_def set_phase_def
             phase_work_def go_emit_def\<close>)
    next
      case Finishing
      show ?thesis
        by (rule step [where ph = Ended and ev = "ExpReturn i" and m' = "(set_phase i Ended ?m)\<lparr>wg := wg ?m - 1\<rparr>"])
           (use i(1) None wg Finishing in \<open>simp_all add: metrics_next_def on_exporter_def exp_return_def set_phase_def
             phase_work_def go_emit_def go_bind_def wg_done_def go_return_def\<close>)
    next
      case Ended
      with i(2) None show ?thesis by (simp add: pending_def)
    qed
  next
    case (Some d)
    show ?thesis
    proof (cases "ex_phase ?e")
      case Spawned
      show ?thesis
        by (rule step [where ph = Looping and ev = "ExpBegin i" and m' = "set_phase i Looping ?m"])
           (use i(1) Some pos [OF Some] Spawned in \<open>simp_all add: metrics_next_def on_exporter_def exp_begin_def
             set_phase_def phase_work_def go_emit_def\<close>)
    next
      case Looping
      have "\<exists>es. exp_leave i ?m = Some (Inr ((set_phase i Finishing ?m)\<lparr>wg := wg ?m - 1\<rparr>, es))"
        using Some closed wg Looping
        by (auto simp: exp_leave_def exporter_interval_def go_bind_def go_emit_def wg_done_def set_phase_def go_return_def
            split: exporter_config.splits)
      then obtain es where "metrics_next (ExpLeave i) ?m = Some (Inr ((set_phase i Finishing ?m)\<lparr>wg := wg ?m - 1\<rparr>, es))"
        using i(1) by (auto simp: metrics_next_def on_exporter_def)
      then show ?thesis
        by (rule step [where ph = Finishing]) (use Looping in \<open>simp_all add: set_phase_def phase_work_def\<close>)
    next
      case Finishing
      with i(2) Some show ?thesis by (simp add: pending_def)
    next
      case Ended
      with i(2) Some show ?thesis by (simp add: pending_def)
    qed
  qed
qed

lemma waiting_over:
  assumes "metrics_run_inv s" and "main (mt_state s) = WaitingGroup e" and "wg (mt_state s) = 0"
  shows "\<exists>t. disciplined_step s WaitReturn t \<and> main (mt_state t) = Stopped e"
proof (intro exI conjI)
  show "disciplined_step s WaitReturn (s\<lparr>mt_state := (mt_state s)\<lparr>main := Stopped e\<rparr>, mt_trace := mt_trace s @ []\<rparr>)"
    unfolding disciplined_step_def
    by (intro conjI metrics_ok)
       (use assms in \<open>simp_all add: metrics_run_inv_def metrics_next_def wait_return_def go_return_def disciplined_def\<close>)
qed simp

lemma waiting_run:
  assumes "metrics_run_inv s" and "main (mt_state s) = WaitingGroup e"
  shows "\<exists>evs t. execution disciplined_step s evs t \<and> main (mt_state t) = Stopped e
     \<and> length evs \<le> work (mt_state s) + 1"
  using assms
proof (induction "work (mt_state s)" arbitrary: s rule: less_induct)
  case less
  show ?case
  proof (cases "wg (mt_state s) = 0")
    case True
    from waiting_over [OF less.prems True] obtain t where t: "disciplined_step s WaitReturn t" "main (mt_state t) = Stopped e"
      by blast
    have "execution disciplined_step s [WaitReturn] t" by (rule execution_cons, rule t(1), rule execution_nil)
    with t(2) show ?thesis by (intro exI [of _ "[WaitReturn]"] exI [of _ t]) simp
  next
    case False
    from waiting_progress [OF less.prems False] obtain ev t where t: "disciplined_step s ev t"
        "main (mt_state t) = WaitingGroup e" "work (mt_state t) < work (mt_state s)" by blast
    from less.hyps [OF t(3) disciplined_step_inv [OF less.prems(1) t(1)] t(2)] obtain evs u where
      u: "execution disciplined_step t evs u" "main (mt_state u) = Stopped e" "length evs \<le> work (mt_state t) + 1" by blast
    with execution_cons [OF t(1) u(1)] t(3) show ?thesis
      by (intro exI [of _ "ev # evs"] exI [of _ u]) simp
  qed
qed

text \<open>
  C34. \<^verbatim>\<open>Stop\<close> can always finish: from every state in which it waits there is a run of at most three
  steps per exporter and one more after which it has returned, with the error it was called with;
  as long as the wait group counts an exporter, some goroutine can take a step that brings its
  end closer, and when it counts none, \<^verbatim>\<open>Stop\<close> can return.
\<close>

theorem metrics_stop_returns:
  assumes "metrics_reach cfg s" and "list_all positive_interval cfg" and "main (mt_state s) = WaitingGroup e"
  shows "(\<exists>evs t. execution disciplined_step s evs t \<and> main (mt_state t) = Stopped e
       \<and> length evs \<le> 3 * length (exporters (mt_state s)) + 1)
     \<and> (if wg (mt_state s) = 0 then \<exists>t. disciplined_step s WaitReturn t
        else \<exists>ev t. disciplined_step s ev t \<and> work (mt_state t) < work (mt_state s))"
proof -
  note inv = metrics_reach_inv [OF assms(1,2)]
  obtain evs t where "execution disciplined_step s evs t" "main (mt_state t) = Stopped e"
      "length evs \<le> work (mt_state s) + 1"
    using waiting_run [OF inv assms(3)] by blast
  moreover from this(3) have "length evs \<le> 3 * length (exporters (mt_state s)) + 1"
    using work_bound [of "mt_state s"] by linarith
  ultimately show ?thesis
    using waiting_over [OF inv assms(3)] waiting_progress [OF inv assms(3)] by auto
qed

definition waiting_state :: "metrics_run" where
  "waiting_state = the (metrics_do StopMetrics (the (metrics_do (StartMetrics all_well) (metrics_init one_file))))"

lemma waiting_state_reach: "metrics_reach one_file waiting_state"
proof -
  have "metrics_reach one_file (the (metrics_do (StartMetrics all_well) (metrics_init one_file)))"
    by (rule metrics_do_reach [OF metrics_reach_init, where ev = "StartMetrics all_well"])
       (simp_all add: metrics_eval disciplined_def)
  then show ?thesis
    by (rule metrics_do_reach [where ev = StopMetrics]) (simp_all add: waiting_state_def metrics_eval disciplined_def)
qed

lemma waiting_state_main: "main (mt_state waiting_state) = WaitingGroup None"
  by (simp add: waiting_state_def metrics_eval)

theorem metrics_stop_returns_witness:
  "\<exists>evs t. execution disciplined_step waiting_state evs t \<and> main (mt_state t) = Stopped None"
  using metrics_stop_returns [OF waiting_state_reach one_file_positive waiting_state_main] by blast

section \<open>What the checks leave open\<close>

text \<open>
  An exporter that the configuration accepts has a place to write to and an interval that is
  not zero; but a negative interval passes the check, and then the first step of the goroutine of
  the exporter panics, which ends the program.
\<close>

theorem negative_interval_panics:
  assumes "unmarshal_metrics Y raw_config = Inr cfg"
  shows "list_all exporter_checked cfg
     \<and> (\<forall>s i d. metrics_reach cfg s \<and> mt_phase s = Running \<and> i < length (exporters (mt_state s))
          \<and> ex_phase (exporters (mt_state s) ! i) = Spawned
          \<and> exporter_interval (ex_conf (exporters (mt_state s) ! i)) = Some d \<and> d < 0
          \<longrightarrow> metrics_step s (ExpBegin i) (s\<lparr>mt_phase := Panicked NonPositiveInterval\<rparr>))"
proof (intro conjI allI impI)
  show "list_all exporter_checked cfg"
    using assms by (auto simp: unmarshal_metrics_def split: sum.splits dest: unmarshal_items_checked)
qed (auto intro!: metrics_panic simp: metrics_next_def on_exporter_def exp_begin_def go_panic_def)

definition example_yaml :: "(int, int, string) metrics_yaml" where
  "example_yaml = \<lparr>marshal = Inr, decode_expvar = (\<lambda>d. Inr),
     decode_file = (\<lambda>d c. Inr (c\<lparr>fl_Path := ''/tmp/metrics'', fl_Interval := d\<rparr>)),
     decode_collectd = (\<lambda>d. Inr)\<rparr>"

definition negative_file :: exporter_config where
  "negative_file = File \<lparr>fl_Path = ''/tmp/metrics'', fl_Interval = - second\<rparr>"

lemma negative_file_accepted:
  "unmarshal_metrics example_yaml (Inr [[(StringKey ''file'', - second)]]) = Inr [negative_file]"
  by (simp add: unmarshal_metrics_def unmarshal_item_def for_item_def unmarshal_file_def example_yaml_def
      negative_file_def second_def millisecond_def)

theorem negative_interval_panics_witness:
  "\<exists>s t. metrics_reach [negative_file] s \<and> metrics_step s (ExpBegin 0) t
     \<and> mt_phase (t :: metrics_run) = Panicked NonPositiveInterval"
proof -
  obtain s where s: "metrics_do (StartMetrics all_well) (metrics_init [negative_file]) = Some s" "mt_phase s = Running"
      "exporters (mt_state s) = [\<lparr>ex_conf = negative_file, ex_phase = Spawned\<rparr>]"
    by (simp add: metrics_eval negative_file_def)
  then have r: "metrics_reach [negative_file] s"
    by (intro metrics_do_reach [OF metrics_reach_init, where ev = "StartMetrics all_well"])
       (simp_all add: disciplined_def)
  have d: "exporter_interval negative_file = Some (- second)" "- second < 0"
    by (simp_all add: negative_file_def exporter_interval_def second_def millisecond_def)
  have "metrics_step s (ExpBegin 0) (s\<lparr>mt_phase := Panicked NonPositiveInterval\<rparr>)"
    by (rule negative_interval_panics [OF negative_file_accepted, THEN conjunct2, rule_format, where d = "- second"])
       (use r s(2,3) d in simp)
  with r show ?thesis by force
qed

text \<open>After a \<^verbatim>\<open>Start\<close> that failed, the channel is closed already: a further \<^verbatim>\<open>Stop\<close> panics.\<close>

lemma stop_after_failed_start:
  assumes "metrics_reach cfg s" and "list_all positive_interval cfg" and "main (mt_state s) = Stopped e"
  shows "metrics_next StopMetrics (mt_state s) = Some (Inl CloseOfClosedChannel)"
  using metrics_reach_inv [OF assms(1,2)] assms(3)
  by (simp add: metrics_run_inv_def metrics_inv_def metrics_next_def begin_stop_def go_panic_def)

end
