(* ===== verification/Whole_Daemon.thy ===== *)
theory Whole_Daemon
  imports Program_Shutdown Daemon_Lifecycle Metrics_Exporters
begin

text \<open>
  The \<^verbatim>\<open>daemon\<close> command at work (\<^verbatim>\<open>src/cmd/daemon.go\<close>, from the start of the components to the end of the
  deferred function): the goroutine of the command, the netlink component with the gateways, the
  daemon component with the signals, and the exporters of the metrics, in one step relation. The
  command waits for the termination, then stops the components one after the other, in the reverse order of
  their start; a \<^verbatim>\<open>Stop\<close> returns when the goroutines of its component have. That of the reporter is
  the \<^verbatim>\<open>Stop\<close> of the metrics here; what it does for Sentry before is in \<open>Reporter_Log\<close>.
\<close>

section \<open>The state\<close>

text \<open>
  Where the goroutine of the command is: at its \<^verbatim>\<open>select\<close>, inside the \<^verbatim>\<open>Stop\<close> of the gateways, of
  the netlink component, before and inside the \<^verbatim>\<open>Stop\<close> of the reporter, or at its end. The \<^verbatim>\<open>Stop\<close> of the daemon component waits
  for nobody.
\<close>

datatype main_goroutine =
    AwaitingTermination | StoppingGateways | StoppingNetlink | StoppingReporter | WaitingMetrics | Exited

record 'x whole =
  w_main :: main_goroutine
  w_program :: "'x program"
  w_daemon :: daemon_run
  w_metrics :: metrics_run

datatype 'x whole_event =
    MainGoroutine
  | ProgramEvent "'x program_event"
  | DaemonEvent daemon_event
  | MetricsEvent metrics_event

text \<open>The process runs: the command has not returned, nothing panicked, and no signal took its default action.\<close>

definition process_runs :: "'x whole \<Rightarrow> bool" where
  "process_runs w \<longleftrightarrow> w_main w \<noteq> Exited \<and> no_panic (pg_gateways (w_program w))
     \<and> (nl_phase (pg_netlink (w_program w)) = Running \<or> nl_phase (pg_netlink (w_program w)) = Returned)
     \<and> d_phase (w_daemon w) = Running \<and> \<not> killed (d_state (w_daemon w))
     \<and> mt_phase (w_metrics w) = Running"

text \<open>What only the goroutine of the command does: the calls of the \<^verbatim>\<open>Stop\<close> methods and their return.\<close>

definition by_command :: "'x program_event \<Rightarrow> bool" where
  "by_command e \<longleftrightarrow> (case e of NetlinkStep ev \<Rightarrow> (case ev of Kill \<Rightarrow> True | _ \<Rightarrow> False)
     | Call n \<Rightarrow> False | GatewaysStep g \<Rightarrow> (case g of StopAll \<Rightarrow> True | _ \<Rightarrow> False))"

definition of_exporters :: "metrics_event \<Rightarrow> bool" where
  "of_exporters e \<longleftrightarrow> (case e of StartMetrics B \<Rightarrow> False | StopMetrics \<Rightarrow> False | WaitReturn \<Rightarrow> False | _ \<Rightarrow> True)"

text \<open>The tomb of the netlink component is dead: all its goroutines have returned.\<close>

definition netlink_ended :: "'x netlink_run \<Rightarrow> bool" where
  "netlink_ended n \<longleftrightarrow> nl_phase n = Returned \<and> injectors (nl_comp n) = []"

section \<open>The steps\<close>

inductive main_step ::
    "'x netlink_lib \<Rightarrow> callback_name \<Rightarrow> 'x whole \<Rightarrow> 'x whole \<Rightarrow> bool" for L cb where
  stop_gateways: "w_main w = AwaitingTermination \<Longrightarrow> Terminated (d_state (w_daemon w)) \<Longrightarrow>
     program_step L cb (w_program w) (GatewaysStep StopAll) p \<Longrightarrow>
     main_step L cb w (w\<lparr>w_main := StoppingGateways, w_program := p\<rparr>)"
| stop_netlink: "w_main w = StoppingGateways \<Longrightarrow> stopped_all (pg_gateways (w_program w)) \<Longrightarrow>
     program_step L cb (w_program w) (NetlinkStep Kill) p \<Longrightarrow>
     main_step L cb w (w\<lparr>w_main := StoppingNetlink, w_program := p\<rparr>)"
| stop_daemon: "w_main w = StoppingNetlink \<Longrightarrow> netlink_ended (pg_netlink (w_program w)) \<Longrightarrow>
     plausible_step (w_daemon w) StopDaemon d \<Longrightarrow>
     main_step L cb w (w\<lparr>w_main := StoppingReporter, w_daemon := d\<rparr>)"
| stop_metrics: "w_main w = StoppingReporter \<Longrightarrow> disciplined_step (w_metrics w) StopMetrics m \<Longrightarrow>
     main_step L cb w (w\<lparr>w_main := WaitingMetrics, w_metrics := m\<rparr>)"
| return: "w_main w = WaitingMetrics \<Longrightarrow> disciplined_step (w_metrics w) WaitReturn m \<Longrightarrow>
     main_step L cb w (w\<lparr>w_main := Exited, w_metrics := m\<rparr>)"

inductive_cases main_stepE: "main_step L cb w w'"

inductive whole_step ::
    "'x netlink_lib \<Rightarrow> callback_name \<Rightarrow> 'x whole \<Rightarrow> 'x whole_event \<Rightarrow> 'x whole \<Rightarrow> bool" for L cb where
  command: "process_runs w \<Longrightarrow> main_step L cb w w' \<Longrightarrow> whole_step L cb w MainGoroutine w'"
| components: "process_runs w \<Longrightarrow> \<not> by_command e \<Longrightarrow> program_step L cb (w_program w) e p \<Longrightarrow>
     whole_step L cb w (ProgramEvent e) (w\<lparr>w_program := p\<rparr>)"
| signals: "process_runs w \<Longrightarrow> signal_event e \<Longrightarrow> plausible_step (w_daemon w) e d \<Longrightarrow>
     whole_step L cb w (DaemonEvent e) (w\<lparr>w_daemon := d\<rparr>)"
| exporters: "process_runs w \<Longrightarrow> of_exporters e \<Longrightarrow> disciplined_step (w_metrics w) e m \<Longrightarrow>
     whole_step L cb w (MetricsEvent e) (w\<lparr>w_metrics := m\<rparr>)"

inductive_cases whole_stepE: "whole_step L cb w e w'"

text \<open>
  All components have started; those that were started first may have run since. The configuration
  has a gateway, as its decoder checks.
\<close>

definition whole_start ::
    "'x netlink_lib \<Rightarrow> netlink_config \<Rightarrow> callback_name \<Rightarrow> lrg_config list \<Rightarrow> exporter_config list \<Rightarrow> 'x whole \<Rightarrow> bool" where
  "whole_start L ncfg cb cfgs mcfg w \<longleftrightarrow> w_main w = AwaitingTermination \<and> cfgs \<noteq> []
     \<and> program_start L ncfg cb cfgs (w_program w)
     \<and> daemon_reach (w_daemon w) \<and> waiter (d_state (w_daemon w)) \<noteq> waiter.NotStarted
     \<and> metrics_reach mcfg (w_metrics w) \<and> main (mt_state (w_metrics w)) = Started"

section \<open>A stopped gateways component has nothing pending\<close>

text \<open>A pending installation belongs to a goroutine that has not returned.\<close>

definition installations_attended :: "'x gateways_run \<Rightarrow> bool" where
  "installations_attended s \<longleftrightarrow> list_all (\<lambda>gw. installationTick (cell (gr_comp s) gw) = None
     \<or> (\<exists>ph. (gw, ph) \<in> set (gr_workers s) \<and> ph \<noteq> Returned)) (gateways (gr_comp s))"

lemma work_attends:
  assumes "gateway_ok cfg (gstate v)" and "gateway_step L i cfg v (Select ev) v'"
  shows "phase v = Running \<and> (phase v' = Returned \<longrightarrow> installationTick (gstate v') = None)"
proof -
  from step_outcome [OF assms] have "outcome_of L i cfg v (outcome v ev) v'" and run: "phase v = Running" by simp_all
  then show ?thesis by cases simp_all
qed

lemma same_cell: "gw_state g = gw_state h \<Longrightarrow> cell c g = cell c h"
  by (simp add: cell_def)

lemma attended_step:
  assumes att: "installations_attended s" and inv: "system_inv cfgs s" and step: "gateways_step L s ev t"
  shows "installations_attended t"
  using step
proof cases
  case (push_one n gw gws c)
  then have "gw \<in> set (gateways (gr_comp s))" using inv by (auto simp: system_inv_def)
  note room = system_inv_cell(1) [OF inv this]
  have "installationTick (cell c g) = installationTick (cell (gr_comp s) g)" for g
    using push_one(5) same_cell [of g gw "gr_comp s"] by (cases "gw_state g = gw_state gw")
      (auto simp: pushNotification_store cell_store [OF room] split: if_splits)
  moreover have "gateways c = gateways (gr_comp s)" using push_one(5) by (auto simp: pushNotification_store split: if_splits)
  ultimately show ?thesis using att push_one(2) by (simp add: installations_attended_def)
next
  case (work k gw ph ev cfg v)
  have gw: "gw \<in> set (gateways (gr_comp s))"
    using work(4,5) inv by (force simp: system_inv_def dest: nth_mem)
  note c = system_inv_cell [OF inv gw]
  have "cfg = last cfgs" using work(7) c(4) by simp
  with work_attends [OF _ work(8)] c(2)
  have v: "ph = Running" "phase v = Returned \<longrightarrow> installationTick (gstate v) = None"
    by (simp_all add: view_of_def)
  have ok: "component_ok (gr_comp s)" using inv by (simp add: system_inv_def)
  have "installationTick (cell (gr_comp t) g) = None \<or> (\<exists>ph. (g, ph) \<in> set (gr_workers t) \<and> ph \<noteq> Returned)"
    if g: "g \<in> set (gateways (gr_comp s))" for g
  proof (cases "g = gw")
    case True
    have "(gw, phase v) \<in> set (gr_workers t)" using work(2,4) by (simp add: set_update_memI)
    with v(2) True work(2) show ?thesis by (auto simp: cell_store [OF c(1)])
  next
    case False
    with att g component_ok_eq [OF ok g gw] work(2)
    consider "installationTick (cell (gr_comp t) g) = None"
      | ph' where "(g, ph') \<in> set (gr_workers s)" "ph' \<noteq> Returned"
      by (auto simp: installations_attended_def list_all_iff cell_store [OF c(1)])
    then show ?thesis
    proof cases
      case 2
      then obtain j where j: "j < length (gr_workers s)" "gr_workers s ! j = (g, ph')" by (auto simp: in_set_conv_nth)
      have "k \<noteq> j" using False work(5) j(2) by auto
      with work(2) j have "gr_workers t ! j = (g, ph')" "j < length (gr_workers t)" by simp_all
      then show ?thesis using 2 nth_mem by metis
    qed simp
  qed
  with work(2) show ?thesis by (simp add: installations_attended_def list_all_iff)
qed (use att in \<open>auto simp: installations_attended_def list_all_iff cell_def\<close>)

lemma attended_start: "gateways_start cfgs s \<Longrightarrow> installations_attended s"
proof -
  assume s: "gateways_start cfgs s"
  then have c: "gr_comp s = Start_gateways (New cfgs)" by (simp add: gateways_start_def)
  have "cell (gr_comp s) gw = new_gateway_state" if "gw \<in> set (gateways (gr_comp s))" for gw
    using that start_props(4) [OF c] gateways_start_inv [OF s]
    by (auto simp: cell_def system_inv_def component_ok_def list_all_iff)
  then show ?thesis by (simp add: installations_attended_def list_all_iff new_gateway_state_def)
qed

lemma stopped_idle:
  assumes "installations_attended s" and "stopped_all s"
  shows "list_all (\<lambda>gw. installationTick (cell (gr_comp s) gw) = None) (gateways (gr_comp s))"
  using assms by (force simp: installations_attended_def stopped_all_def list_all_iff)

section \<open>What the steps leave alone\<close>

lemma gateways_step_alive:
  "gateways_step L s e t \<Longrightarrow> alive (gr_comp t) \<longleftrightarrow> alive (gr_comp s) \<and> e \<noteq> StopAll"
  by (erule gateways_stepE) (auto simp: pushNotification_store split: if_splits)

lemma gateways_step_stopped:
  assumes "gateways_step L s e t" and "stopped_all s"
  shows "stopped_all t"
  using assms(1)
proof cases
  case (work k gw ph ev cfg v)
  then have "ph = Returned" using assms(2) nth_mem [OF work(4)] by (simp add: stopped_all_def list_all_iff) force
  with work(8) show ?thesis by (auto elim!: gateway_step_SelectE simp: view_of_def)
qed (use assms(2) in \<open>auto simp: stopped_all_def pushNotification_store split: if_splits\<close>)

lemma no_injector:
  assumes "nl_next L ev c = Some (Inr (r, es))" and "\<not> of_run ev" and "injectors c = []"
  shows "injectors (result_comp r) = []"
proof (cases ev)
  case (AddSubscriber d)
  with assms show ?thesis by (auto simp: nl_next_def go_return_def go_panic_def split: sum.splits)
next
  case (LibUpdate a u)
  with assms show ?thesis
    by (auto simp: nl_next_def go_return_def go_panic_def chan_put_def split: if_splits sum.splits)
qed (use assms in \<open>auto simp: nl_next_def go_return_def of_run_def lib_report_def lib_close_def split: if_splits\<close>)

lemma nl_step_ended:
  assumes step: "documented_step L s ev t" and "netlink_ended s" and reach: "nl_reach L ncfg s"
  shows "netlink_ended t"
proof -
  have "nl_reach L ncfg t" using reach step unfolding nl_reach_def by (blast intro: reach_step)
  then have np: "nl_phase t \<noteq> Panicked x" for x using nl_reachE by metis
  have "nl_step L s ev t" using step by (simp add: documented_step_def)
  then show ?thesis
  proof cases
    case (nl_step_next c es)
    with assms(2) no_injector [OF nl_step_next(3)] show ?thesis by (auto simp: netlink_ended_def nl_may_def)
  next
    case (nl_step_exit c es)
    with assms(2) no_injector [OF nl_step_exit(3)] show ?thesis by (auto simp: netlink_ended_def nl_may_def)
  next
    case (nl_step_panic x)
    with np show ?thesis by auto
  qed
qed

lemma program_step_frame:
  assumes step: "program_step L cb p e q" and inv: "program_inv L ncfg cb cfgs gws evs p"
  shows program_step_alive: "alive (gr_comp (pg_gateways q)) \<longleftrightarrow> alive (gr_comp (pg_gateways p)) \<and> e \<noteq> GatewaysStep StopAll"
    and program_step_dying: "dying (nl_comp (pg_netlink q)) \<longleftrightarrow> dying (nl_comp (pg_netlink p)) \<or> e = NetlinkStep Kill"
    and program_step_stopped: "stopped_all (pg_gateways p) \<Longrightarrow> stopped_all (pg_gateways q)"
    and program_step_ended: "netlink_ended (pg_netlink p) \<Longrightarrow> netlink_ended (pg_netlink q)"
    and program_step_attended: "installations_attended (pg_gateways p) \<Longrightarrow> installations_attended (pg_gateways q)"
proof -
  have sub: "subscribed_to cb (nl_comp (pg_netlink p))" and reach: "nl_reach L ncfg (pg_netlink p)"
    and sys: "system_inv cfgs (pg_gateways p)"
    using inv history_invD(1) by (auto simp: program_inv_def)
  have "(alive (gr_comp (pg_gateways q)) \<longleftrightarrow> alive (gr_comp (pg_gateways p)) \<and> e \<noteq> GatewaysStep StopAll)
    \<and> (dying (nl_comp (pg_netlink q)) \<longleftrightarrow> dying (nl_comp (pg_netlink p)) \<or> e = NetlinkStep Kill)
    \<and> (stopped_all (pg_gateways p) \<longrightarrow> stopped_all (pg_gateways q))
    \<and> (netlink_ended (pg_netlink p) \<longrightarrow> netlink_ended (pg_netlink q))
    \<and> (installations_attended (pg_gateways p) \<longrightarrow> installations_attended (pg_gateways q))"
    using step
  proof cases
    case (netlink ev n es)
    have "ev \<noteq> AddSubscriber d" for d using netlink(3) by (auto simp: netlink_may_def)
    with netlink(4) nl_step_dying [OF _ sub] have "dying (nl_comp n) \<longleftrightarrow> dying (nl_comp (pg_netlink p)) \<or> ev = Kill"
      by (auto simp: documented_step_def)
    with netlink nl_step_ended [OF netlink(4) _ reach] show ?thesis by simp
  next
    case (call n ns g)
    with gateways_step_alive [OF call(4)] gateways_step_stopped [OF call(4)] attended_step [OF _ sys call(4)]
    show ?thesis by simp
  next
    case (gateways e' g)
    with gateways_step_alive [OF gateways(4)] gateways_step_stopped [OF gateways(4)] attended_step [OF _ sys gateways(4)]
    show ?thesis by simp
  qed
  then show "alive (gr_comp (pg_gateways q)) \<longleftrightarrow> alive (gr_comp (pg_gateways p)) \<and> e \<noteq> GatewaysStep StopAll"
    "dying (nl_comp (pg_netlink q)) \<longleftrightarrow> dying (nl_comp (pg_netlink p)) \<or> e = NetlinkStep Kill"
    "stopped_all (pg_gateways p) \<Longrightarrow> stopped_all (pg_gateways q)"
    "netlink_ended (pg_netlink p) \<Longrightarrow> netlink_ended (pg_netlink q)"
    "installations_attended (pg_gateways p) \<Longrightarrow> installations_attended (pg_gateways q)" by simp_all
qed

lemma signal_step_frame:
  assumes "daemon_step s e t" and "signal_event e"
  shows "watchdogTicker (d_state t) = watchdogTicker (d_state s)"
    and "terminated (d_state s) \<Longrightarrow> terminated (d_state t)"
    and "waiter (d_state s) \<noteq> waiter.NotStarted \<Longrightarrow> waiter (d_state t) \<noteq> waiter.NotStarted"
  using assms
  by (auto elim!: daemon_stepE simp: signal_event_def daemon_next_def deliver_def on_spawned_def on_signal_def
      on_terminated_def Terminate_def Let_def go_bind_def go_emit_def go_return_def go_panic_def
      split: daemon_event.splits if_splits waiter.splits list.splits)

lemma exporter_step_frame:
  assumes "disciplined_step s e t" and "of_exporters e"
  shows "main (mt_state t) = main (mt_state s)" "done_closed (mt_state t) = done_closed (mt_state s)"
proof -
  have "main m = main (mt_state s) \<and> done_closed m = done_closed (mt_state s)"
    if "metrics_next e (mt_state s) = Some (Inr (m, es))" for m es
    using that assms(2)
    by (cases e) (auto simp: metrics_next_def of_exporters_def on_exporter_def runtime_tick_def runtime_done_def
        exp_begin_def exp_tick_def exp_leave_def exp_return_def set_phase_def wg_done_def go_bind_def go_emit_def
        go_return_def go_panic_def split: if_splits option.splits exporter_config.splits)
  with assms(1) show "main (mt_state t) = main (mt_state s)" "done_closed (mt_state t) = done_closed (mt_state s)"
    by (auto simp: disciplined_step_def elim!: metrics_step.cases)
qed

section \<open>The invariant\<close>

text \<open>How far the shutdown is.\<close>

fun stage :: "main_goroutine \<Rightarrow> nat" where
  "stage AwaitingTermination = 0"
| "stage StoppingGateways = 1"
| "stage StoppingNetlink = 2"
| "stage StoppingReporter = 3"
| "stage WaitingMetrics = 4"
| "stage Exited = 5"

definition reporter_at :: "nat \<Rightarrow> main_phase" where
  "reporter_at n = (if n < 4 then Started else if n = 4 then WaitingGroup None else Stopped None)"

definition in_position :: "'x whole \<Rightarrow> bool" where
  "in_position w \<longleftrightarrow> (let n = stage (w_main w); p = w_program w; d = d_state (w_daemon w) in
     (alive (gr_comp (pg_gateways p)) \<longleftrightarrow> n = 0) \<and> (1 \<le> n \<longrightarrow> terminated d)
     \<and> (dying (nl_comp (pg_netlink p)) \<longleftrightarrow> 2 \<le> n) \<and> (2 \<le> n \<longrightarrow> stopped_all (pg_gateways p))
     \<and> (3 \<le> n \<longrightarrow> netlink_ended (pg_netlink p) \<and> watchdogTicker d = None)
     \<and> main (mt_state (w_metrics w)) = reporter_at n)"

definition program_ok ::
    "'x netlink_lib \<Rightarrow> netlink_config \<Rightarrow> callback_name \<Rightarrow> lrg_config list \<Rightarrow> 'x program \<Rightarrow> bool" where
  "program_ok L ncfg cb cfgs p \<longleftrightarrow> (\<exists>gws evs. program_inv L ncfg cb cfgs gws evs p)
     \<and> installations_attended (pg_gateways p)"

definition whole_inv ::
    "'x netlink_lib \<Rightarrow> netlink_config \<Rightarrow> callback_name \<Rightarrow> lrg_config list \<Rightarrow> exporter_config list \<Rightarrow> 'x whole \<Rightarrow> bool" where
  "whole_inv L ncfg cb cfgs mcfg w \<longleftrightarrow> program_ok L ncfg cb cfgs (w_program w)
     \<and> daemon_reach (w_daemon w) \<and> waiter (d_state (w_daemon w)) \<noteq> waiter.NotStarted
     \<and> metrics_reach mcfg (w_metrics w) \<and> in_position w"

lemma program_ok_step:
  assumes "program_ok L ncfg cb cfgs p" and "program_step L cb p e q"
  shows "program_ok L ncfg cb cfgs q"
  using assms program_step_inv [OF _ assms(2)] program_step_attended [OF assms(2)]
  unfolding program_ok_def by blast

lemma program_ok_frame:
  assumes "program_ok L ncfg cb cfgs p" and "program_step L cb p e q"
  shows "alive (gr_comp (pg_gateways q)) \<longleftrightarrow> alive (gr_comp (pg_gateways p)) \<and> e \<noteq> GatewaysStep StopAll"
    and "dying (nl_comp (pg_netlink q)) \<longleftrightarrow> dying (nl_comp (pg_netlink p)) \<or> e = NetlinkStep Kill"
    and "stopped_all (pg_gateways p) \<Longrightarrow> stopped_all (pg_gateways q)"
    and "netlink_ended (pg_netlink p) \<Longrightarrow> netlink_ended (pg_netlink q)"
proof -
  obtain gws evs where "program_inv L ncfg cb cfgs gws evs p" using assms(1) by (auto simp: program_ok_def)
  note frame = program_step_frame [OF assms(2) this]
  show "alive (gr_comp (pg_gateways q)) \<longleftrightarrow> alive (gr_comp (pg_gateways p)) \<and> e \<noteq> GatewaysStep StopAll"
    "dying (nl_comp (pg_netlink q)) \<longleftrightarrow> dying (nl_comp (pg_netlink p)) \<or> e = NetlinkStep Kill"
    by (rule frame(1), rule frame(2))
  show "stopped_all (pg_gateways p) \<Longrightarrow> stopped_all (pg_gateways q)" by (rule frame(3))
  show "netlink_ended (pg_netlink p) \<Longrightarrow> netlink_ended (pg_netlink q)" by (rule frame(4))
qed

lemma daemon_reach_step: "daemon_reach s \<Longrightarrow> plausible_step s e t \<Longrightarrow> daemon_reach t"
  unfolding daemon_reach_def by (rule reach_step)

lemma metrics_reach_step: "metrics_reach cfg s \<Longrightarrow> disciplined_step s e t \<Longrightarrow> metrics_reach cfg t"
  unfolding metrics_reach_def by (rule reach_step)

lemma stop_daemon_frame:
  assumes "plausible_step s StopDaemon t"
  shows "watchdogTicker (d_state t) = None \<or> d_phase t \<noteq> Running"
    and "terminated (d_state s) \<Longrightarrow> terminated (d_state t)"
    and "waiter (d_state t) = waiter (d_state s)"
  using assms
  by (auto elim!: daemon_stepE simp: plausible_step_def daemon_next_def Stop_daemon_def stopWatchdog_def
      Terminate_def go_bind_def go_emit_def go_return_def go_panic_def split: option.splits if_splits)

lemma stop_metrics_main:
  "disciplined_step s StopMetrics t \<Longrightarrow> main (mt_state t) = WaitingGroup None \<or> mt_phase t \<noteq> Running"
  by (auto simp: disciplined_step_def metrics_next_def begin_stop_def go_return_def go_panic_def
      elim!: metrics_step.cases split: main_phase.splits if_splits)

lemma wait_return_main:
  "disciplined_step s WaitReturn t \<Longrightarrow> main (mt_state s) = WaitingGroup e \<Longrightarrow> main (mt_state t) = Stopped e"
  by (auto simp: disciplined_step_def metrics_next_def wait_return_def go_return_def
      elim!: metrics_step.cases split: if_splits)

lemma main_step_inv:
  assumes step: "main_step L cb w w'" and inv: "whole_inv L ncfg cb cfgs mcfg w"
    and pos: "list_all positive_interval mcfg"
  shows "whole_inv L ncfg cb cfgs mcfg w'"
proof -
  have ok: "program_ok L ncfg cb cfgs (w_program w)" and d: "daemon_reach (w_daemon w)"
    and m: "metrics_reach mcfg (w_metrics w)" and p: "in_position w"
    using inv by (simp_all add: whole_inv_def)
  show ?thesis
    using step
  proof cases
    case (stop_gateways q)
    with program_ok_step [OF ok stop_gateways(4)] program_ok_frame [OF ok stop_gateways(4)] inv p show ?thesis
      by (simp add: whole_inv_def in_position_def Let_def reporter_at_def)
  next
    case (stop_netlink q)
    with program_ok_step [OF ok stop_netlink(4)] program_ok_frame [OF ok stop_netlink(4)] inv p show ?thesis
      by (simp add: whole_inv_def in_position_def Let_def reporter_at_def)
  next
    case (stop_daemon t)
    note r = daemon_reach_step [OF d stop_daemon(4)]
    have "daemon_inv t" using daemon.reach_inv r unfolding daemon_reach_def .
    with stop_daemon stop_daemon_frame [OF stop_daemon(4)] r inv p show ?thesis
      by (simp add: whole_inv_def in_position_def Let_def reporter_at_def daemon_inv_def)
  next
    case (stop_metrics t)
    note r = metrics_reach_step [OF m stop_metrics(3)]
    have "mt_phase t = Running" using metrics_reach_inv [OF r pos] by (simp add: metrics_run_inv_def)
    with stop_metrics stop_metrics_main [OF stop_metrics(3)] r inv p show ?thesis
      by (simp add: whole_inv_def in_position_def Let_def reporter_at_def)
  next
    case (return t)
    note r = metrics_reach_step [OF m return(3)]
    from return p have "main (mt_state (w_metrics w)) = WaitingGroup None" by (simp add: in_position_def Let_def reporter_at_def)
    from wait_return_main [OF return(3) this] return r inv p show ?thesis
      by (simp add: whole_inv_def in_position_def Let_def reporter_at_def)
  qed
qed

lemma whole_step_inv:
  assumes step: "whole_step L cb w e w'" and inv: "whole_inv L ncfg cb cfgs mcfg w"
    and pos: "list_all positive_interval mcfg"
  shows "whole_inv L ncfg cb cfgs mcfg w'"
proof -
  have ok: "program_ok L ncfg cb cfgs (w_program w)" and d: "daemon_reach (w_daemon w)"
    and m: "metrics_reach mcfg (w_metrics w)" and p: "in_position w"
    using inv by (simp_all add: whole_inv_def)
  show ?thesis
    using step
  proof cases
    case command
    from main_step_inv [OF command(3) inv pos] show ?thesis .
  next
    case (components f q)
    have "f \<noteq> GatewaysStep StopAll" "f \<noteq> NetlinkStep Kill" using components(4) by (auto simp: by_command_def)
    with components program_ok_step [OF ok components(5)] program_ok_frame [OF ok components(5)] inv p show ?thesis
      by (simp add: whole_inv_def in_position_def Let_def)
  next
    case (signals f t)
    have "daemon_step (w_daemon w) f t" using signals(5) by (simp add: plausible_step_def)
    from signals signal_step_frame [OF this signals(4)] daemon_reach_step [OF d signals(5)] inv p show ?thesis
      by (simp add: whole_inv_def in_position_def Let_def)
  next
    case (exporters f t)
    from exporters exporter_step_frame [OF exporters(5,4)] metrics_reach_step [OF m exporters(5)] inv p show ?thesis
      by (simp add: whole_inv_def in_position_def Let_def)
  qed
qed

lemma whole_start_inv:
  assumes "whole_start L ncfg cb cfgs mcfg w"
  shows "whole_inv L ncfg cb cfgs mcfg w"
proof -
  let ?p = "w_program w"
  have start: "program_start L ncfg cb cfgs ?p" and rest: "w_main w = AwaitingTermination"
      "daemon_reach (w_daemon w)" "waiter (d_state (w_daemon w)) \<noteq> waiter.NotStarted"
      "metrics_reach mcfg (w_metrics w)" "main (mt_state (w_metrics w)) = Started"
    using assms by (simp_all add: whole_start_def)
  have g: "gateways_start cfgs (pg_gateways ?p)"
    and sub: "documented_step L (nl_init ncfg) (AddSubscriber (Some cb)) (pg_netlink ?p)"
    using start by (simp_all add: program_start_def)
  have "program_ok L ncfg cb cfgs ?p"
    using program_start_inv [OF start] attended_start [OF g] unfolding program_ok_def by blast
  moreover have "alive (gr_comp (pg_gateways ?p))"
    using start_props(5) [of "gr_comp (pg_gateways ?p)" cfgs] g by (simp add: gateways_start_def)
  moreover have "\<not> dying (nl_comp (pg_netlink ?p))"
    using sub by (auto simp: documented_step_def elim!: nl_step.cases)
      (auto simp: nl_next_def nl_init_def netlink_New_def Subscribe_def newObserver_def close_signal_def go_return_def)
  ultimately show ?thesis using rest by (simp add: whole_inv_def in_position_def Let_def reporter_at_def)
qed

text \<open>Without exporters that panic at once.\<close>

definition sound_start ::
    "'x netlink_lib \<Rightarrow> netlink_config \<Rightarrow> callback_name \<Rightarrow> lrg_config list \<Rightarrow> exporter_config list \<Rightarrow> 'x whole \<Rightarrow> bool" where
  "sound_start L ncfg cb cfgs mcfg w \<longleftrightarrow> whole_start L ncfg cb cfgs mcfg w \<and> list_all positive_interval mcfg"

interpretation whole: step_system "sound_start L ncfg cb cfgs mcfg" "whole_step L cb"
    "\<lambda>w. whole_inv L ncfg cb cfgs mcfg w \<and> list_all positive_interval mcfg"
  for L ncfg cb cfgs mcfg
  by unfold_locales (auto simp: sound_start_def intro: whole_start_inv whole_step_inv)

end
