(* ===== verification/Daemon_End.thy ===== *)
theory Daemon_End
  imports Whole_Daemon
begin

text \<open>
  How the \<^verbatim>\<open>daemon\<close> command ends (\<^verbatim>\<open>src/cmd/daemon.go\<close>, \<^verbatim>\<open>src/daemon/root.go\<close>): in which order its
  components are stopped, from which states it can end, and that no signal ends it after a SIGHUP.
\<close>

section \<open>Runs of a component are runs of the program\<close>

abbreviation leads :: "'x netlink_lib \<Rightarrow> callback_name \<Rightarrow> 'x whole \<Rightarrow> 'x whole \<Rightarrow> bool" where
  "leads L cb w t \<equiv> \<exists>es. execution (whole_step L cb) w es t"

lemma leads_refl: "leads L cb w w"
  by (metis execution_nil)

lemma leads_trans: "leads L cb w t \<Longrightarrow> leads L cb t u \<Longrightarrow> leads L cb w u"
  by (metis execution_append)

lemma leads_step: "whole_step L cb w e t \<Longrightarrow> leads L cb w t"
  using execution_snoc [OF execution_nil] by metis

lemma leads_inv:
  assumes "leads L cb w t" and "whole_inv L ncfg cb cfgs mcfg w" and "list_all positive_interval mcfg"
  shows "whole_inv L ncfg cb cfgs mcfg t"
proof -
  obtain es where "execution (whole_step L cb) w es t" using assms(1) by blast
  then show ?thesis using assms(2,3)
    by (induction rule: execution.induct) (auto intro: whole_step_inv)
qed

lemma program_ok_phase:
  assumes "program_ok L ncfg cb cfgs p"
  shows "nl_phase (pg_netlink p) = Running \<or> nl_phase (pg_netlink p) = Returned"
proof -
  have "nl_reach L ncfg (pg_netlink p)" using assms by (auto simp: program_ok_def program_inv_def)
  then have "nl_phase (pg_netlink p) \<noteq> Panicked x" for x using nl_reachE by metis
  then show ?thesis by (cases "nl_phase (pg_netlink p)") auto
qed

lemma program_step_no_panic: "program_step L cb p e q \<Longrightarrow> no_panic (pg_gateways p)"
  by (erule program_step.cases) (auto simp: netlink_may_def elim: gateways_stepE)

text \<open>What the process needs besides the program part.\<close>

definition others_run :: "'x whole \<Rightarrow> bool" where
  "others_run w \<longleftrightarrow> w_main w \<noteq> Exited \<and> d_phase (w_daemon w) = Running \<and> \<not> killed (d_state (w_daemon w))
     \<and> mt_phase (w_metrics w) = Running"

lemma process_runsI:
  "others_run w \<Longrightarrow> no_panic (pg_gateways (w_program w)) \<Longrightarrow> program_ok L ncfg cb cfgs (w_program w)
     \<Longrightarrow> process_runs w"
  using program_ok_phase [of L ncfg cb cfgs "w_program w"] by (simp add: process_runs_def others_run_def)

lemma process_runs_others: "process_runs w \<Longrightarrow> others_run w \<and> no_panic (pg_gateways (w_program w))"
  by (simp add: process_runs_def others_run_def)

lemma program_run_in_whole:
  assumes "execution (program_step L cb) p es q" and "program_ok L ncfg cb cfgs p"
    and "list_all (\<lambda>e. \<not> by_command e) es" and "others_run w"
  shows "leads L cb (w\<lparr>w_program := p\<rparr>) (w\<lparr>w_program := q\<rparr>) \<and> program_ok L ncfg cb cfgs q"
  using assms
proof (induction rule: execution.induct)
  case (execution_nil p)
  then show ?case using leads_refl by blast
next
  case (execution_snoc p es q e r)
  then have IH: "leads L cb (w\<lparr>w_program := p\<rparr>) (w\<lparr>w_program := q\<rparr>)" "program_ok L ncfg cb cfgs q" by simp_all
  let ?w = "w\<lparr>w_program := q\<rparr>"
  have "process_runs ?w"
    using process_runsI [of ?w L ncfg cb cfgs] IH(2) execution_snoc.prems(3) program_step_no_panic [OF execution_snoc.hyps(2)]
    by (simp add: others_run_def)
  from whole_step.components [OF this, of e L cb r] execution_snoc.prems(2) execution_snoc.hyps(2)
  have "whole_step L cb ?w (ProgramEvent e) (w\<lparr>w_program := r\<rparr>)" by simp
  from leads_trans [OF IH(1) leads_step [OF this]] program_ok_step [OF IH(2) execution_snoc.hyps(2)]
  show ?case by blast
qed

lemma daemon_run_in_whole:
  assumes "execution plausible_step s es t" and "list_all signal_event es" and "process_runs w" and "w_daemon w = s"
  shows "leads L cb w (w\<lparr>w_daemon := t\<rparr>)"
  using assms
proof (induction rule: execution.induct)
  case (execution_nil s)
  then have "w\<lparr>w_daemon := s\<rparr> = w" by simp
  then show ?case using leads_refl by metis
next
  case (execution_snoc s es t e u)
  then have IH: "leads L cb w (w\<lparr>w_daemon := t\<rparr>)" by simp
  have "d_phase t = Running \<and> \<not> killed (d_state t)"
    using execution_snoc.hyps(2) by (auto simp: plausible_step_def elim: daemon_stepE)
  then have "process_runs (w\<lparr>w_daemon := t\<rparr>)" using execution_snoc.prems(2) by (simp add: process_runs_def)
  from whole_step.signals [OF this, of e u L cb] execution_snoc have "whole_step L cb (w\<lparr>w_daemon := t\<rparr>) (DaemonEvent e) (w\<lparr>w_daemon := u\<rparr>)"
    by simp
  from leads_trans [OF IH leads_step [OF this]] show ?case .
qed

lemma metrics_run_in_whole:
  assumes "execution disciplined_step s es t" and "list_all of_exporters es" and "process_runs w" and "w_metrics w = s"
  shows "leads L cb w (w\<lparr>w_metrics := t\<rparr>)"
  using assms
proof (induction rule: execution.induct)
  case (execution_nil s)
  then have "w\<lparr>w_metrics := s\<rparr> = w" by simp
  then show ?case using leads_refl by metis
next
  case (execution_snoc s es t e u)
  then have IH: "leads L cb w (w\<lparr>w_metrics := t\<rparr>)" by simp
  have "mt_phase t = Running"
    using execution_snoc.hyps(2) by (auto simp: disciplined_step_def elim: metrics_step.cases)
  then have "process_runs (w\<lparr>w_metrics := t\<rparr>)" using execution_snoc.prems(2) by (simp add: process_runs_def)
  from whole_step.exporters [OF this, of e u L cb] execution_snoc have "whole_step L cb (w\<lparr>w_metrics := t\<rparr>) (MetricsEvent e) (w\<lparr>w_metrics := u\<rparr>)"
    by simp
  from leads_trans [OF IH leads_step [OF this]] show ?case .
qed

section \<open>Which daemons a signal can end\<close>

text \<open>
  The termination was asked for, or the goroutine of the daemon component has not read its one
  signal yet and that will not be a SIGHUP.
\<close>

definition may_terminate :: "daemon \<Rightarrow> bool" where
  "may_terminate d \<longleftrightarrow> terminated d
     \<or> waiter d \<noteq> Finished \<and> (case signals d of [] \<Rightarrow> True | sg # rest \<Rightarrow> sg \<noteq> SIGHUP)"

definition routing_ok :: "daemon \<Rightarrow> bool" where
  "routing_ok d \<longleftrightarrow> (case waiter d of
       Waiting \<Rightarrow> routed d
     | Finished \<Rightarrow> routed d \<or> terminated d
     | _ \<Rightarrow> \<not> routed d \<and> signals d = [])"

lemma daemon_step_routing:
  assumes "daemon_step s e t" and "routing_ok (d_state s)" and "terminated (d_state s) \<longleftrightarrow> terminate_once (d_state s)"
  shows "routing_ok (d_state t)"
proof -
  have "routing_ok d" if "daemon_next e (d_state s) = Some (Inr (d, es))" for d es
  proof (cases e)
    case (StartDaemon enabled)
    with that assms(2) show ?thesis
      by (auto simp: daemon_next_def Start_daemon_def initializeWatchdog_def TickWatchdog_def routing_ok_def Let_def
          go_bind_def go_emit_def go_return_def go_panic_def split: sum.splits if_splits)
  next
    case StopDaemon
    with that assms(2) show ?thesis
      by (auto simp: daemon_next_def Stop_daemon_def stopWatchdog_def Terminate_def routing_ok_def go_bind_def
          go_emit_def go_return_def go_panic_def split: option.splits if_splits waiter.splits)
  next
    case WaiterSignal
    with that assms(2,3) show ?thesis
      by (auto simp: daemon_next_def on_signal_def Terminate_def routing_ok_def Let_def go_bind_def
          go_emit_def go_return_def go_panic_def split: list.splits if_splits waiter.splits)
  qed (use that assms(2) in \<open>auto simp: daemon_next_def Terminate_def deliver_def on_spawned_def on_terminated_def
      routing_ok_def go_return_def go_panic_def split: if_splits waiter.splits\<close>)
  with assms(1,2) show ?thesis by (auto elim!: daemon_stepE)
qed

lemma daemon_routing: "daemon_reach s \<Longrightarrow> routing_ok (d_state s)"
  unfolding daemon_reach_def
proof (induction rule: reach.induct)
  case (reach_start s)
  then show ?case by (simp add: daemon_start_def New_daemon_def routing_ok_def)
next
  case (reach_step s e t)
  then have "daemon_step s e t" by (simp add: plausible_step_def)
  moreover have "daemon_inv s" using daemon.reach_inv reach_step.hyps(1) .
  ultimately show ?case using daemon_step_routing reach_step.IH by (auto simp: daemon_inv_def)
qed

lemma daemon_reachD: "daemon_reach s \<Longrightarrow> daemon_inv s"
  using daemon.reach_inv unfolding daemon_reach_def .

text \<open>The signal of a goroutine that is ready for it.\<close>

lemma signal_terminates:
  assumes "d_phase s = Running" "\<not> killed (d_state s)" "waiter (d_state s) = Waiting"
    and "signals (d_state s) = sg # rest" "sg \<noteq> SIGHUP" and "daemon_inv s"
  shows "\<exists>t. plausible_step s WaiterSignal t \<and> d_phase t = Running \<and> \<not> killed (d_state t) \<and> terminated (d_state t)
    \<and> \<not> routed (d_state t)"
proof -
  let ?d = "(d_state s)\<lparr>waiter := Finished, signals := rest\<rparr>"
  have sg: "sg = SIGINT \<or> sg = SIGTERM" using assms(5) by (cases sg) simp_all
  obtain d es where d: "on_signal (d_state s) = Some (Inr (d, es))" "terminated d" "\<not> killed d" "\<not> routed d"
    using assms sg by (cases "terminated (d_state s)")
      (auto simp: on_signal_def Let_def Terminate_def daemon_inv_def go_bind_def go_emit_def go_return_def)
  have "plausible_step s WaiterSignal (s\<lparr>d_state := d, d_trace := d_trace s @ es\<rparr>)"
    unfolding plausible_step_def by (intro conjI daemon_ok) (use assms d in \<open>simp_all add: daemon_next_def plausible_def\<close>)
  with d assms(1) show ?thesis by (intro exI [of _ "s\<lparr>d_state := d, d_trace := d_trace s @ es\<rparr>"]) simp
qed

lemma plain_daemon_step:
  assumes "d_phase s = Running" "\<not> killed (d_state s)" "daemon_next e (d_state s) = Some (Inr (d, es))" "plausible e"
  shows "plausible_step s e (s\<lparr>d_state := d, d_trace := d_trace s @ es\<rparr>)"
  unfolding plausible_step_def using assms by (blast intro: daemon_ok)

lemma waiting_run_terminates:
  assumes u: "daemon_reach u" "d_phase u = Running" "\<not> killed (d_state u)" "waiter (d_state u) = Waiting"
      "case signals (d_state u) of [] \<Rightarrow> True | sg # rest \<Rightarrow> sg \<noteq> SIGHUP"
  shows "\<exists>es t. execution plausible_step u es t \<and> list_all signal_event es \<and> terminated (d_state t)
    \<and> d_phase t = Running \<and> \<not> killed (d_state t) \<and> \<not> routed (d_state t)"
proof (cases "signals (d_state u)")
  case Nil
  let ?v = "u\<lparr>d_state := (d_state u)\<lparr>signals := [SIGTERM]\<rparr>, d_trace := d_trace u @ []\<rparr>"
  have "routed (d_state u)" using daemon_routing [OF u(1)] u(4) by (simp add: routing_ok_def)
  with Nil have step: "plausible_step u (OsSignal SIGTERM) ?v"
    by (intro plain_daemon_step u) (simp_all add: daemon_next_def deliver_def go_return_def plausible_def)
  from signal_terminates [of ?v SIGTERM "[]"] daemon_reachD [OF daemon_reach_step [OF u(1) step]] u
  obtain t where t: "plausible_step ?v WaiterSignal t" "d_phase t = Running" "\<not> killed (d_state t)" "terminated (d_state t)"
    "\<not> routed (d_state t)" by auto
  have "execution plausible_step u [OsSignal SIGTERM, WaiterSignal] t"
    by (rule execution_cons [where step = plausible_step, OF step], rule execution_cons [where step = plausible_step, OF t(1)],
        rule execution_nil)
  with t show ?thesis by (intro exI [of _ "[OsSignal SIGTERM, WaiterSignal]"] exI [of _ t]) (simp add: signal_event_def)
next
  case (Cons sg rest)
  from signal_terminates [OF u(2,3,4) Cons _ daemon_reachD [OF u(1)]] u(5) Cons
  obtain t where t: "plausible_step u WaiterSignal t" "d_phase t = Running" "\<not> killed (d_state t)" "terminated (d_state t)"
    "\<not> routed (d_state t)" by auto
  have "execution plausible_step u [WaiterSignal] t"
    by (rule execution_cons [where step = plausible_step, OF t(1)], rule execution_nil)
  with t show ?thesis by (intro exI [of _ "[WaiterSignal]"] exI [of _ t]) (simp add: signal_event_def)
qed

lemma terminating_run:
  assumes reach: "daemon_reach s" and run: "d_phase s = Running" "\<not> killed (d_state s)"
    and w: "waiter (d_state s) \<noteq> waiter.NotStarted" and may: "may_terminate (d_state s)"
  shows "\<exists>es t. execution plausible_step s es t \<and> list_all signal_event es \<and> terminated (d_state t)
    \<and> d_phase t = Running \<and> \<not> killed (d_state t) \<and> (terminated (d_state s) \<or> \<not> routed (d_state t))"
proof -
  show ?thesis
  proof (cases "terminated (d_state s)")
    case True
    with run show ?thesis by (intro exI [of _ "[]"] exI [of _ s]) (simp add: execution_nil)
  next
    case False
    with may w have c: "waiter (d_state s) = waiter.Spawned \<or> waiter (d_state s) = Waiting"
      "case signals (d_state s) of [] \<Rightarrow> True | sg # rest \<Rightarrow> sg \<noteq> SIGHUP"
      by (cases "waiter (d_state s)"; simp add: may_terminate_def)+
    show ?thesis
    proof (cases "waiter (d_state s) = Waiting")
      case True
      from waiting_run_terminates [OF reach run True c(2)] show ?thesis by blast
    next
      case False
      with c(1) have sp: "waiter (d_state s) = waiter.Spawned" by simp
      let ?v = "s\<lparr>d_state := (d_state s)\<lparr>waiter := Waiting, routed := True\<rparr>, d_trace := d_trace s @ []\<rparr>"
      have step: "plausible_step s WaiterSetup ?v"
        by (intro plain_daemon_step run) (simp_all add: daemon_next_def on_spawned_def sp go_return_def plausible_def)
      from waiting_run_terminates [of ?v] daemon_reach_step [OF reach step] run c(2)
      obtain es t where t: "execution plausible_step ?v es t" "list_all signal_event es" "terminated (d_state t)"
        "d_phase t = Running" "\<not> killed (d_state t)" "\<not> routed (d_state t)" by auto
      have "execution plausible_step s (WaiterSetup # es) t"
        by (rule execution_cons [where step = plausible_step, OF step t(1)])
      with t show ?thesis by (intro exI [of _ "WaiterSetup # es"] exI [of _ t]) (simp add: signal_event_def)
    qed
  qed
qed

text \<open>The others: the signals go to a channel, and the goroutine reads nothing or a SIGHUP.\<close>

definition muted :: "daemon \<Rightarrow> bool" where
  "muted d \<longleftrightarrow> \<not> terminated d \<and> \<not> killed d \<and> routed d
     \<and> (waiter d = Finished \<or> waiter d = Waiting \<and> signals d \<noteq> [] \<and> hd (signals d) = SIGHUP)"

lemma muted_iff:
  assumes "daemon_reach s" and "\<not> killed (d_state s)"
  shows "muted (d_state s) \<longleftrightarrow> \<not> may_terminate (d_state s)"
  using daemon_routing [OF assms(1)] assms(2)
  by (auto simp: muted_def may_terminate_def routing_ok_def split: waiter.splits list.splits)

lemma muted_step:
  assumes "muted (d_state s)" "signal_event e" "daemon_step s e t"
  shows "muted (d_state t)"
  using assms
  by (auto elim!: daemon_stepE simp: daemon_next_def deliver_def on_spawned_def on_signal_def
      on_terminated_def muted_def signal_event_def go_return_def Let_def neq_Nil_conv
      split: daemon_event.splits if_splits)

lemma muted_whole:
  assumes "execution (whole_step L cb) w es t" and "muted (d_state (w_daemon w))" and "w_main w = AwaitingTermination"
  shows "muted (d_state (w_daemon t)) \<and> w_main t = AwaitingTermination"
  using assms
proof (induction rule: execution.induct)
  case (execution_snoc w es t e u)
  then have t: "muted (d_state (w_daemon t))" "w_main t = AwaitingTermination" by simp_all
  from execution_snoc.hyps(2) show ?case
  proof cases
    case command
    with t show ?thesis by (auto elim: main_stepE simp: muted_def)
  next
    case (signals f d)
    with t muted_step [OF t(1) signals(4)] show ?thesis by (simp add: plausible_step_def)
  qed (use t in simp_all)
qed simp

section \<open>The way to the end\<close>

lemma netlink_run_in_program:
  assumes "execution (documented_step L) n nevs n'" and "list_all of_injector nevs"
    and "subscribed_to cb (nl_comp n)" and "no_panic (pg_gateways p)" and "pg_netlink p = n"
  shows "\<exists>q. execution (program_step L cb) p (map NetlinkStep nevs) q \<and> pg_netlink q = n' \<and> pg_gateways q = pg_gateways p
    \<and> subscribed_to cb (nl_comp n')"
  using assms
proof (induction rule: execution.induct)
  case (execution_nil n)
  then show ?case by (intro exI [of _ p]) (simp add: execution.execution_nil)
next
  case (execution_snoc n nevs m ev m')
  then obtain q where q: "execution (program_step L cb) p (map NetlinkStep nevs) q" "pg_netlink q = m"
    "pg_gateways q = pg_gateways p" "subscribed_to cb (nl_comp m)" by auto
  have step: "nl_step L m ev m'" using execution_snoc.hyps(2) by (simp add: documented_step_def)
  have ev: "ev \<noteq> AddSubscriber d" "netlink_may q ev" for d
    using execution_snoc.prems(1,3) q(3) by (auto simp: of_injector_def netlink_may_def of_run_def split: nl_event.splits)
  obtain es where es: "nl_trace m' = nl_trace m @ es" using nl_step_speaks(2) [OF step q(4) ev(1)] by blast
  have "documented_step L (pg_netlink q) ev m'" "nl_trace m' = nl_trace (pg_netlink q) @ es"
    using execution_snoc.hyps(2) q(2) es by simp_all
  from program_step.netlink [OF ev(2) this, of cb] q(1)
  have "execution (program_step L cb) p (map NetlinkStep nevs @ [NetlinkStep ev])
      (q\<lparr>pg_netlink := m', pg_outbox := pg_outbox q @ delivered cb es\<rparr>)"
    by (rule execution.execution_snoc [rotated])
  then show ?case using q(3) nl_step_speaks(1) [OF step q(4) ev(1)] by force
qed

text \<open>The netlink component ends once it is told to, with nothing in the callback.\<close>

lemma netlink_ends_in_program:
  assumes inv: "program_inv L ncfg cb cfgs gws evs p" and d: "dying (nl_comp (pg_netlink p))"
    and ok: "no_panic (pg_gateways p)" and cb: "callback_returned p"
  shows "\<exists>es q. execution (program_step L cb) p es q \<and> list_all (\<lambda>e. \<not> by_command e) es
    \<and> netlink_ended (pg_netlink q) \<and> pg_gateways q = pg_gateways p"
proof -
  have reach: "nl_reach L ncfg (pg_netlink p)" and sub: "subscribed_to cb (nl_comp (pg_netlink p))"
    using inv by (simp_all add: program_inv_def)
  have rest: "\<exists>es q. execution (program_step L cb) r es q \<and> list_all (\<lambda>e. \<not> by_command e) es
      \<and> netlink_ended (pg_netlink q) \<and> pg_gateways q = pg_gateways p"
    if r: "nl_phase (pg_netlink r) = Returned" "dying (nl_comp (pg_netlink r))" "nl_reach L ncfg (pg_netlink r)"
      "subscribed_to cb (nl_comp (pg_netlink r))" "pg_gateways r = pg_gateways p" for r
  proof -
    obtain \<sigma> where "good (nl_comp (pg_netlink r)) \<sigma>" using r(3) by (rule nl_reachE)
    from injectors_end [OF this r(2,1), of L] obtain t es where
      t: "execution (documented_step L) (pg_netlink r) es t" "nl_phase t = Returned" "injectors (nl_comp t) = []"
        "list_all of_injector es" by blast
    from netlink_run_in_program [OF t(1,4) r(4) _ refl] ok r(5) obtain q where
      q: "execution (program_step L cb) r (map NetlinkStep es) q" "pg_netlink q = t" "pg_gateways q = pg_gateways r"
      by auto
    have "list_all (\<lambda>e. \<not> by_command e) (map NetlinkStep es)"
      using t(4) by (auto simp: list_all_iff by_command_def of_injector_def split: nl_event.splits)
    with q t(2,3) r(5) show ?thesis by (auto simp: netlink_ended_def)
  qed
  have "nl_phase (pg_netlink p) \<noteq> Panicked x" for x using reach nl_reachE by metis
  then consider "nl_phase (pg_netlink p) = Returned" | "nl_phase (pg_netlink p) = Running"
    by (cases "nl_phase (pg_netlink p)") auto
  then show ?thesis
  proof cases
    case 1
    from rest [OF 1 d reach sub refl] show ?thesis .
  next
    case 2
    let ?es = "case transitionTick (nl_comp (pg_netlink p)) of None \<Rightarrow> [] | Some k \<Rightarrow> [TickerHalt k]"
    let ?n = "(pg_netlink p)\<lparr>nl_phase := Returned, nl_trace := nl_trace (pg_netlink p) @ ?es\<rparr>"
    let ?ev = "Loop (no_list (Errno 12)) NlDying"
    have "nl_step L (pg_netlink p) ?ev ?n" by (rule dying_loop_returns [OF reach d 2])
    then have doc: "documented_step L (pg_netlink p) ?ev ?n"
      by (simp add: documented_step_def documented_def no_list_real)
    have may: "netlink_may p ?ev" using ok cb by (simp add: netlink_may_def)
    let ?r = "p\<lparr>pg_netlink := ?n, pg_outbox := pg_outbox p @ delivered cb ?es\<rparr>"
    have step: "program_step L cb p (NetlinkStep ?ev) ?r"
      by (rule program_step.netlink [OF may doc]) simp
    have "nl_reach L ncfg ?n" using reach doc unfolding nl_reach_def by (blast intro: reach_step)
    with rest [of ?r] d sub obtain es q where q: "execution (program_step L cb) ?r es q"
      "list_all (\<lambda>e. \<not> by_command e) es" "netlink_ended (pg_netlink q)" "pg_gateways q = pg_gateways p" by auto
    have "execution (program_step L cb) p (NetlinkStep ?ev # es) q"
      by (rule execution_cons [where step = "program_step L cb", OF step q(1)])
    moreover have "list_all (\<lambda>e. \<not> by_command e) (NetlinkStep ?ev # es)" using q(2) by (simp add: by_command_def)
    ultimately show ?thesis using q(3,4) by blast
  qed
qed

lemma exporters_end:
  assumes "metrics_run_inv s" and "main (mt_state s) = WaitingGroup e"
  shows "\<exists>es t. execution disciplined_step s es t \<and> list_all of_exporters es \<and> metrics_run_inv t
    \<and> main (mt_state t) = WaitingGroup e \<and> wg (mt_state t) = 0"
  using assms
proof (induction "work (mt_state s)" arbitrary: s rule: less_induct)
  case less
  show ?case
  proof (cases "wg (mt_state s) = 0")
    case True
    with less.prems show ?thesis by (intro exI [of _ "[]"] exI [of _ s]) (simp add: execution_nil)
  next
    case False
    from waiting_progress [OF less.prems False] obtain ev t where t: "disciplined_step s ev t"
        "main (mt_state t) = WaitingGroup e" "work (mt_state t) < work (mt_state s)" by blast
    have "of_exporters ev"
      using t(1,2) less.prems(2) wait_return_main [of s t e]
      by (cases ev) (auto simp: of_exporters_def disciplined_step_def metrics_next_def elim!: metrics_step.cases)
    with less.hyps [OF t(3) disciplined_step_inv [OF less.prems(1) t(1)] t(2)] obtain es u where
      u: "execution disciplined_step t es u" "list_all of_exporters (ev # es)" "metrics_run_inv u"
        "main (mt_state u) = WaitingGroup e" "wg (mt_state u) = 0" by auto
    from execution_cons [where step = disciplined_step, OF t(1) u(1)] u(2-5) show ?thesis by blast
  qed
qed

lemma whole_program_inv:
  assumes "program_ok L ncfg cb cfgs p"
  obtains gws evs where "program_inv L ncfg cb cfgs gws evs p" "system_inv cfgs (pg_gateways p)"
    "nl_reach L ncfg (pg_netlink p)"
proof -
  obtain gws evs where "program_inv L ncfg cb cfgs gws evs p" using assms by (auto simp: program_ok_def)
  moreover from this have "system_inv cfgs (pg_gateways p)" "nl_reach L ncfg (pg_netlink p)"
    using history_invD(1) by (auto simp: program_inv_def)
  ultimately show thesis by (rule that)
qed

text \<open>A state of a run in which nothing crashed.\<close>

definition sound_state ::
    "'x netlink_lib \<Rightarrow> netlink_config \<Rightarrow> callback_name \<Rightarrow> lrg_config list \<Rightarrow> exporter_config list \<Rightarrow> 'x whole \<Rightarrow> bool" where
  "sound_state L ncfg cb cfgs mcfg w \<longleftrightarrow> whole_inv L ncfg cb cfgs mcfg w \<and> list_all positive_interval mcfg \<and> process_runs w"

lemma sound_stateD:
  assumes "sound_state L ncfg cb cfgs mcfg w"
  shows "whole_inv L ncfg cb cfgs mcfg w" "list_all positive_interval mcfg" "process_runs w"
    "program_ok L ncfg cb cfgs (w_program w)" "no_panic (pg_gateways (w_program w))" "others_run w" "in_position w"
  using assms by (simp_all add: sound_state_def whole_inv_def process_runs_def others_run_def)

lemma sound_leads:
  "sound_state L ncfg cb cfgs mcfg w \<Longrightarrow> leads L cb w t \<Longrightarrow> process_runs t \<Longrightarrow> sound_state L ncfg cb cfgs mcfg t"
  by (simp add: sound_state_def leads_inv [of L cb w t ncfg cfgs mcfg])

lemma sound_program:
  assumes "sound_state L ncfg cb cfgs mcfg w" and "leads L cb w (w\<lparr>w_program := q\<rparr>)" and "no_panic (pg_gateways q)"
  shows "sound_state L ncfg cb cfgs mcfg (w\<lparr>w_program := q\<rparr>)"
proof -
  have "program_ok L ncfg cb cfgs q"
    using leads_inv [OF assms(2) sound_stateD(1,2) [OF assms(1)]] by (simp add: whole_inv_def)
  with assms process_runsI [of "w\<lparr>w_program := q\<rparr>"] sound_stateD(6) [OF assms(1)] show ?thesis
    by (intro sound_leads [OF assms(1,2)]) (auto simp: others_run_def)
qed

text \<open>What the steps of the shutdown leave as it is.\<close>

definition carried_on :: "'x whole \<Rightarrow> 'x whole \<Rightarrow> bool" where
  "carried_on w t \<longleftrightarrow> w_daemon t = w_daemon w \<and> pg_outbox (w_program t) = pg_outbox (w_program w)
     \<and> nl_phase (pg_netlink (w_program t)) = nl_phase (pg_netlink (w_program w))
     \<and> gr_callback (pg_gateways (w_program t)) = gr_callback (pg_gateways (w_program w))
     \<and> queue (gr_comp (pg_gateways (w_program t))) = queue (gr_comp (pg_gateways (w_program w)))"

text \<open>The command tells the gateways to stop, and their goroutines return.\<close>

lemma gateways_told:
  assumes s: "sound_state L ncfg cb cfgs mcfg w" and at: "w_main w = AwaitingTermination" "terminated (d_state (w_daemon w))"
  obtains t where "leads L cb w t" "sound_state L ncfg cb cfgs mcfg t" "w_main t = StoppingGateways" "carried_on w t"
proof -
  let ?g = "pg_gateways (w_program w)"
  let ?p = "(w_program w)\<lparr>pg_gateways := ?g\<lparr>gr_comp := fst (Stop (gr_comp ?g))\<rparr>\<rparr>"
  let ?t = "w\<lparr>w_main := StoppingGateways, w_program := ?p\<rparr>"
  have stop: "program_step L cb (w_program w) (GatewaysStep StopAll) ?p"
    using sound_stateD(5) [OF s]
    by (intro program_step.gateways) (auto simp: of_callback_def intro: gateways_step.stop_all)
  have "whole_step L cb w MainGoroutine ?t"
    using main_step.stop_gateways [OF at(1) _ stop] at(2) by (intro whole_step.command [OF sound_stateD(3) [OF s]]) simp
  note lead = leads_step [OF this]
  have "process_runs ?t" using sound_stateD(3) [OF s] by (simp add: process_runs_def no_panic_def)
  moreover have "carried_on w ?t" by (simp add: carried_on_def queue_def fun_eq_iff)
  ultimately show thesis using that [OF lead sound_leads [OF s lead]] by simp
qed

lemma gateways_return:
  assumes s: "sound_state L ncfg cb cfgs mcfg w" and at: "w_main w = StoppingGateways"
  obtains t where "leads L cb w t" "sound_state L ncfg cb cfgs mcfg t" "w_main t = StoppingGateways" "carried_on w t"
    "stopped_all (pg_gateways (w_program t))"
proof -
  let ?p = "w_program w"
  note ok = sound_stateD(4) [OF s]
  obtain gws evs where sys: "system_inv cfgs (pg_gateways ?p)" using ok by (rule whole_program_inv)
  have "\<not> alive (gr_comp (pg_gateways ?p))" using sound_stateD(7) [OF s] at by (simp add: in_position_def Let_def)
  from retire_all [OF sys this sound_stateD(5) [OF s], of L] obtain ks g where
    g: "execution (gateways_step L) (pg_gateways ?p) (map (\<lambda>k. Work k Dying) ks) g" "stopped_all g"
      "gr_callback g = gr_callback (pg_gateways ?p)" "queue (gr_comp g) = queue (gr_comp (pg_gateways ?p))"
    by blast
  let ?es = "map GatewaysStep (map (\<lambda>k. Work k Dying) ks)" and ?t = "w\<lparr>w_program := ?p\<lparr>pg_gateways := g\<rparr>\<rparr>"
  have "list_all (\<lambda>e. \<not> of_callback e) (map (\<lambda>k. Work k Dying) ks)" by (simp add: list_all_iff of_callback_def)
  from gateways_run_in_program [OF g(1) this, of cb ?p]
  have "execution (program_step L cb) ?p ?es (?p\<lparr>pg_gateways := g\<rparr>)" by simp
  moreover have "list_all (\<lambda>e. \<not> by_command e) ?es" by (simp add: list_all_iff by_command_def)
  ultimately have lead: "leads L cb w ?t"
    using program_run_in_whole [OF _ ok _ sound_stateD(6) [OF s], of ?es] by fastforce
  have "no_panic g" using g(2) by (auto simp: stopped_all_def no_panic_def list_all_iff)
  then have "sound_state L ncfg cb cfgs mcfg ?t" by (intro sound_program [OF s lead]) simp
  moreover have "carried_on w ?t" using g(3,4) by (simp add: carried_on_def)
  ultimately show thesis using that [OF lead] at g(2) by simp
qed

text \<open>The netlink component is told to stop.\<close>

lemma netlink_told:
  assumes s: "sound_state L ncfg cb cfgs mcfg w"
    and at: "w_main w = StoppingGateways" "stopped_all (pg_gateways (w_program w))"
  obtains t where "leads L cb w t" "sound_state L ncfg cb cfgs mcfg t" "w_main t = StoppingNetlink" "carried_on w t"
proof -
  let ?n = "pg_netlink (w_program w)"
  let ?m = "?n\<lparr>nl_comp := netlink_Stop (nl_comp ?n)\<rparr>"
  let ?t = "w\<lparr>w_main := StoppingNetlink, w_program := (w_program w)\<lparr>pg_netlink := ?m\<rparr>\<rparr>"
  have "nl_step L ?n Kill (?n\<lparr>nl_comp := netlink_Stop (nl_comp ?n), nl_trace := nl_trace ?n @ []\<rparr>)"
    using program_ok_phase [OF sound_stateD(4) [OF s]]
    by (intro nl_step_next) (auto simp: nl_may_def of_run_def nl_next_def go_return_def)
  then have "documented_step L ?n Kill ?m" by (simp add: documented_step_def documented_def)
  from program_step.netlink [OF _ this, of "[]" cb] sound_stateD(5) [OF s]
  have kill: "program_step L cb (w_program w) (NetlinkStep Kill) ((w_program w)\<lparr>pg_netlink := ?m\<rparr>)"
    by (simp add: netlink_may_def of_run_def)
  note lead = leads_step [OF whole_step.command [OF sound_stateD(3) [OF s] main_step.stop_netlink [OF at kill]]]
  have "process_runs ?t" using sound_stateD(3) [OF s] by (simp add: process_runs_def)
  moreover have "carried_on w ?t" by (simp add: carried_on_def)
  ultimately show thesis using that [OF lead sound_leads [OF s lead]] by simp
qed

text \<open>With nothing in the callback the goroutines of the netlink component return.\<close>

lemma netlink_returns:
  assumes s: "sound_state L ncfg cb cfgs mcfg w" and at: "w_main w = StoppingNetlink" "callback_returned (w_program w)"
  obtains t where "leads L cb w t" "sound_state L ncfg cb cfgs mcfg t" "w_main t = StoppingNetlink"
    "netlink_ended (pg_netlink (w_program t))"
proof -
  let ?p = "w_program w"
  note ok = sound_stateD(4) [OF s]
  obtain gws evs where inv: "program_inv L ncfg cb cfgs gws evs ?p" using ok by (rule whole_program_inv)
  have "dying (nl_comp (pg_netlink ?p))" using sound_stateD(7) [OF s] at(1) by (simp add: in_position_def Let_def)
  from netlink_ends_in_program [OF inv this sound_stateD(5) [OF s] at(2)] obtain es q where
    q: "execution (program_step L cb) ?p es q" "list_all (\<lambda>e. \<not> by_command e) es" "netlink_ended (pg_netlink q)"
      "pg_gateways q = pg_gateways ?p" by blast
  from program_run_in_whole [OF q(1) ok q(2) sound_stateD(6) [OF s]] have lead: "leads L cb w (w\<lparr>w_program := q\<rparr>)" by simp
  have "sound_state L ncfg cb cfgs mcfg (w\<lparr>w_program := q\<rparr>)"
    using sound_stateD(5) [OF s] q(4) by (intro sound_program [OF s lead]) simp
  then show thesis using that [OF lead] at(1) q(3) by simp
qed

text \<open>Before all that, the gateways can finish what was notified.\<close>

lemma serves_not_command: "list_all serves es \<Longrightarrow> list_all (\<lambda>e. \<not> by_command e) es"
  by (induction es) (auto simp: serves_def by_command_def serving_def split: program_event.splits)

lemma gateways_catch_up:
  assumes s: "sound_state L ncfg cb cfgs mcfg w"
    and at: "w_main w = AwaitingTermination" "attended (pg_gateways (w_program w))"
  obtains t where "leads L cb w t" "sound_state L ncfg cb cfgs mcfg t" "w_main t = AwaitingTermination"
    "w_daemon t = w_daemon w" "callback_returned (w_program t)"
proof -
  let ?p = "w_program w"
  note ok = sound_stateD(4) [OF s]
  obtain gws evs where inv: "program_inv L ncfg cb cfgs gws evs ?p" using ok by (rule whole_program_inv)
  have "healthy (pg_gateways ?p)" using sound_stateD(5,7) [OF s] at by (simp add: in_position_def Let_def)
  from program_drains [OF inv this] obtain es q where
    q: "execution (program_step L cb) ?p es q" "pg_outbox q = []" "no_panic (pg_gateways q)" "drained (pg_gateways q)"
      "list_all serves es" by blast
  from program_run_in_whole [OF q(1) ok serves_not_command [OF q(5)] sound_stateD(6) [OF s]]
  have lead: "leads L cb w (w\<lparr>w_program := q\<rparr>)" by simp
  from that [OF lead sound_program [OF s lead q(3)]] at(1) q(2,4) show thesis
    by (simp add: callback_returned_def drained_def)
qed

text \<open>From the end of the netlink component on, the command returns.\<close>

lemma after_netlink:
  assumes s: "sound_state L ncfg cb cfgs mcfg w"
    and at: "w_main w = StoppingNetlink" "netlink_ended (pg_netlink (w_program w))"
  shows "\<exists>t. leads L cb w t \<and> w_main t = Exited"
proof -
  note inv = sound_stateD(1) [OF s] and pos = sound_stateD(2) [OF s] and run = sound_stateD(3) [OF s]
  have d: "daemon_inv (w_daemon w)" and m: "metrics_run_inv (w_metrics w)" "main (mt_state (w_metrics w)) = Started"
    using inv daemon_reachD metrics_reach_inv [OF _ pos] at(1)
    by (auto simp: whole_inv_def in_position_def Let_def reporter_at_def)
  obtain ds es where ds: "Stop_daemon (d_state (w_daemon w)) = Inr (ds, es)" "killed ds = killed (d_state (w_daemon w))"
    using d by (cases "watchdogTicker (d_state (w_daemon w))")
      (auto simp: Stop_daemon_def stopWatchdog_def Terminate_def go_bind_def go_emit_def go_return_def daemon_inv_def)
  let ?d = "(w_daemon w)\<lparr>d_state := ds, d_trace := d_trace (w_daemon w) @ es\<rparr>"
  have "plausible_step (w_daemon w) StopDaemon ?d"
    by (intro plain_daemon_step) (use run ds in \<open>simp_all add: process_runs_def daemon_next_def plausible_def\<close>)
  from whole_step.command [OF run main_step.stop_daemon [OF at this]]
  have 1: "whole_step L cb w MainGoroutine (w\<lparr>w_main := StoppingReporter, w_daemon := ?d\<rparr>)" .
  let ?w1 = "w\<lparr>w_main := StoppingReporter, w_daemon := ?d\<rparr>"
  have run1: "process_runs ?w1" using run ds by (simp add: process_runs_def)
  let ?m = "(w_metrics w)\<lparr>mt_state := (mt_state (w_metrics w))\<lparr>done_closed := True, main := WaitingGroup None\<rparr>,
      mt_trace := mt_trace (w_metrics w) @ []\<rparr>"
  have "metrics_step (w_metrics w) StopMetrics ?m"
    by (rule metrics_ok) (use m in \<open>simp_all add: metrics_run_inv_def metrics_inv_def metrics_next_def begin_stop_def go_return_def\<close>)
  then have stop: "disciplined_step (w_metrics ?w1) StopMetrics ?m"
    using m(2) by (simp add: disciplined_step_def disciplined_def)
  have minv: "metrics_run_inv ?m" using disciplined_step_inv [OF _ stop] m(1) by simp
  from whole_step.command [OF run1 main_step.stop_metrics [OF _ stop]]
  have 2: "whole_step L cb ?w1 MainGoroutine (?w1\<lparr>w_main := WaitingMetrics, w_metrics := ?m\<rparr>)" by simp
  let ?w2 = "?w1\<lparr>w_main := WaitingMetrics, w_metrics := ?m\<rparr>"
  have run2: "process_runs ?w2" using run1 m(1) by (simp add: process_runs_def metrics_run_inv_def)
  from exporters_end [OF minv] obtain ms u where
    u: "execution disciplined_step ?m ms u" "list_all of_exporters ms" "metrics_run_inv u"
      "main (mt_state u) = WaitingGroup None" "wg (mt_state u) = 0" by auto
  have 3: "leads L cb ?w2 (?w2\<lparr>w_metrics := u\<rparr>)" by (rule metrics_run_in_whole [OF u(1,2) run2]) simp
  let ?w3 = "?w2\<lparr>w_metrics := u\<rparr>"
  have run3: "process_runs ?w3" using run2 u(3) by (simp add: process_runs_def metrics_run_inv_def)
  obtain v where "disciplined_step u WaitReturn v" using waiting_over [OF u(3,4,5)] by blast
  with whole_step.command [OF run3 main_step.return [of ?w3 v L cb]]
  have 4: "whole_step L cb ?w3 MainGoroutine (?w3\<lparr>w_main := Exited, w_metrics := v\<rparr>)" by simp
  have "leads L cb w (?w3\<lparr>w_main := Exited, w_metrics := v\<rparr>)"
    by (rule leads_trans [OF leads_step [OF 1] leads_trans [OF leads_step [OF 2] leads_trans [OF 3 leads_step [OF 4]]]])
  then show ?thesis by (intro exI [of _ "?w3\<lparr>w_main := Exited, w_metrics := v\<rparr>"]) simp
qed

text \<open>A daemon that was told to terminate and whose gateways run can end.\<close>

lemma terminated_can_end:
  assumes s: "sound_state L ncfg cb cfgs mcfg w"
    and at: "w_main w = AwaitingTermination" "terminated (d_state (w_daemon w))" "attended (pg_gateways (w_program w))"
  shows "\<exists>t. leads L cb w t \<and> w_main t = Exited"
proof -
  from gateways_catch_up [OF s at(1,3)] obtain w1 where
    1: "leads L cb w w1" "sound_state L ncfg cb cfgs mcfg w1" "w_main w1 = AwaitingTermination"
      "w_daemon w1 = w_daemon w" "callback_returned (w_program w1)" .
  from gateways_told [OF 1(2,3)] 1(4) at(2) obtain w2 where
    2: "leads L cb w1 w2" "sound_state L ncfg cb cfgs mcfg w2" "w_main w2 = StoppingGateways" "carried_on w1 w2" by auto
  from gateways_return [OF 2(2,3)] obtain w3 where
    3: "leads L cb w2 w3" "sound_state L ncfg cb cfgs mcfg w3" "w_main w3 = StoppingGateways" "carried_on w2 w3"
      "stopped_all (pg_gateways (w_program w3))" .
  from netlink_told [OF 3(2,3,5)] obtain w4 where
    4: "leads L cb w3 w4" "sound_state L ncfg cb cfgs mcfg w4" "w_main w4 = StoppingNetlink" "carried_on w3 w4" .
  have "callback_returned (w_program w4)"
    using 1(5) 2(4) 3(4) 4(4) by (simp add: callback_returned_def carried_on_def)
  from netlink_returns [OF 4(2,3) this] obtain w5 where
    5: "leads L cb w4 w5" "sound_state L ncfg cb cfgs mcfg w5" "w_main w5 = StoppingNetlink"
      "netlink_ended (pg_netlink (w_program w5))" .
  from after_netlink [OF 5(2,3,4)] obtain t where "leads L cb w5 t" "w_main t = Exited" by blast
  then show ?thesis
    using leads_trans [OF 1(1) leads_trans [OF 2(1) leads_trans [OF 3(1) leads_trans [OF 4(1) 5(1)]]]] leads_trans by metis
qed

lemma awaiting_can_end:
  assumes s: "sound_state L ncfg cb cfgs mcfg w"
    and at: "w_main w = AwaitingTermination" "may_terminate (d_state (w_daemon w))" "attended (pg_gateways (w_program w))"
  shows "\<exists>t. leads L cb w t \<and> w_main t = Exited"
proof -
  note run = sound_stateD(3) [OF s]
  have d: "daemon_reach (w_daemon w)" "waiter (d_state (w_daemon w)) \<noteq> waiter.NotStarted"
    using sound_stateD(1) [OF s] by (simp_all add: whole_inv_def)
  from terminating_run [OF d(1) _ _ d(2) at(2)] run obtain es u where
    u: "execution plausible_step (w_daemon w) es u" "list_all signal_event es" "terminated (d_state u)"
      "d_phase u = Running" "\<not> killed (d_state u)" by (auto simp: process_runs_def)
  let ?w = "w\<lparr>w_daemon := u\<rparr>"
  have lead: "leads L cb w ?w" by (rule daemon_run_in_whole [OF u(1,2) run refl])
  have "process_runs ?w" using run u(4,5) by (simp add: process_runs_def)
  from terminated_can_end [OF sound_leads [OF s lead this]] at u(3) obtain t where
    "leads L cb ?w t" "w_main t = Exited" by auto
  with lead show ?thesis using leads_trans by metis
qed

section \<open>Properties\<close>

text \<open>
  C5. The components are stopped one after the other, and nothing is left in the end. In every
  state the daemon can be in: the gateways are told to stop only after the termination was asked for; the netlink
  component only when all goroutines of the gateways have returned, with no installation pending; the
  daemon component and the metrics only when the goroutines of the netlink component have returned, so that nothing is
  reported or notified to a stopped component. When the command has returned, all that holds, no watchdog ticker runs, and
  every output of the metrics that was opened was closed, once.
\<close>

theorem shutdown_in_order:
  assumes "reach (sound_start L ncfg cb cfgs mcfg) (whole_step L cb) w"
  shows "let p = w_program w; d = w_daemon w; m = w_metrics w in
     (alive (gr_comp (pg_gateways p)) \<or> terminated (d_state d))
     \<and> (\<not> dying (nl_comp (pg_netlink p)) \<or> stopped_all (pg_gateways p)
          \<and> list_all (\<lambda>gw. installationTick (cell (gr_comp (pg_gateways p)) gw) = None) (gateways (gr_comp (pg_gateways p))))
     \<and> (\<not> done_closed (mt_state m) \<or> netlink_ended (pg_netlink p) \<and> Watchdog (d_state d) = None
          \<and> running_watchdogs (d_trace d) [] = [])
     \<and> (w_main w \<noteq> Exited \<or> done_closed (mt_state m) \<and> dying (nl_comp (pg_netlink p))
          \<and> (\<forall>i. count_list (mt_trace m) (CloseOutput i) = count_list (mt_trace m) (OpenOutput i)))"
proof -
  have inv: "whole_inv L ncfg cb cfgs mcfg w" and pos: "list_all positive_interval mcfg"
    using whole.reach_inv [OF assms] by simp_all
  then have pos': "in_position w" and d: "daemon_inv (w_daemon w)"
    and m: "metrics_inv (mt_state (w_metrics w))" "outputs_inv (mt_trace (w_metrics w)) (exporters (mt_state (w_metrics w)))"
    and att: "installations_attended (pg_gateways (w_program w))"
    using daemon_reachD metrics_reach_inv [OF _ pos]
    by (auto simp: whole_inv_def program_ok_def metrics_run_inv_def)
  have closed: "done_closed (mt_state (w_metrics w)) \<longleftrightarrow> 4 \<le> stage (w_main w)"
    using pos' m(1) by (auto simp: in_position_def Let_def metrics_inv_def reporter_at_def)
  have "filter pending (exporters (mt_state (w_metrics w))) = []" if "w_main w = Exited"
    using pos' m(1) that by (auto simp: in_position_def Let_def metrics_inv_def reporter_at_def count_pending_def)
  then have "count_list (mt_trace (w_metrics w)) (CloseOutput i) = count_list (mt_trace (w_metrics w)) (OpenOutput i)"
    if "w_main w = Exited" for i
    using that m(2) nth_mem by (fastforce simp: outputs_inv_def filter_empty_conv)
  with pos' closed d stopped_idle [OF att] show ?thesis
    by (auto simp: in_position_def Let_def daemon_inv_def Watchdog_def)
qed

text \<open>
  C6. The command can return unless a SIGHUP was the first signal. Take any state of a run in which
  the command waits for the termination, nothing has crashed and every gateway has a goroutine that runs. If
  the termination was asked for, or the goroutine of the daemon component has not read a signal and the one it will
  read is not a SIGHUP, there is a continuation in which all components stop and the command returns. Otherwise
  there is none: whatever happens from then on, every signal included, the command keeps waiting, and the
  process is not ended by a signal either.
\<close>

theorem command_ends_unless_muted:
  assumes "reach (sound_start L ncfg cb cfgs mcfg) (whole_step L cb) w" and "w_main w = AwaitingTermination"
    and "process_runs w" and "attended (pg_gateways (w_program w))"
  shows "if may_terminate (d_state (w_daemon w))
    then \<exists>es t. execution (whole_step L cb) w es t \<and> w_main t = Exited
    else \<forall>es t. execution (whole_step L cb) w es t \<longrightarrow>
      w_main t = AwaitingTermination \<and> \<not> terminated (d_state (w_daemon t)) \<and> \<not> killed (d_state (w_daemon t))"
proof -
  have inv: "whole_inv L ncfg cb cfgs mcfg w" and pos: "list_all positive_interval mcfg"
    using whole.reach_inv [OF assms(1)] by simp_all
  have d: "daemon_reach (w_daemon w)" "\<not> killed (d_state (w_daemon w))"
    using inv assms(3) by (simp_all add: whole_inv_def process_runs_def)
  have "sound_state L ncfg cb cfgs mcfg w" using inv pos assms(3) by (simp add: sound_state_def)
  from awaiting_can_end [OF this assms(2) _ assms(4)] muted_iff [OF d] muted_whole [of L cb w] assms(2)
  show ?thesis by (auto simp: muted_def)
qed

section \<open>An example\<close>

definition started_metrics :: metrics_run where
  "started_metrics = the (metrics_do (StartMetrics all_well) (metrics_init one_file))"

lemma started_metrics_state:
  "metrics_reach one_file started_metrics" "main (mt_state started_metrics) = Started" "mt_phase started_metrics = Running"
proof -
  show "metrics_reach one_file started_metrics"
    by (rule metrics_do_reach [OF metrics_reach_init, where ev = "StartMetrics all_well"])
       (simp_all add: started_metrics_def metrics_eval disciplined_def)
qed (simp_all add: started_metrics_def metrics_eval)

definition started_daemon :: daemon_run where
  "started_daemon = the (daemon_do (StartDaemon (Inr 0)) daemon_init)"

lemma started_daemon_state:
  "daemon_reach started_daemon" "d_state started_daemon = New_daemon\<lparr>waiter := waiter.Spawned\<rparr>"
  "d_phase started_daemon = Running"
proof -
  have "daemon_exec [StartDaemon (Inr 0)] daemon_init = Some started_daemon"
    by (simp add: started_daemon_def daemon_eval)
  then show "daemon_reach started_daemon" by (rule daemon_exec_reach [OF daemon_reach_init, rotated]) (simp add: plausible_def)
qed (simp_all add: started_daemon_def daemon_eval)

text \<open>The example program with a daemon component.\<close>

definition example_whole :: "daemon_run \<Rightarrow> nat whole" where
  "example_whole d = \<lparr>w_main = AwaitingTermination, w_program = example_program, w_daemon = d, w_metrics = started_metrics\<rparr>"

lemma example_whole_start:
  assumes "daemon_reach d" and "waiter (d_state d) \<noteq> waiter.NotStarted"
  shows "sound_start plain_lib DefaultConfiguration 7 [example_config] one_file (example_whole d)"
  using assms example_program_start started_metrics_state one_file_positive
  by (simp add: sound_start_def whole_start_def example_whole_def)

lemma example_whole_runs:
  assumes "d_phase d = Running" and "\<not> killed (d_state d)"
  shows "process_runs (example_whole d)" "attended (pg_gateways (w_program (example_whole d)))"
proof -
  have "nl_phase subscribed_run = Running"
    using subscribed_run_eq
    by (auto simp: nl_do_def nl_may_def nl_next_def nl_init_def Subscribe_def newObserver_def netlink_New_def
        close_signal_def go_return_def split: if_splits) (erule subst, simp)
  then show "process_runs (example_whole d)" "attended (pg_gateways (w_program (example_whole d)))"
    using assms example_program_healthy(1) started_metrics_state(3)
    by (simp_all add: process_runs_def example_whole_def) (simp add: example_program_def)
qed

lemma example_whole_ends: "\<exists>t. leads plain_lib 7 (example_whole started_daemon) t \<and> w_main t = Exited"
proof (rule awaiting_can_end)
  note runs = example_whole_runs [of started_daemon] and d = started_daemon_state
  show "sound_state plain_lib DefaultConfiguration 7 [example_config] one_file (example_whole started_daemon)"
    using whole.inv_start [OF example_whole_start [OF d(1)]] runs(1) d(2,3) by (simp add: sound_state_def New_daemon_def)
  show "may_terminate (d_state (w_daemon (example_whole started_daemon)))"
    by (simp add: example_whole_def d(2) may_terminate_def New_daemon_def)
  show "attended (pg_gateways (w_program (example_whole started_daemon)))"
    using runs(2) d(2,3) by (simp add: New_daemon_def)
qed (simp add: example_whole_def)

theorem shutdown_in_order_witness:
  "\<exists>es t. execution (whole_step plain_lib 7) (example_whole started_daemon) es t \<and> w_main t = Exited
     \<and> stopped_all (pg_gateways (w_program t)) \<and> netlink_ended (pg_netlink (w_program t))
     \<and> Watchdog (d_state (w_daemon t)) = None
     \<and> count_list (mt_trace (w_metrics t)) (CloseOutput 0) = count_list (mt_trace (w_metrics t)) (OpenOutput 0)"
proof -
  obtain es t where t: "execution (whole_step plain_lib 7) (example_whole started_daemon) es t" "w_main t = Exited"
    using example_whole_ends by blast
  have start: "sound_start plain_lib DefaultConfiguration 7 [example_config] one_file (example_whole started_daemon)"
    by (rule example_whole_start) (simp_all add: started_daemon_state New_daemon_def)
  from shutdown_in_order [OF execution_reach [where start = "sound_start plain_lib DefaultConfiguration 7 [example_config] one_file", OF t(1) start]]
  show ?thesis using t by (intro exI [of _ es] exI [of _ t]) (auto simp: Let_def)
qed

theorem command_ends_unless_muted_witness:
  "(\<exists>es t. execution (whole_step plain_lib 7) (example_whole started_daemon) es t \<and> w_main t = Exited)
   \<and> (\<nexists>es t. execution (whole_step plain_lib 7) (example_whole hup_run) es t \<and> w_main t = Exited)"
proof -
  have reach: "reach (sound_start plain_lib DefaultConfiguration 7 [example_config] one_file) (whole_step plain_lib 7) (example_whole d)"
    if "daemon_reach d" "waiter (d_state d) \<noteq> waiter.NotStarted" for d
    by (rule reach_start) (rule example_whole_start [OF that])
  have "reach (sound_start plain_lib DefaultConfiguration 7 [example_config] one_file) (whole_step plain_lib 7) (example_whole started_daemon)"
    by (rule reach) (simp_all add: started_daemon_state New_daemon_def)
  note 1 = command_ends_unless_muted [OF this _ example_whole_runs]
  have "reach (sound_start plain_lib DefaultConfiguration 7 [example_config] one_file) (whole_step plain_lib 7) (example_whole hup_run)"
    by (rule reach [OF hup_run_reach]) (simp add: hup_run_def)
  note 2 = command_ends_unless_muted [OF this _ example_whole_runs]
  have "may_terminate (d_state (w_daemon (example_whole started_daemon)))" "\<not> may_terminate (d_state (w_daemon (example_whole hup_run)))"
    by (simp_all add: may_terminate_def example_whole_def started_daemon_state New_daemon_def hup_run_def)
  with 1 2 show ?thesis
    by (auto simp: started_daemon_state New_daemon_def hup_run_def example_whole_def)
qed

end
