(* ===== verification/Daemon_Hang.thy ===== *)
theory Daemon_Hang
  imports Daemon_End
begin

text \<open>
  The \<^verbatim>\<open>daemon\<close> command may hang (\<^verbatim>\<open>src/cmd/daemon.go\<close>, \<^verbatim>\<open>src/gateways/gateway.go\<close>): the termination
  finds the goroutine of the netlink component in the callback, waiting for room in the channel of a gateway.
\<close>

section \<open>A run to a full channel\<close>

lemma no_command_steps:
  assumes "execution (program_step L cb) p es q" and "program_ok L ncfg cb cfgs p"
    and "alive (gr_comp (pg_gateways q))" and "\<not> dying (nl_comp (pg_netlink q))"
  shows "list_all (\<lambda>e. \<not> by_command e) es \<and> program_ok L ncfg cb cfgs q"
  using assms
proof (induction rule: execution.induct)
  case (execution_snoc p es q e r)
  have "program_ok L ncfg cb cfgs q"
    using execution_snoc.hyps(1) execution_snoc.prems(1)
    by (induction rule: execution.induct) (auto intro: program_ok_step)
  note frame = program_ok_frame [OF this execution_snoc.hyps(2)] program_ok_step [OF this execution_snoc.hyps(2)]
  with execution_snoc.prems have "alive (gr_comp (pg_gateways q))" "\<not> dying (nl_comp (pg_netlink q))"
    and e: "e \<noteq> GatewaysStep StopAll" "e \<noteq> NetlinkStep Kill" by simp_all
  with execution_snoc.IH execution_snoc.prems(1) have "list_all (\<lambda>e. \<not> by_command e) es" by simp
  moreover have "\<not> by_command e"
    using e by (auto simp: by_command_def split: program_event.splits nl_event.splits gateways_event.splits)
  ultimately show ?case using frame by simp
qed simp

text \<open>The callback waits for room in the channel of a gateway.\<close>

definition pushing_to_full :: "'x gateways_run \<Rightarrow> bool" where
  "pushing_to_full s \<longleftrightarrow> (case gr_callback s of Some (n, gw # gws) \<Rightarrow>
     channel_capacity \<le> length (queue (gr_comp s) (gw_state gw)) | _ \<Rightarrow> False)"

lemma pushing_cong:
  "gr_callback t = gr_callback s \<Longrightarrow> queue (gr_comp t) = queue (gr_comp s) \<Longrightarrow> pushing_to_full t = pushing_to_full s"
  by (auto simp: pushing_to_full_def split: option.splits list.splits)

lemma stuck_iff: "stuck s \<longleftrightarrow> list_all (\<lambda>w. snd w = Returned) (gr_workers s) \<and> pushing_to_full s"
  by (simp add: stuck_def pushing_to_full_def)

lemma runs_into_full_channel:
  assumes start: "whole_start L ncfg cb cfgs mcfg w" and run: "process_runs w"
  shows "\<exists>q. leads L cb w (w\<lparr>w_program := q\<rparr>) \<and> process_runs (w\<lparr>w_program := q\<rparr>)
    \<and> pushing_to_full (pg_gateways q) \<and> nl_phase (pg_netlink q) = Running"
proof -
  let ?p = "w_program w" and ?ns = "replicate channel_capacity start_of_rib"
  have p: "program_start L ncfg cb cfgs ?p" "cfgs \<noteq> []" and inv: "whole_inv L ncfg cb cfgs mcfg w"
    using start whole_start_inv [OF start] by (simp_all add: whole_start_def)
  then have g: "gateways_start cfgs (pg_gateways ?p)" and out: "pg_outbox ?p = []"
    and sub: "documented_step L (nl_init ncfg) (AddSubscriber (Some cb)) (pg_netlink ?p)"
    by (simp_all add: program_start_def)
  have ok: "program_ok L ncfg cb cfgs ?p" using inv by (simp add: whole_inv_def)
  obtain es t gw gws where t: "execution (gateways_step L) (pg_gateways ?p) es t" "alive (gr_comp t)" "no_panic t"
      "gr_callback t = Some (start_of_rib, gw # gws)" "queue (gr_comp t) (gw_state gw) = ?ns"
      "entered es = ?ns @ [start_of_rib]"
    using full_run [OF g p(2), of ?ns L start_of_rib] by auto
  have "refusing cb ?p"
    using sub out by (auto simp: refusing_def documented_step_def waiting_def subscribed_to_def elim!: nl_step.cases)
      (auto simp: nl_next_def nl_init_def netlink_New_def Subscribe_def newObserver_def close_signal_def)
  moreover have "set (entered es) \<subseteq> {start_of_rib}" unfolding t(6) by auto
  ultimately obtain evs q where q: "execution (program_step L cb) ?p evs q" "refusing cb q" "pg_gateways q = t"
      "dying (nl_comp (pg_netlink q)) = dying (nl_comp (pg_netlink ?p))"
    using fed_run [OF t(1)] by blast
  have "\<not> dying (nl_comp (pg_netlink ?p))"
    using inv start by (simp add: whole_inv_def whole_start_def in_position_def Let_def)
  with no_command_steps [OF q(1) ok] q(3,4) t(2)
  have c: "list_all (\<lambda>e. \<not> by_command e) evs" "program_ok L ncfg cb cfgs q" by simp_all
  note others = process_runs_others [OF run]
  from program_run_in_whole [OF q(1) ok c(1), of w] others have "leads L cb w (w\<lparr>w_program := q\<rparr>)" by simp
  moreover have "process_runs (w\<lparr>w_program := q\<rparr>)"
    using process_runsI [of "w\<lparr>w_program := q\<rparr>"] others c(2) q(3) t(3) by (auto simp: others_run_def)
  ultimately show ?thesis using q(2,3) t(4,5) by (auto simp: pushing_to_full_def refusing_def waiting_def)
qed

section \<open>The shutdown from there\<close>

lemma stop_while_full:
  assumes s: "sound_state L ncfg cb cfgs mcfg w"
    and at: "w_main w = AwaitingTermination" "terminated (d_state (w_daemon w))"
    and full: "pushing_to_full (pg_gateways (w_program w))" "nl_phase (pg_netlink (w_program w)) = Running"
  obtains t where "leads L cb w t" "sound_state L ncfg cb cfgs mcfg t" "w_main t = StoppingNetlink"
    "hung (w_program t)" "w_daemon t = w_daemon w"
proof -
  from gateways_told [OF s at] obtain w2 where
    2: "leads L cb w w2" "sound_state L ncfg cb cfgs mcfg w2" "w_main w2 = StoppingGateways" "carried_on w w2" .
  from gateways_return [OF 2(2,3)] obtain w3 where
    3: "leads L cb w2 w3" "sound_state L ncfg cb cfgs mcfg w3" "w_main w3 = StoppingGateways" "carried_on w2 w3"
      "stopped_all (pg_gateways (w_program w3))" .
  from netlink_told [OF 3(2,3,5)] obtain t where
    t: "leads L cb w3 t" "sound_state L ncfg cb cfgs mcfg t" "w_main t = StoppingNetlink" "carried_on w3 t" .
  have same: "carried_on w t" using 2(4) 3(4) t(4) by (simp add: carried_on_def)
  have "stopped_all (pg_gateways (w_program t))" using sound_stateD(7) [OF t(2)] t(3) by (simp add: in_position_def Let_def)
  moreover have "pushing_to_full (pg_gateways (w_program t))"
    using full(1) pushing_cong [of "pg_gateways (w_program t)" "pg_gateways (w_program w)"] same by (simp add: carried_on_def)
  ultimately have "hung (w_program t)" using full(2) same by (simp add: hung_def stuck_iff stopped_all_def carried_on_def)
  moreover have "leads L cb w t" by (rule leads_trans [OF 2(1) leads_trans [OF 3(1) t(1)]])
  ultimately show thesis using that t(2,3) same by (simp add: carried_on_def)
qed

lemma hung_whole_step:
  assumes step: "whole_step L cb w e t" and inv: "whole_inv L ncfg cb cfgs mcfg w"
    and at: "w_main w = StoppingNetlink" "hung (w_program w)"
  shows "w_main t = StoppingNetlink \<and> hung (w_program t)"
  using step
proof cases
  case command
  have "\<not> netlink_ended (pg_netlink (w_program w))" using at(2) by (simp add: hung_def netlink_ended_def)
  with at(1) command(3) show ?thesis by (auto elim: main_stepE)
next
  case (components f q)
  have "nl_reach L ncfg (pg_netlink (w_program w))" using inv by (auto simp: whole_inv_def program_ok_def program_inv_def)
  from hung_step [OF components(5) at(2) this] components(2) at(1) show ?thesis by simp
qed (use at in simp_all)

lemma hung_whole:
  assumes "execution (whole_step L cb) w es t" and "whole_inv L ncfg cb cfgs mcfg w" and "list_all positive_interval mcfg"
    and "w_main w = StoppingNetlink" "hung (w_program w)"
  shows "w_main t = StoppingNetlink \<and> hung (w_program t)"
proof -
  have "whole_inv L ncfg cb cfgs mcfg t \<and> w_main t = StoppingNetlink \<and> hung (w_program t)"
    using assms by (induction rule: execution.induct) (auto dest: hung_whole_step intro: whole_step_inv)
  then show ?thesis by simp
qed

text \<open>A signal that is not routed to a channel ends the process.\<close>

lemma default_action:
  assumes "process_runs t" and "\<not> routed (d_state (w_daemon t))"
  shows "\<exists>v. whole_step L cb t (DaemonEvent (OsSignal sg)) v \<and> killed (d_state (w_daemon v)) \<and> \<not> process_runs v"
proof -
  let ?d = "w_daemon t"
  let ?u = "?d\<lparr>d_state := (d_state ?d)\<lparr>killed := True\<rparr>, d_trace := d_trace ?d @ []\<rparr>"
  have "plausible_step ?d (OsSignal sg) ?u"
    by (intro plain_daemon_step)
      (use assms in \<open>simp_all add: process_runs_def daemon_next_def deliver_def go_return_def plausible_def\<close>)
  from whole_step.signals [OF assms(1) _ this, of L cb]
  show ?thesis by (intro exI [of _ "t\<lparr>w_daemon := ?u\<rparr>"]) (simp add: signal_event_def process_runs_def)
qed

text \<open>
  C7. The command may hang on its way out, for every configuration and at every start whose daemon
  component can still be told to terminate: there is a run in which the termination is asked for, the
  gateways are stopped and the netlink component is told to stop, and from then on, whatever happens,
  the command is inside the \<^verbatim>\<open>Stop\<close> of the netlink component. The goroutine it waits for is in the
  callback, waiting for room in a channel that nobody reads any more, so what is to be stopped after it never
  is. Unless the termination had been asked for before, the run has it asked by a signal, and a
  further signal takes its default action, which ends the process.
\<close>

theorem command_may_hang:
  assumes "sound_start L ncfg cb cfgs mcfg w" and "process_runs w" and "may_terminate (d_state (w_daemon w))"
  shows "\<exists>es t. execution (whole_step L cb) w es t \<and> process_runs t
    \<and> terminated (d_state (w_daemon t)) \<and> stopped_all (pg_gateways (w_program t)) \<and> dying (nl_comp (pg_netlink (w_program t)))
    \<and> (\<forall>fs u. execution (whole_step L cb) t fs u \<longrightarrow> w_main u = StoppingNetlink)
    \<and> (terminated (d_state (w_daemon w)) \<or>
        (\<forall>sg. \<exists>u. whole_step L cb t (DaemonEvent (OsSignal sg)) u \<and> killed (d_state (w_daemon u)) \<and> \<not> process_runs u))"
proof -
  have start: "whole_start L ncfg cb cfgs mcfg w" and pos: "list_all positive_interval mcfg"
    using assms(1) by (simp_all add: sound_start_def)
  note inv = whole_start_inv [OF start]
  have d: "daemon_reach (w_daemon w)" "waiter (d_state (w_daemon w)) \<noteq> waiter.NotStarted" and at: "w_main w = AwaitingTermination"
    using start by (simp_all add: whole_start_def)
  from runs_into_full_channel [OF start assms(2)] obtain q where
    q: "leads L cb w (w\<lparr>w_program := q\<rparr>)" "process_runs (w\<lparr>w_program := q\<rparr>)" "pushing_to_full (pg_gateways q)"
      "nl_phase (pg_netlink q) = Running" by blast
  from terminating_run [OF d(1) _ _ d(2) assms(3)] assms(2) obtain es u where
    u: "execution plausible_step (w_daemon w) es u" "list_all signal_event es" "terminated (d_state u)"
      "d_phase u = Running" "\<not> killed (d_state u)" "terminated (d_state (w_daemon w)) \<or> \<not> routed (d_state u)"
    by (auto simp: process_runs_def)
  let ?w = "w\<lparr>w_program := q, w_daemon := u\<rparr>"
  have lead: "leads L cb w ?w" using daemon_run_in_whole [OF u(1,2) q(2)] q(1) leads_trans by fastforce
  have "process_runs ?w" using q(2) u(4,5) by (simp add: process_runs_def)
  with leads_inv [OF lead inv pos] pos have "sound_state L ncfg cb cfgs mcfg ?w" by (simp add: sound_state_def)
  from stop_while_full [OF this] at u(3) q(3,4) obtain t where
    t: "leads L cb ?w t" "sound_state L ncfg cb cfgs mcfg t" "w_main t = StoppingNetlink" "hung (w_program t)" "w_daemon t = u"
    by auto
  note s = sound_stateD [OF t(2)]
  have "stopped_all (pg_gateways (w_program t))" "dying (nl_comp (pg_netlink (w_program t)))"
    using s(7) t(3) by (simp_all add: in_position_def Let_def)
  moreover have "\<forall>fs v. execution (whole_step L cb) t fs v \<longrightarrow> w_main v = StoppingNetlink"
    using hung_whole [OF _ s(1) pos t(3,4)] by blast
  moreover have "\<exists>v. whole_step L cb t (DaemonEvent (OsSignal sg)) v \<and> killed (d_state (w_daemon v)) \<and> \<not> process_runs v"
    if "\<not> terminated (d_state (w_daemon w))" for sg
    using default_action [OF s(3), of L cb sg] that u(6) t(5) by simp
  moreover obtain es' where "execution (whole_step L cb) w es' t" using leads_trans [OF lead t(1)] by blast
  ultimately show ?thesis using s(3) u(3) t(5) by (intro exI [of _ es'] exI [of _ t]) auto
qed

theorem command_may_hang_witness:
  "\<exists>es t. execution (whole_step plain_lib 7) (example_whole started_daemon) es t \<and> w_main t = StoppingNetlink
     \<and> (\<forall>fs u. execution (whole_step plain_lib 7) t fs u \<longrightarrow> w_main u = StoppingNetlink)
     \<and> (\<exists>u. whole_step plain_lib 7 t (DaemonEvent (OsSignal SIGINT)) u \<and> killed (d_state (w_daemon u)))"
proof -
  have start: "sound_start plain_lib DefaultConfiguration 7 [example_config] one_file (example_whole started_daemon)"
    by (rule example_whole_start) (simp_all add: started_daemon_state New_daemon_def)
  have d: "process_runs (example_whole started_daemon)" "may_terminate (d_state (w_daemon (example_whole started_daemon)))"
      "\<not> terminated (d_state (w_daemon (example_whole started_daemon)))"
    by (rule example_whole_runs)
      (simp_all add: may_terminate_def example_whole_def started_daemon_state New_daemon_def)
  from command_may_hang [OF start d(1,2)] d(3) obtain es t where
    t: "execution (whole_step plain_lib 7) (example_whole started_daemon) es t"
      "\<forall>fs u. execution (whole_step plain_lib 7) t fs u \<longrightarrow> w_main u = StoppingNetlink"
      "\<exists>u. whole_step plain_lib 7 t (DaemonEvent (OsSignal SIGINT)) u \<and> killed (d_state (w_daemon u))" by blast
  with execution_nil [of "whole_step plain_lib 7" t] show ?thesis by blast
qed

end
