(* ===== verification/Netlink_Resync.thy ===== *)
theory Netlink_Resync
  imports Netlink_Properties
begin

text \<open>
  Recovery of the netlink component: a measure shows that with a kernel that answers, the steps
  the component takes on its own are finitely many, and since it never hangs they end with the
  subscriber in sync, from every reachable state.
\<close>

section \<open>A kernel that answers\<close>

definition healthy :: "'x kernel \<Rightarrow> bool" where
  "healthy K \<longleftrightarrow> subscribe_answer K = None \<and> (\<forall>f. \<exists>rs. list_answer K f = Inr rs) \<and> real_kernel K"

lemma healthy_kernel_with [simp]:
  "healthy (kernel_with rs4 rs6) \<longleftrightarrow> list_all real_route rs4 \<and> list_all real_route rs6"
  by (auto simp: healthy_def) (simp_all add: kernel_with_def)

definition healthy_step :: "'x netlink_lib \<Rightarrow> 'x netlink_run \<Rightarrow> 'x netlink_run \<Rightarrow> bool" where
  "healthy_step L s t \<longleftrightarrow> (\<exists>K ev. healthy K \<and> own_step K ev \<and> nl_step L s ev t)"

section \<open>The measure\<close>

text \<open>
  First, whether the current live channel is already lost (or there is none); then how far the
  synchronisation is; then what is left to inject, to close and to read.
\<close>

definition live_lost :: "'x netlink \<Rightarrow> bool" where
  "live_lost c \<longleftrightarrow> fsm c = idle \<or> fsm c = updateRoutes \<and> transitionTick c \<noteq> None
     \<or> (case liveUpdates c of None \<Rightarrow> True | Some a \<Rightarrow> closed (channels c ! a))"

definition rank :: "'x netlink \<Rightarrow> nat" where
  "rank c = (case fsm c of idle \<Rightarrow> 1 | ipv4Routes \<Rightarrow> 5 | ipv6Routes \<Rightarrow> 4
     | updateRoutes \<Rightarrow> if transitionTick c = None then 3 else 2)"

definition left :: "'x netlink \<Rightarrow> nat" where
  "left c = sum_list (map (\<lambda>j. 3 * length (todo j) + (if at j = Head then 1 else 0)) (injectors c))
     + (case updates c of None \<Rightarrow> 0
        | Some a \<Rightarrow> length (buf (channels c ! a)) + (if closed (channels c ! a) then 0 else 1))"

definition sync_measure :: "'x netlink \<Rightarrow> nat \<times> nat \<times> nat" where
  "sync_measure c = (if live_lost c then 1 else 0, rank c, left c)"

definition closer :: "'x netlink \<Rightarrow> 'x netlink \<Rightarrow> bool" where
  "closer c' c \<longleftrightarrow> (sync_measure c', sync_measure c) \<in> less_than <*lex*> less_than <*lex*> less_than"

lemma closerI:
  "live_lost c \<Longrightarrow> \<not> live_lost c' \<Longrightarrow> closer c' c"
  "live_lost c' = live_lost c \<Longrightarrow> rank c' < rank c \<Longrightarrow> closer c' c"
  "live_lost c' = live_lost c \<Longrightarrow> rank c' = rank c \<Longrightarrow> left c' < left c \<Longrightarrow> closer c' c"
  by (simp_all add: closer_def sync_measure_def)

lemma wf_closer: "wf {(c', c). closer c' c}"
proof -
  have eq: "{(c', c). closer c' c} = inv_image (less_than <*lex*> less_than <*lex*> less_than) sync_measure"
    by (auto simp: closer_def inv_image_def)
  show ?thesis unfolding eq by (intro wf_inv_image wf_lex_prod wf_less_than)
qed

text \<open>A piece of code continues the loop, closer to the end, unless it panics.\<close>

definition closes_in :: "('x nl_effect, 'x nl_result) go \<Rightarrow> 'x netlink \<Rightarrow> bool" where
  "closes_in m c \<longleftrightarrow> (\<forall>r es. m = Inr (r, es) \<longrightarrow> (\<exists>c'. r = Next c' \<and> closer c' c))"

lemma healthy_start:
  assumes "healthy K"
  obtains rs es where "transition_start K c = Inr ((None, c\<lparr>fsm := ipv4Routes,
       liveUpdates := Some (length (channels c)), updates := Some (Suc (length (channels c))),
       subscribeError := None,
       channels := channels c @ [\<lparr>buf = [], closed = False\<rparr>, \<lparr>buf = [], closed = False\<rparr>],
       subscriptions := subscriptions c @ [(length (channels c), False)],
       injectors := injectors c @ [\<lparr>inj_family = FAMILY_V4, todo = rs, at = Head\<rparr>]\<rparr>), es)"
proof -
  from assms obtain rs where "subscribe_answer K = None" "list_answer K FAMILY_V4 = Inr rs"
    by (auto simp: healthy_def)
  then have "\<exists>es. transition_start K c = Inr ((None, c\<lparr>fsm := ipv4Routes,
       liveUpdates := Some (length (channels c)), updates := Some (Suc (length (channels c))),
       subscribeError := None,
       channels := channels c @ [\<lparr>buf = [], closed = False\<rparr>, \<lparr>buf = [], closed = False\<rparr>],
       subscriptions := subscriptions c @ [(length (channels c), False)],
       injectors := injectors c @ [\<lparr>inj_family = FAMILY_V4, todo = rs, at = Head\<rparr>]\<rparr>), es)"
    by (simp add: transition_start_def make_chan_def injectRoutes_def notify_all_def Let_def
        go_bind_def go_emit_def go_return_def)
  with that show ?thesis by blast
qed

lemma healthy_ipv4:
  assumes "healthy K"
  obtains rs es where "transition_ipv4 K c = Inr ((None, c\<lparr>fsm := ipv6Routes,
       updates := Some (length (channels c)),
       channels := channels c @ [\<lparr>buf = [], closed = False\<rparr>],
       injectors := injectors c @ [\<lparr>inj_family = FAMILY_V6, todo = rs, at = Head\<rparr>]\<rparr>), es)"
proof -
  from assms obtain rs where "list_answer K FAMILY_V6 = Inr rs" by (auto simp: healthy_def)
  then have "\<exists>es. transition_ipv4 K c = Inr ((None, c\<lparr>fsm := ipv6Routes,
       updates := Some (length (channels c)),
       channels := channels c @ [\<lparr>buf = [], closed = False\<rparr>],
       injectors := injectors c @ [\<lparr>inj_family = FAMILY_V6, todo = rs, at = Head\<rparr>]\<rparr>), es)"
    by (simp add: transition_ipv4_def make_chan_def injectRoutes_def Let_def
        go_bind_def go_emit_def go_return_def)
  with that show ?thesis by blast
qed

lemma live_bound: "basic c \<Longrightarrow> liveUpdates c = Some a \<Longrightarrow> a < length (channels c)"
  by (simp add: basic_def)

lemma tick_closer:
  assumes g: "good c \<sigma>" and h: "healthy K" and t: "transitionTick c = Some t"
  shows "closes_in (case_transition_tick K c) c"
proof -
  note gd = goodD [OF g]
  note ticker = basic_ticker [OF gd(1) t]
  show ?thesis
  proof (cases "fsm c")
    case updateRoutes
    show ?thesis using updateRoutes t
      by (rule_tac healthy_start [OF h, of c])
         (auto simp: closes_in_def case_transition_tick_def transition_def go_bind_def halt_ticker_def
           go_emit_def go_return_def ticker live_lost_def nth_append intro!: closerI(1))
  next
    case ipv4Routes
    with gd(2) t have "live_open c" by (auto simp: shape_def abandoned_def dumping_def)
    then obtain a where a: "liveUpdates c = Some a" "a < length (channels c)"
      using live_bound [OF gd(1)] by (auto simp: live_open_def)
    show ?thesis using ipv4Routes t
      by (rule_tac healthy_ipv4 [OF h, of c])
         (auto simp: closes_in_def case_transition_tick_def transition_def go_bind_def halt_ticker_def
           go_emit_def go_return_def ticker live_lost_def a nth_append rank_def intro!: closerI(2))
  qed (use gd t in \<open>auto simp: shape_def abandoned_def\<close>)
qed

lemma subscribed_closer:
  assumes g: "good c \<sigma>" and h: "healthy K" and s: "subscribed (obs c) = Closed"
  shows "closes_in (case_subscribed K c) c"
proof -
  have "fsm c = idle" "transitionTick c = None" using g s by (auto simp: good_def shape_def)
  then show ?thesis
    by (rule_tac healthy_start [OF h, of c])
       (auto simp: closes_in_def case_subscribed_def transition_def go_bind_def go_return_def
         live_lost_def nth_append intro!: closerI(1))
qed

lemma closed_closer:
  assumes g: "good c \<sigma>" and h: "healthy K" and a: "updates c = Some a"
    and cl: "closed (channels c ! a)" and e: "buf (channels c ! a) = []"
  shows "closes_in (case_closed K c) c"
proof -
  note gd = goodD [OF g]
  have np: "\<not> parked c" "\<not> abandoned c \<sigma>" using a cl by (auto simp: parked_def fresh_def abandoned_def)
  show ?thesis
  proof (cases "fsm c")
    case idle
    with gd np show ?thesis by (simp add: shape_def)
  next
    case ipv4Routes
    with gd(2) np have "transitionTick c = None" "live_open c"
      by (auto simp: shape_def dumping_def split: if_splits)
    moreover then obtain b where b: "liveUpdates c = Some b" "b < length (channels c)"
      using live_bound [OF gd(1)] by (auto simp: live_open_def)
    ultimately show ?thesis using ipv4Routes
      by (rule_tac healthy_ipv4 [OF h, of "c\<lparr>updates := None\<rparr>"])
         (auto simp: closes_in_def case_closed_def Let_def transition_def go_bind_def
           go_return_def live_lost_def nth_append rank_def intro!: closerI(2))
  next
    case ipv6Routes
    with gd(2) np have "transitionTick c = None" by (auto simp: shape_def)
    with ipv6Routes show ?thesis
      by (auto simp: closes_in_def case_closed_def Let_def transition_def transition_ipv6_def
          notify_all_def go_bind_def go_emit_def go_return_def live_lost_def rank_def
          split: option.splits intro!: closerI(2))
  next
    case updateRoutes
    with gd(2) np have sh: "transitionTick c = None" "updates c = liveUpdates c"
      by (auto simp: shape_def split: if_splits)
    with a have "liveUpdates c = Some a" by simp
    with cl have "live_lost c" by (simp add: live_lost_def)
    have "closer c' c" if "fsm c' = updateRoutes" "transitionTick c' \<noteq> None" for c'
      using that sh updateRoutes \<open>live_lost c\<close>
      by (intro closerI(2)) (simp_all add: live_lost_def rank_def)
    with updateRoutes sh(1) show ?thesis
      by (auto simp: closes_in_def case_closed_def Let_def report_lost_updates_def report_fatal_def
          sleep_before_transition_def arm_transition_def arm_cure_def go_bind_def go_emit_def go_return_def
          go_panic_def split: option.splits nl_error.splits if_splits sum.splits)
  qed
qed

section \<open>Every own step\<close>

lemma update_closer:
  assumes "real_route (ru_Route u)"
  shows "case_update K u c = Inr (r, es) \<Longrightarrow> r = Next c"
  using assms by (auto simp: case_update_def real_route_def notify_all_def go_bind_def go_emit_def)

lemma pop_closer:
  assumes a: "updates c = Some a" "a < length (channels c)" and q: "buf (channels c ! a) = u # q"
  shows "closer (c\<lparr>channels := (channels c)[a := (channels c ! a)\<lparr>buf := q\<rparr>]\<rparr>) c"
  using assms
  by (intro closerI(3); cases "fsm c"; cases "liveUpdates c") (simp_all add: live_lost_def rank_def left_def)

lemma receive_closer:
  assumes g: "good c \<sigma>" and h: "healthy K" and r: "receive L c = Some (u, c')"
  shows "closes_in (case_update K u c') c"
proof -
  from r obtain a where a: "updates c = Some a" by (auto simp: receive_def split: option.splits)
  show ?thesis
  proof (cases "buf (channels c ! a)")
    case Nil
    with a r have "closed (channels c ! a)" "u = zero_update L" "c' = c"
      by (auto simp: receive_def split: if_splits)
    with closed_closer [OF g h a _ Nil] show ?thesis
      by (simp add: case_update_def zero_update_def RT_TABLE_UNSPEC_def)
  next
    case (Cons v q)
    with a r have u: "u = v" "c' = c\<lparr>channels := (channels c)[a := (channels c ! a)\<lparr>buf := q\<rparr>]\<rparr>"
      by (auto simp: receive_def)
    have np: "\<not> parked c" using a Cons by (auto simp: parked_def fresh_def)
    have len: "a < length (channels c)"
      using goodD(1,2) [OF g] np a unfolding shape_def basic_def
      by (cases "fsm c") (auto simp: feeding_def abandoned_def split: if_splits)
    from update_closer [OF pop_accepts(2) [OF g a Cons]] pop_closer [OF a len Cons]
    show ?thesis unfolding closes_in_def u by blast
  qed
qed

lemma own_step_closer:
  assumes g: "good c \<sigma>" and h: "healthy K" and o: "own_step K ev" and n: "nl_next L ev c = Some m"
  shows "closes_in m c"
proof -
  have K: "real_kernel K" using h by (simp add: healthy_def)
  have inj: ?thesis if i: "i < length (injectors c)"
      and ev: "ev \<in> {InjSelect i, InjSend i, InjClose i, InjHandoff i K}" for i
  proof -
    obtain a j where "fed c \<sigma> a j" and i0: "i = 0" by (rule injector_facts [OF g i])
    note f = fedD [OF this(1)] i0
    then have at: "at j = Head \<or> at j = Sending (Some a)" by (auto simp: feeds_def)
    have frame: "closer (c\<lparr>channels := chs, injectors := js\<rparr>) c"
      if "length chs = length (channels c)" "\<And>b. b \<noteq> a \<Longrightarrow> chs ! b = channels c ! b"
        "left (c\<lparr>channels := chs, injectors := js\<rparr>) < left c" for chs js
      using that f(5) by (intro closerI(3)) (auto simp: live_lost_def rank_def split: option.splits)
    from ev consider "ev = InjSelect i" | "ev = InjSend i" | "ev = InjClose i" | "ev = InjHandoff i K"
      by blast
    then show ?thesis
    proof cases
      case 1
      with n f i at have "todo j \<noteq> []" "at j = Head"
        and m: "m = go_return (Next (c\<lparr>injectors := [j\<lparr>at := Sending (Some a)\<rparr>]\<rparr>))"
        by (auto simp: nl_next_def silent_def inject_select_def Let_def split: if_splits)
      moreover have "closer (c\<lparr>channels := channels c, injectors := [j\<lparr>at := Sending (Some a)\<rparr>]\<rparr>) c"
        using f \<open>at j = Head\<close> by (intro frame) (simp_all add: left_def)
      ultimately show ?thesis by (simp add: closes_in_def)
    next
      case 2
      with n f i at obtain r rs where todo: "todo j = r # rs" and s: "at j = Sending (Some a)"
        by (auto simp: nl_next_def inject_send_def split: list.splits inj_phase.splits option.splits)
      let ?chs = "(channels c)[a := (channels c ! a)\<lparr>buf := buf (channels c ! a) @ [new_update r]\<rparr>]"
      from 2 n f i todo s have m: "\<exists>es. m = Inr (Next (c\<lparr>channels := ?chs, injectors := [j\<lparr>todo := rs, at := Head\<rparr>]\<rparr>), es)"
        by (auto simp: nl_next_def inject_send_def chan_put_def inject_advance_def Let_def next_state_def
            go_bind_def go_emit_def go_return_def split: option.splits if_splits)
      have "closer (c\<lparr>channels := ?chs, injectors := [j\<lparr>todo := rs, at := Head\<rparr>]\<rparr>) c"
        using f todo s by (intro frame) (simp_all add: left_def)
      with m show ?thesis by (auto simp: closes_in_def)
    next
      case 3
      with n f i have t: "at j = Head" "todo j = []"
        and m: "m = go_return (Next (c\<lparr>channels := (channels c)[a := (channels c ! a)\<lparr>closed := True\<rparr>], injectors := []\<rparr>))"
        by (auto simp: nl_next_def inject_close_def chan_close_def drop_injector_def next_state_def split: if_splits)
      have "closer (c\<lparr>channels := (channels c)[a := (channels c ! a)\<lparr>closed := True\<rparr>], injectors := []\<rparr>) c"
        using f t by (intro frame) (simp_all add: left_def)
      with m show ?thesis by (simp add: closes_in_def)
    next
      case 4
      with n f i at obtain r rs where todo: "todo j = r # rs" and s: "at j = Sending (Some a)"
        by (auto simp: nl_next_def nl_handoff_def split: list.splits inj_phase.splits option.splits)
      have "real_route r" using goodD(1) [OF g] f(7) todo by (simp add: basic_def)
      then have "real_route (ru_Route (new_update r))" by (simp add: new_update_def)
      note upd = update_closer [OF this, of K "c\<lparr>injectors := [j\<lparr>todo := rs, at := Head\<rparr>]\<rparr>"]
      from 4 n f i todo s have m: "m = go_bind (go_emit [Count (family_metric (inj_family j))] ())
                     (\<lambda>_. case_update K (new_update r) (c\<lparr>injectors := [j\<lparr>todo := rs, at := Head\<rparr>]\<rparr>))"
        by (auto simp: nl_next_def nl_handoff_def inject_advance_def Let_def split: if_splits)
      have "closer (c\<lparr>channels := channels c, injectors := [j\<lparr>todo := rs, at := Head\<rparr>]\<rparr>) c"
        using f todo s by (intro frame) (simp_all add: left_def)
      with m upd show ?thesis by (auto simp: closes_in_def go_bind_eq_Inr)
    qed
  qed
  from o consider "ev = Loop K NlTick" | "ev = Loop K NlSubscribed" | "ev = Loop K NlUpdate"
    | i where "ev \<in> {InjSelect i, InjSend i, InjClose i, InjHandoff i K}"
    by (auto simp: own_step_def)
  then show ?thesis
  proof cases
    case 1
    with n tick_closer [OF g h] show ?thesis by (auto simp: nl_next_def nl_select_def split: if_splits)
  next
    case 2
    with n subscribed_closer [OF g h] show ?thesis by (auto simp: nl_next_def nl_select_def split: if_splits)
  next
    case 3
    with n receive_closer [OF g h] show ?thesis by (auto simp: nl_next_def nl_select_def split: option.splits)
  next
    case (4 i)
    then have "i < length (injectors c)" using n by (auto simp: nl_next_def split: if_splits)
    with 4 inj show ?thesis by blast
  qed
qed

lemma healthy_step_closer:
  assumes r: "nl_reach L cfg s" and st: "healthy_step L s t"
  shows "closer (nl_comp t) (nl_comp s)"
proof -
  obtain \<sigma> where g: "good (nl_comp s) \<sigma>" using r by (rule nl_reachE)
  from st obtain K ev where h: "healthy K" and o: "own_step K ev" and n: "nl_step L s ev t"
    by (auto simp: healthy_step_def)
  have d: "documented (nl_comp s) ev"
    using h o by (auto simp: own_step_def documented_def healthy_def)
  from n show ?thesis
  proof (cases rule: nl_step.cases)
    case (nl_step_next c es)
    with own_step_closer [OF g h o nl_step_next(3)] show ?thesis by (simp add: closes_in_def)
  next
    case (nl_step_exit c es)
    with own_step_closer [OF g h o nl_step_exit(3)] show ?thesis by (simp add: closes_in_def)
  next
    case (nl_step_panic p)
    with next_keeps [OF g d nl_step_panic(3)] show ?thesis by (simp add: keeps_def)
  qed
qed

text \<open>
  C22. Recovery: from every reachable state, while the kernel answers and the library is quiet,
  the component takes finitely many steps of its own, whatever their order; and when it can take
  none any more (once there is a subscriber, and unless it is stopped), the subscriber has
  received a complete dump and the loop reads an open live channel.
\<close>

theorem resync_always_completes:
  "wf {(t, s). nl_reach L cfg s \<and> healthy_step L s t}
   \<and> (\<forall>s. nl_reach L cfg s \<and> nl_phase s = Running \<and> subscribed (obs (nl_comp s)) \<noteq> Open
        \<and> \<not> dying (nl_comp s) \<and> (\<forall>t. \<not> healthy_step L s t) \<longrightarrow> in_sync s)"
proof (intro conjI allI impI)
  show "wf {(t, s). nl_reach L cfg s \<and> healthy_step L s t}"
  proof (rule wf_subset [OF wf_inv_image [OF wf_closer, of nl_comp]])
    show "{(t, s). nl_reach L cfg s \<and> healthy_step L s t}
        \<subseteq> inv_image {(c', c). closer c' c} nl_comp"
      by (auto simp: inv_image_def intro: healthy_step_closer)
  qed
  fix s :: "'a netlink_run"
  assume s: "nl_reach L cfg s \<and> nl_phase s = Running \<and> subscribed (obs (nl_comp s)) \<noteq> Open
        \<and> \<not> dying (nl_comp s) \<and> (\<forall>t. \<not> healthy_step L s t)"
  let ?K = "kernel_with [] [] :: 'a kernel"
  have "healthy ?K" by simp
  with s have "\<not> (\<exists>ev t. own_step ?K ev \<and> nl_step L s ev t)" unfolding healthy_step_def by blast
  with s progress_or_sync_step [of L cfg s ?K] show "in_sync s" by blast
qed

theorem resync_always_completes_witness:
  "\<exists>t. healthy_step plain_lib lost_run t"
proof -
  have "subscribed (obs (nl_comp lost_run)) \<noteq> Open \<and> \<not> dying (nl_comp lost_run)"
    by (simp add: lost_run_def synced_run_state)
  moreover have "\<not> in_sync lost_run"
    by (simp add: in_sync_def Let_def lost_run_state(3)) (simp add: lost_run_def)
  ultimately show ?thesis
    using resync_always_completes [of plain_lib DefaultConfiguration] lost_run_reach lost_run_state(8)
    by blast
qed

end
