(* ===== verification/Network_Config.thy ===== *)
theory Network_Config
  imports Go_Net
begin

text \<open>
  Networks, metrics, addresses and durations of the configuration (\<^verbatim>\<open>src/config/network.go\<close>,
  \<^verbatim>\<open>src/config/duration.go\<close>). \<^verbatim>\<open>net.ParseCIDR\<close> is modelled from the address and the length it reads;
  reading the text, the resolver and \<^verbatim>\<open>time.ParseDuration\<close> are parameters.
\<close>

section \<open>Networks\<close>

datatype 'e network_error =
    NotAnIPSubnet "'e option"
  | UnableToSolve 'e string
  | NotAValidMetric 'e
  | InvalidDuration 'e

text \<open>The 16-byte form of an address, in which \<^verbatim>\<open>ParseCIDR\<close> returns it.\<close>

definition to16 :: "ip \<Rightarrow> ip" where
  "to16 a = (if length a = 4 then v4InV6Prefix @ a else a)"

text \<open>
  \<^verbatim>\<open>net.ParseCIDR\<close> of an address of 4 or 16 bytes and a prefix length: the address, and the network
  of its masked address.
\<close>

definition parse_cidr :: "ip \<times> nat \<Rightarrow> ip \<times> ipnet" where
  "parse_cidr p = (let (a, n) = p; m = cidr_mask n (8 * length a)
     in (to16 a, \<lparr>IP = ip_and a m, Mask = m\<rparr>))"

definition Prefix_UnmarshalText ::
    "(string \<Rightarrow> 'e + ip \<times> nat) \<Rightarrow> string \<Rightarrow> 'e network_error + ipnet" where
  "Prefix_UnmarshalText scan text = (case scan text of
      Inl e \<Rightarrow> Inl (NotAnIPSubnet (Some e))
    | Inr p \<Rightarrow> (let (ip, net) = parse_cidr p in
        if \<not> ip_equal ip (IP net) then Inl (NotAnIPSubnet None) else Inr net))"

section \<open>Metrics, addresses, durations\<close>

text \<open>A 32-bit unsigned integer, converted to \<^verbatim>\<open>uint\<close>.\<close>

definition Metric_UnmarshalYAML :: "'e + 32 word \<Rightarrow> 'e network_error + go_uint" where
  "Metric_UnmarshalYAML as_uint32 = (case as_uint32 of
      Inl e \<Rightarrow> Inl (NotAValidMetric e) | Inr raw \<Rightarrow> Inr (ucast raw))"

definition Metric_String :: "go_uint \<Rightarrow> string" where
  "Metric_String m = show_nat (unat m)"

definition Addr_UnmarshalText :: "(string \<Rightarrow> 'e + string) \<Rightarrow> string \<Rightarrow> 'e network_error + string" where
  "Addr_UnmarshalText resolve text = (case resolve text of
      Inl e \<Rightarrow> Inl (UnableToSolve e text) | Inr addr \<Rightarrow> Inr addr)"

definition Duration_UnmarshalText :: "(string \<Rightarrow> 'e + duration) \<Rightarrow> string \<Rightarrow> 'e network_error + duration" where
  "Duration_UnmarshalText parse text = (case parse text of
      Inl e \<Rightarrow> Inl (InvalidDuration e) | Inr d \<Rightarrow> Inr d)"

lemma Metric_bound: "Metric_UnmarshalYAML r = Inr m \<Longrightarrow> unat m < 2 ^ 32"
proof -
  assume "Metric_UnmarshalYAML r = Inr m"
  then obtain raw :: "32 word" where "m = ucast raw" by (auto simp: Metric_UnmarshalYAML_def split: sum.splits)
  moreover have "unat raw < 2 ^ 32" using unsigned_less [of raw] by simp
  ultimately show ?thesis by (simp add: unsigned_ucast_eq take_bit_nat_eq_self)
qed

section \<open>Accepted networks\<close>

text \<open>What the reader of the text promises: an IPv4 or IPv6 address and a length within its bits.\<close>

definition cidr_ok :: "ip \<times> nat \<Rightarrow> bool" where
  "cidr_ok p \<longleftrightarrow> length (fst p) \<in> {4, 16} \<and> snd p \<le> 8 * length (fst p)"

lemma ip_and_idem: "length a = length m \<Longrightarrow> ip_and (ip_and a m) m = ip_and a m"
  by (induction a m rule: list_induct2) (simp_all add: ip_and_def and.assoc)

lemma length_ip_and: "length (ip_and a m) = min (length a) (length m)"
  by (simp add: ip_and_def)

lemma cidr_mask_ok:
  assumes "cidr_ok (a, n)"
  shows "length (cidr_mask n (8 * length a)) = length a"
    and "simple_mask_length (cidr_mask n (8 * length a)) = Some n"
  using assms by (auto simp: cidr_ok_def cidr_mask_def simple_mask_length_cidr)

lemma parse_cidr_pure: "cidr_ok p \<Longrightarrow> pure_net (snd (parse_cidr p))"
  using cidr_mask_ok [of "fst p" "snd p"]
  by (auto simp: parse_cidr_def pure_net_def ip_and_idem length_ip_and cidr_ok_def Let_def split: prod.splits)

lemma to16_equal:
  assumes "length a \<in> {4, 16}" and "length b = length a"
  shows "ip_equal (to16 a) b \<longleftrightarrow> a = b"
  using assms by (auto simp: ip_equal_def to16_def)

lemma Prefix_UnmarshalText_eq:
  assumes "scan v = Inr (c, k)" and "cidr_ok (c, k)"
  shows "Prefix_UnmarshalText scan v =
      (if ip_and c (cidr_mask k (8 * length c)) = c then Inr \<lparr>IP = c, Mask = cidr_mask k (8 * length c)\<rparr>
       else Inl (NotAnIPSubnet None))"
proof -
  have "ip_equal (to16 c) (ip_and c (cidr_mask k (8 * length c))) \<longleftrightarrow> c = ip_and c (cidr_mask k (8 * length c))"
    using assms(2) cidr_mask_ok [OF assms(2)] by (intro to16_equal) (simp_all add: cidr_ok_def length_ip_and)
  with assms(1) show ?thesis by (auto simp: Prefix_UnmarshalText_def parse_cidr_def Let_def)
qed

text \<open>
  C27. A prefix is accepted exactly when its address has no bit outside the mask; the network it
  decodes to then has that address and that length, and two accepted prefixes are equal for
  \<^verbatim>\<open>IPNetEqual\<close> exactly when they have the same address and the same length.
\<close>

theorem accepted_prefixes_are_pure:
  assumes "scan t = Inr (a, n)" and "cidr_ok (a, n)"
  shows "Prefix_UnmarshalText scan t =
      (if ip_and a (cidr_mask n (8 * length a)) = a then Inr \<lparr>IP = a, Mask = cidr_mask n (8 * length a)\<rparr>
       else Inl (NotAnIPSubnet None))
    \<and> (scan u = Inr (b, m) \<and> cidr_ok (b, m) \<and> Prefix_UnmarshalText scan t = Inr x \<and> Prefix_UnmarshalText scan u = Inr y
        \<longrightarrow> (IPNetEqual x y \<longleftrightarrow> a = b \<and> n = m))"
proof -
  note dec = Prefix_UnmarshalText_eq [where scan = scan]
  have "IPNetEqual x y \<longleftrightarrow> a = b \<and> n = m"
    if u: "scan u = Inr (b, m)" "cidr_ok (b, m)"
      and x: "Prefix_UnmarshalText scan t = Inr x" and y: "Prefix_UnmarshalText scan u = Inr y"
  proof -
    have net: "x = \<lparr>IP = a, Mask = cidr_mask n (8 * length a)\<rparr>" "y = \<lparr>IP = b, Mask = cidr_mask m (8 * length b)\<rparr>"
      "x = snd (parse_cidr (a, n))" "y = snd (parse_cidr (b, m))"
      using x y dec [OF assms] dec [OF u] by (auto simp: parse_cidr_def Let_def split: if_splits)
    have pure: "pure_net x" "pure_net y" using net(3,4) parse_cidr_pure assms(2) u(2) by simp_all
    have "IPNetEqual x y \<longleftrightarrow> x = y" using pure by (rule IPNetEqual_pure)
    moreover have "x = y \<longleftrightarrow> a = b \<and> n = m"
    proof
      assume "x = y"
      have ab: "a = b" "cidr_mask n (8 * length a) = cidr_mask m (8 * length b)"
        using arg_cong [OF \<open>x = y\<close>, of IP] arg_cong [OF \<open>x = y\<close>, of Mask] unfolding net(1,2) by simp_all
      have "Some n = Some m"
        unfolding cidr_mask_ok(2) [OF assms(2), symmetric] cidr_mask_ok(2) [OF u(2), symmetric] ab(2) ..
      with ab(1) show "a = b \<and> n = m" by simp
    qed (simp add: net(1,2))
    ultimately show ?thesis by simp
  qed
  with dec [OF assms] show ?thesis by blast
qed

definition example_scan :: "string \<Rightarrow> string + ip \<times> nat" where
  "example_scan t = (if t = ''10.0.0.0/8'' then Inr ([10, 0, 0, 0], 8)
     else if t = ''10.0.0.1/8'' then Inr ([10, 0, 0, 1], 8) else Inl ''invalid CIDR address'')"

theorem accepted_prefixes_are_pure_witness:
  "Prefix_UnmarshalText example_scan ''10.0.0.0/8'' = Inr \<lparr>IP = [10, 0, 0, 0], Mask = [255, 0, 0, 0]\<rparr>
   \<and> Prefix_UnmarshalText example_scan ''10.0.0.1/8'' = Inl (NotAnIPSubnet None)"
proof -
  have s: "example_scan ''10.0.0.0/8'' = Inr ([10, 0, 0, 0], 8)" "example_scan ''10.0.0.1/8'' = Inr ([10, 0, 0, 1], 8)"
    by (simp_all add: example_scan_def)
  have c: "cidr_ok ([10, 0, 0, 0], 8)" "cidr_ok ([10, 0, 0, 1], 8)" by (simp_all add: cidr_ok_def)
  have m: "cidr_mask 8 32 = [255, 0, 0, 0]" "ip_and [10, 0, 0, 0] [255, 0, 0, 0] = [10, 0, 0, 0]"
    "ip_and [10, 0, 0, 1] [255, 0, 0, 0] \<noteq> [10, 0, 0, 1]"
    by code_simp+
  from accepted_prefixes_are_pure [where scan = example_scan, OF s(1) c(1)]
    accepted_prefixes_are_pure [where scan = example_scan, OF s(2) c(2)] m show ?thesis
    by simp
qed

end
