(* ===== verification/Rt_Files.thy ===== *)
theory Rt_Files
  imports Gateway_Config
begin

text \<open>
  Names of routing tables and protocols (\<^verbatim>\<open>src/config/rt_files.go\<close>): the lookup of a name in the
  files of iproute2 and the decoding of a table or a protocol from a number or a name. The file
  system is a parameter (the files a pattern expands to, the content of a file). Contents are
  taken to be ASCII, and a line is scanned as \<^verbatim>\<open>fmt.Sscanf(l, "%d %s", &id, &table)\<close> does.
\<close>

section \<open>Characters, lines, numbers\<close>

text \<open>The spaces of \<^verbatim>\<open>fmt.Sscanf\<close>, and the line separator.\<close>

definition code :: "char \<Rightarrow> nat" where
  "code c = of_char c"

definition newline :: char where
  "newline = char_of (10 :: nat)"

definition is_space :: "char \<Rightarrow> bool" where
  "is_space c \<longleftrightarrow> 9 \<le> code c \<and> code c \<le> 13 \<or> code c = 32"

text \<open>\<^verbatim>\<open>strings.Split(content, "\n")\<close>.\<close>

abbreviation split_lines :: "string \<Rightarrow> string list" where
  "split_lines \<equiv> split_on newline"

definition digit_value :: "char \<Rightarrow> nat" where
  "digit_value c = code c - 48"

text \<open>\<^verbatim>\<open>strconv.ParseUint(tok, 10, 64)\<close> of a token of digits; \<open>None\<close> when it is out of range.\<close>

definition digits_value :: "string \<Rightarrow> nat" where
  "digits_value ds = foldl (\<lambda>n c. 10 * n + digit_value c) 0 ds"

definition parse_uint :: "string \<Rightarrow> nat option" where
  "parse_uint ds = (if digits_value ds < 2 ^ 64 then Some (digits_value ds) else None)"

text \<open>
  \<^verbatim>\<open>fmt.Sscanf(l, "%d %s", &id, &table)\<close> on a line: what it leaves in the two variables, which
  start as 0 and \<^verbatim>\<open>""\<close>. Its error is ignored by the caller: a line that stops matching leaves the
  later variables alone.
\<close>

definition scan_line :: "string \<Rightarrow> nat \<times> string" where
  "scan_line l =
     (let l1 = dropWhile is_space l; ds = takeWhile is_digit l1; rest = dropWhile is_digit l1 in
      if ds = [] then (0, [])
      else case parse_uint ds of
          None \<Rightarrow> (0, [])
        | Some n \<Rightarrow>
            if rest = [] \<or> \<not> is_space (hd rest) then (n, [])
            else (n, takeWhile (\<lambda>c. \<not> is_space c) (dropWhile is_space rest)))"

section \<open>Lookup\<close>

datatype rt_error =
    CannotExpand string
  | CannotRead string
  | IDOutOfRange nat
  | NameNotFound string
  | LookupFailed string string rt_error
  | NotDecoded

text \<open>\<^verbatim>\<open>filepath.Glob\<close> and \<^verbatim>\<open>ioutil.ReadFile\<close>.\<close>

record filesystem =
  glob :: "string \<Rightarrow> string list option"
  read_file :: "string \<Rightarrow> string option"

text \<open>The three nested loops of \<^verbatim>\<open>findNameRTFiles\<close>; \<open>None\<close> when a loop ends without a match.\<close>

fun find_in_lines :: "string \<Rightarrow> string list \<Rightarrow> (rt_error + nat) option" where
  "find_in_lines name [] = None"
| "find_in_lines name (l # ls) =
     (let (n, tab) = scan_line l in
      if tab = name then Some (if n > 255 then Inl (IDOutOfRange n) else Inr n)
      else find_in_lines name ls)"

fun find_in_files :: "filesystem \<Rightarrow> string \<Rightarrow> string list \<Rightarrow> (rt_error + nat) option" where
  "find_in_files FS name [] = None"
| "find_in_files FS name (f # fs) = (case read_file FS f of
     None \<Rightarrow> Some (Inl (CannotRead f))
   | Some content \<Rightarrow> (case find_in_lines name (split_lines content) of
       None \<Rightarrow> find_in_files FS name fs | Some r \<Rightarrow> Some r))"

fun findNameRTFiles :: "filesystem \<Rightarrow> string list \<Rightarrow> string \<Rightarrow> rt_error + nat" where
  "findNameRTFiles FS [] name = Inl (NameNotFound name)"
| "findNameRTFiles FS (p # ps) name = (case glob FS p of
     None \<Rightarrow> Inl (CannotExpand p)
   | Some files \<Rightarrow> (case find_in_files FS name files of
       None \<Rightarrow> findNameRTFiles FS ps name | Some r \<Rightarrow> r))"

section \<open>Tables and protocols\<close>

definition rt_tables :: "string list" where
  "rt_tables = [''/etc/iproute2/rt_tables'', ''/etc/iproute2/rt_tables.d/*.conf'']"

definition rt_protos :: "string list" where
  "rt_protos = [''/etc/iproute2/rt_protos'', ''/etc/iproute2/rt_protos.d/*.conf'']"

definition Table_String :: "table \<Rightarrow> string" where
  "Table_String t = (if tbl_Name t \<noteq> '''' then tbl_Name t else show_nat (unat (tbl_ID t)))"

definition Protocol_String :: "protocol \<Rightarrow> string" where
  "Protocol_String p = (if proto_Name p \<noteq> '''' then proto_Name p else show_nat (unat (proto_ID p)))"

definition Table_UnmarshalText :: "filesystem \<Rightarrow> string \<Rightarrow> rt_error + table" where
  "Table_UnmarshalText FS name = (case findNameRTFiles FS rt_tables name of
      Inl e \<Rightarrow> Inl (LookupFailed ''unable to lookup table'' name e)
    | Inr n \<Rightarrow> Inr \<lparr>tbl_ID = of_nat n, tbl_Name = name\<rparr>)"

definition Protocol_UnmarshalText :: "filesystem \<Rightarrow> string \<Rightarrow> rt_error + protocol" where
  "Protocol_UnmarshalText FS name = (case findNameRTFiles FS rt_protos name of
      Inl e \<Rightarrow> Inl (LookupFailed ''unable to lookup protocol'' name e)
    | Inr n \<Rightarrow> Inr \<lparr>proto_ID = of_nat n, proto_Name = name\<rparr>)"

text \<open>
  \<^verbatim>\<open>UnmarshalYAML\<close>: \<open>as_uint\<close> and \<open>as_string\<close> are what the YAML decoder makes of the node as an
  unsigned integer and as a string, if it can.
\<close>

definition Table_UnmarshalYAML ::
    "filesystem \<Rightarrow> go_uint option \<Rightarrow> string option \<Rightarrow> rt_error + table" where
  "Table_UnmarshalYAML FS as_uint as_string = (case as_uint of
      Some raw \<Rightarrow>
        if raw > 255 then Inl (IDOutOfRange (unat raw))
        else Inr \<lparr>tbl_ID = raw, tbl_Name = ''''\<rparr>
    | None \<Rightarrow> (case as_string of None \<Rightarrow> Inl NotDecoded | Some s \<Rightarrow> Table_UnmarshalText FS s))"

definition Protocol_UnmarshalYAML ::
    "filesystem \<Rightarrow> go_uint option \<Rightarrow> string option \<Rightarrow> rt_error + protocol" where
  "Protocol_UnmarshalYAML FS as_uint as_string = (case as_uint of
      Some raw \<Rightarrow>
        if raw > 255 then Inl (IDOutOfRange (unat raw))
        else Inr \<lparr>proto_ID = raw, proto_Name = ''''\<rparr>
    | None \<Rightarrow> (case as_string of None \<Rightarrow> Inl NotDecoded | Some s \<Rightarrow> Protocol_UnmarshalText FS s))"

section \<open>Bounds\<close>

lemma find_in_lines_range: "find_in_lines name ls = Some (Inr n) \<Longrightarrow> n \<le> 255"
  by (induction ls) (auto split: if_splits prod.splits)

lemma find_in_files_range: "find_in_files FS name fs = Some (Inr n) \<Longrightarrow> n \<le> 255"
  by (induction fs) (auto split: option.splits dest: find_in_lines_range)

lemma findNameRTFiles_range: "findNameRTFiles FS ps name = Inr n \<Longrightarrow> n \<le> 255"
  by (induction ps) (auto split: option.splits dest: find_in_files_range)

lemma of_nat_range: "n \<le> 255 \<Longrightarrow> (of_nat n :: go_uint) \<le> 255"
  by (simp add: word_le_nat_alt unat_of_nat)

text \<open>
  C35. A table or a protocol that was accepted, by number or by name, has an identifier between 0
  and 255.
\<close>

theorem rt_identifiers_in_range:
  "(Table_UnmarshalYAML FS as_uint as_string = Inr t \<longrightarrow> tbl_ID t \<le> 255)
   \<and> (Protocol_UnmarshalYAML FS as_uint as_string = Inr p \<longrightarrow> proto_ID p \<le> 255)"
  by (auto simp: Table_UnmarshalYAML_def Protocol_UnmarshalYAML_def Table_UnmarshalText_def
      Protocol_UnmarshalText_def not_less split: option.splits if_splits sum.splits
      intro!: of_nat_range dest: findNameRTFiles_range)

section \<open>Round trip\<close>

text \<open>A file of iproute2 with one entry per line.\<close>

definition entry_line :: "nat \<times> string \<Rightarrow> string" where
  "entry_line e = show_nat (fst e) @ CHR '' '' # snd e"

definition render_file :: "(nat \<times> string) list \<Rightarrow> string" where
  "render_file es = concat (map (\<lambda>e. entry_line e @ [newline]) es)"

definition is_word :: "string \<Rightarrow> bool" where
  "is_word w \<longleftrightarrow> w \<noteq> '''' \<and> list_all (\<lambda>c. \<not> is_space c) w"

lemma code_char_of [simp]: "n < 256 \<Longrightarrow> code (char_of n) = n"
  by (simp add: code_def)

lemma is_digit_code: "is_digit c \<longleftrightarrow> 48 \<le> code c \<and> code c \<le> 57"
  by (simp add: is_digit_def code_def)

lemma digit_not_space: "is_digit c \<Longrightarrow> \<not> is_space c"
  by (auto simp: is_digit_code is_space_def)

lemma code_blank [simp]: "code (CHR '' '') = 32"
  by (simp add: code_def)

lemma blank_space [simp]: "is_space (CHR '' '')" "\<not> is_digit (CHR '' '')"
  by (simp_all add: is_space_def is_digit_code)

lemma code_newline [simp]: "code newline = 10"
  by (simp add: newline_def)

lemma newline_space: "is_space newline"
  by (simp add: is_space_def)

lemma digits_value_snoc: "digits_value (ds @ [c]) = 10 * digits_value ds + digit_value c"
  by (simp add: digits_value_def)

lemma digit_value_char: "d < 10 \<Longrightarrow> digit_value (digit_char d) = d"
  by (simp add: digit_value_def digit_char_def code_def)

lemma digits_value_show: "digits_value (show_nat n) = n"
proof (induction n rule: show_nat.induct)
  case (1 n)
  show ?case
  proof (cases "n < 10")
    case True
    then show ?thesis
      by (subst show_nat.simps) (simp add: digits_value_def digit_value_char)
  next
    case False
    with 1 have "digits_value (show_nat (n div 10)) = n div 10" by simp
    with False show ?thesis
      by (subst show_nat.simps) (simp add: digits_value_snoc digit_value_char)
  qed
qed

lemma show_nat_hd: "\<exists>c cs. show_nat n = c # cs \<and> is_digit c"
  using show_nat_digits [of n] by (cases "show_nat n") auto

lemma scan_entry:
  assumes "n < 2 ^ 64" "is_word w"
  shows "scan_line (entry_line (n, w)) = (n, w)"
proof -
  obtain c cs where d: "show_nat n = c # cs" "is_digit c" using show_nat_hd by blast
  have "dropWhile is_space (entry_line (n, w)) = entry_line (n, w)"
    using d digit_not_space by (simp add: entry_line_def)
  moreover have "takeWhile is_digit (entry_line (n, w)) = show_nat n"
    "dropWhile is_digit (entry_line (n, w)) = CHR '' '' # w"
    using show_nat_digits [of n] by (simp_all add: entry_line_def takeWhile_append2 dropWhile_append2)
  moreover have "dropWhile is_space w = w" "takeWhile (\<lambda>c. \<not> is_space c) w = w"
    using assms(2) by (cases w; simp add: is_word_def list_all_iff)+
  ultimately show ?thesis
    using assms(1) by (simp add: scan_line_def parse_uint_def digits_value_show Let_def)
qed

lemma entry_no_newline:
  assumes "is_word w"
  shows "newline \<notin> set (entry_line (n, w))"
proof -
  have "newline \<notin> set (show_nat n)"
    using show_nat_digits [of n] digit_not_space newline_space by blast
  moreover have "newline \<noteq> CHR '' ''" by (metis code_blank code_newline num.distinct(1) numeral_eq_iff
        numeral_eq_one_iff nat_numeral_diff_1 rel_simps(46) semiring_norm)
  moreover have "newline \<notin> set w" using assms newline_space by (auto simp: is_word_def list_all_iff)
  ultimately show ?thesis by (auto simp: entry_line_def)
qed

lemma split_render:
  assumes "list_all (\<lambda>e. is_word (snd e)) es"
  shows "split_lines (render_file es) = map entry_line es @ [[]]"
  using assms
proof (induction es)
  case (Cons e es)
  then have "newline \<notin> set (entry_line e)" using entry_no_newline [of "snd e" "fst e"] by simp
  with Cons show ?case
    using split_on_append [of newline "entry_line e" "render_file es"] by (simp add: render_file_def)
qed (simp add: render_file_def)

text \<open>What the table says of a name: the first entry with this name.\<close>

definition rt_meaning :: "(nat \<times> string) list \<Rightarrow> string \<Rightarrow> (rt_error + nat) option" where
  "rt_meaning es name = map_option (\<lambda>n. if n > 255 then Inl (IDOutOfRange n) else Inr n)
     (map_of (map (\<lambda>e. (snd e, fst e)) es) name)"

lemma find_render:
  assumes "list_all (\<lambda>e. fst e < 2 ^ 64 \<and> is_word (snd e)) es" and "name \<noteq> ''''"
  shows "find_in_lines name (map entry_line es @ [[]]) = rt_meaning es name"
  using assms
proof (induction es)
  case Nil
  then show ?case by (simp add: scan_line_def rt_meaning_def)
next
  case (Cons e es)
  then have "scan_line (entry_line e) = e" using scan_entry [of "fst e" "snd e"] by simp
  with Cons show ?case by (cases e) (auto simp: rt_meaning_def)
qed


definition example_fs :: filesystem where
  "example_fs = \<lparr>glob = (\<lambda>p. if p = ''/etc/iproute2/rt_tables'' then Some [p] else Some []),
     read_file = (\<lambda>f. Some (render_file [(255, ''local''), (254, ''main''), (300, ''big'')]))\<rparr>"


theorem rt_identifiers_in_range_witness:
  "Table_UnmarshalYAML example_fs (Some 254) None = Inr \<lparr>tbl_ID = 254, tbl_Name = ''''\<rparr> \<and> (254 :: go_uint) \<le> 255"
proof -
  have d: "Table_UnmarshalYAML example_fs (Some 254) None = Inr \<lparr>tbl_ID = 254, tbl_Name = ''''\<rparr>"
    by (simp add: Table_UnmarshalYAML_def)
  with rt_identifiers_in_range [of example_fs "Some 254" None "\<lparr>tbl_ID = 254, tbl_Name = ''''\<rparr>"] show ?thesis
    by simp
qed

section \<open>The empty name\<close>

text \<open>
  A line that does not scan leaves \<^verbatim>\<open>table\<close> empty, so the empty name matches it: with a file that
  starts with a comment, as the one iproute2 installs, the empty name is table 0.
\<close>

lemma empty_name_is_table_zero:
  assumes "glob FS ''/etc/iproute2/rt_tables'' = Some (f # fs)"
    and "read_file FS f = Some (CHR ''#'' # content)"
  shows "Table_UnmarshalText FS '''' = Inr \<lparr>tbl_ID = 0, tbl_Name = ''''\<rparr>"
proof -
  have c: "code (CHR ''#'') = 35" by (simp add: code_def)
  then have n: "CHR ''#'' \<noteq> newline" by (metis code_newline numeral_eq_iff num.distinct(5) semiring_norm(87))
  have scan: "scan_line (CHR ''#'' # l) = (0, '''')" for l
    using c by (simp add: scan_line_def is_space_def is_digit_code Let_def)
  obtain l ls where "split_lines (CHR ''#'' # content) = (CHR ''#'' # l) # ls"
    using n by (cases "split_lines content") auto
  then show ?thesis
    by (simp add: Table_UnmarshalText_def rt_tables_def assms scan)
qed

end
