(* ===== verification/Prefix_Text.thy ===== *)
theory Prefix_Text
  imports Network_Config Rt_Files Gateway_Config
begin

text \<open>
  Networks as texts: \<^verbatim>\<open>String\<close> of a prefix and the helpers \<^verbatim>\<open>MustParseCIDR\<close> and \<^verbatim>\<open>MustParsePrefix\<close>
  (\<^verbatim>\<open>src/config/network.go\<close>, \<^verbatim>\<open>src/config/helpers.go\<close>), \<^verbatim>\<open>String\<close> of a gateway
  (\<^verbatim>\<open>src/gateways/gateway.go\<close>). They call \<^verbatim>\<open>IPNet.String\<close> and \<^verbatim>\<open>ParseCIDR\<close> of Go's \<^verbatim>\<open>net\<close> package, which are
  modelled but for the text of an IPv6 address: \<open>print6\<close> writes and \<open>parse6\<close> reads one.
\<close>

section \<open>Writing\<close>

definition dotted :: "ip \<Rightarrow> string" where
  "dotted a = join_with CHR ''.'' (map (\<lambda>b. show_nat (unat b)) a)"

definition hex_digit :: "nat \<Rightarrow> char" where
  "hex_digit d = (if d < 10 then digit_char d else char_of (87 + d))"

definition hex_string :: "byte list \<Rightarrow> string" where
  "hex_string bs = concat (map (\<lambda>b. [hex_digit (unat b div 16), hex_digit (unat b mod 16)]) bs)"

text \<open>\<^verbatim>\<open>IP.String\<close> and \<^verbatim>\<open>IPMask.String\<close>.\<close>

definition ip_String :: "(ip \<Rightarrow> string) \<Rightarrow> ip \<Rightarrow> string" where
  "ip_String print6 a =
     (if a = [] then ''<nil>''
      else case ip_to4 a of Some v \<Rightarrow> dotted v
      | None \<Rightarrow> if length a \<noteq> 16 then CHR ''?'' # hex_string a else print6 a)"

definition mask_String :: "ip_mask \<Rightarrow> string" where
  "mask_String m = (if m = [] then ''<nil>'' else hex_string m)"

text \<open>\<^verbatim>\<open>networkNumberAndMask\<close>: an address with a 4-byte form is used in that form, with the end of its mask.\<close>

definition network_number_and_mask :: "ipnet \<Rightarrow> (ip \<times> ip_mask) option" where
  "network_number_and_mask n =
     (let a = (case ip_to4 (IP n) of Some v \<Rightarrow> v | None \<Rightarrow> IP n); m = Mask n in
      if ip_to4 (IP n) = None \<and> length a \<noteq> 16 then None
      else if length m = 4 then (if length a \<noteq> 4 then None else Some (a, m))
      else if length m = 16 then Some (a, if length a = 4 then drop 12 m else m)
      else None)"

definition Prefix_String :: "(ip \<Rightarrow> string) \<Rightarrow> ipnet \<Rightarrow> string" where
  "Prefix_String print6 n = (case network_number_and_mask n of
      None \<Rightarrow> ''<nil>''
    | Some (nn, m) \<Rightarrow> ip_String print6 nn @ CHR ''/'' #
        (case simple_mask_length m of Some l \<Rightarrow> show_nat l | None \<Rightarrow> mask_String m))"

definition gateway_String :: "(ip \<Rightarrow> string) \<Rightarrow> nat \<Rightarrow> lrg_config \<Rightarrow> string" where
  "gateway_String print6 index cfg =
     ''gw'' @ show_nat index @ ''<'' @ Prefix_String print6 (from_Prefix (From cfg)) @ ''-''
       @ Table_String (from_Table (From cfg)) @ ''>''"

section \<open>Reading\<close>

text \<open>
  \<^verbatim>\<open>parseIPv4\<close>: four numbers up to 255 between dots. Go refuses leading zeros since version 1.17;
  \<open>lz\<close> tells whether the library accepts them.
\<close>

definition decimal :: "string \<Rightarrow> bool" where
  "decimal s \<longleftrightarrow> s \<noteq> '''' \<and> list_all is_digit s"

definition octet_ok :: "bool \<Rightarrow> string \<Rightarrow> bool" where
  "octet_ok lz s \<longleftrightarrow> decimal s \<and> digits_value s \<le> 255 \<and> (lz \<or> length s = 1 \<or> hd s \<noteq> CHR ''0'')"

definition parse4 :: "bool \<Rightarrow> string \<Rightarrow> ip option" where
  "parse4 lz s =
     (let parts = split_on CHR ''.'' s in
      if length parts = 4 \<and> list_all (octet_ok lz) parts
      then Some (map (\<lambda>d. word_of_nat (digits_value d)) parts) else None)"

text \<open>\<^verbatim>\<open>ParseCIDR\<close> up to the address and the length it reads (\<open>parse_cidr\<close> makes the network).\<close>

definition scan_cidr :: "bool \<Rightarrow> (string \<Rightarrow> ip option) \<Rightarrow> string \<Rightarrow> string + ip \<times> nat" where
  "scan_cidr lz parse6 s =
     (let err = Inl (''invalid CIDR address: '' @ s) in
      case split_on CHR ''/'' s of
        [host, len] \<Rightarrow>
          (case (case parse4 lz host of Some a \<Rightarrow> Some a | None \<Rightarrow> parse6 host) of
             None \<Rightarrow> err
           | Some a \<Rightarrow> if decimal len \<and> digits_value len \<le> 8 * length a
               then Inr (a, digits_value len) else err)
      | _ \<Rightarrow> err)"

text \<open>The helpers panic when the text is not a network; the network may have been given with host bits.\<close>

definition MustParseCIDR :: "(string \<Rightarrow> 'e + ip \<times> nat) \<Rightarrow> string \<Rightarrow> 'e + ipnet" where
  "MustParseCIDR scan s = (case scan s of Inl e \<Rightarrow> Inl e | Inr p \<Rightarrow> Inr (snd (parse_cidr p)))"

definition MustParsePrefix :: "(string \<Rightarrow> 'e + ip \<times> nat) \<Rightarrow> string \<Rightarrow> 'e + ipnet" where
  "MustParsePrefix scan s = MustParseCIDR scan s"

section \<open>Texts of numbers\<close>

lemma show_nat_no_zero: "0 < n \<Longrightarrow> hd (show_nat n) \<noteq> CHR ''0''"
proof (induction n rule: show_nat.induct)
  case (1 n)
  show ?case
  proof (cases "n < 10")
    case True
    then have "digit_value (digit_char n) \<noteq> digit_value CHR ''0''"
      using 1(2) by (simp add: digit_value_char) (simp add: digit_value_def code_def)
    then have "digit_char n \<noteq> CHR ''0''" by auto
    with True show ?thesis by (subst show_nat.simps) simp
  next
    case False
    with 1 show ?thesis by (subst show_nat.simps) (simp add: hd_append)
  qed
qed

lemma decimal_show [simp]: "decimal (show_nat n)"
  using show_nat_digits [of n] by (simp add: decimal_def list_all_iff)

lemma show_zero: "length (show_nat 0) = 1"
  by (subst show_nat.simps) simp

lemma octet_show: "n \<le> 255 \<Longrightarrow> octet_ok lz (show_nat n)"
  using show_nat_no_zero [of n] by (cases "n = 0") (auto simp: octet_ok_def digits_value_show show_zero)

lemma digits_avoid: "\<not> is_digit c \<Longrightarrow> c \<notin> set (show_nat n)"
  using show_nat_digits [of n] by auto

lemma punctuation [simp]: "\<not> is_digit CHR ''.''" "\<not> is_digit CHR ''/''" "\<not> is_digit CHR '':''"
  by (simp_all add: is_digit_def)

lemma join_avoid: "c \<noteq> sep \<Longrightarrow> list_all (\<lambda>l. c \<notin> set l) ls \<Longrightarrow> c \<notin> set (join_with sep ls)"
  by (induction sep ls rule: join_with.induct) auto

lemma octet_bound: "unat (b :: byte) \<le> 255"
proof -
  have "unat b < 256" using unsigned_less [of b] by simp
  then show ?thesis by simp
qed

lemma parse4_dotted: "length a = 4 \<Longrightarrow> parse4 lz (dotted a) = Some a"
proof -
  assume a: "length a = 4"
  have "split_on CHR ''.'' (dotted a) = map (\<lambda>b. show_nat (unat b)) a"
    unfolding dotted_def using a by (intro split_join) (auto simp: digits_avoid)
  then show ?thesis
    using a by (simp add: parse4_def list_all_iff octet_show octet_bound digits_value_show comp_def)
qed

lemma dotted_slash: "CHR ''/'' \<notin> set (dotted a)"
  unfolding dotted_def by (rule join_avoid) (auto simp: list_all_iff digits_avoid)

section \<open>A network survives being written and read\<close>

text \<open>
  What is asked of the texts of IPv6 addresses: reading gives 16 bytes, and an address that is not an
  IPv4-mapped one is read back from its text, which has no slash and is not the text of an IPv4 address.
\<close>

definition lawful6 :: "bool \<Rightarrow> (string \<Rightarrow> ip option) \<Rightarrow> (ip \<Rightarrow> string) \<Rightarrow> bool" where
  "lawful6 lz parse6 print6 \<longleftrightarrow> (\<forall>s a. parse6 s = Some a \<longrightarrow> length a = 16)
     \<and> (\<forall>a. length a = 16 \<and> ip_to4 a = None \<longrightarrow>
          parse6 (print6 a) = Some a \<and> parse4 lz (print6 a) = None \<and> CHR ''/'' \<notin> set (print6 a))"

text \<open>The network with its 4-byte address, if it has one.\<close>

definition unmapped :: "ipnet \<Rightarrow> ipnet" where
  "unmapped x = (if length (IP x) = 16 \<and> ip_to4 (IP x) \<noteq> None
     then \<lparr>IP = drop 12 (IP x), Mask = drop 12 (Mask x)\<rparr> else x)"

lemma parse4_length: "parse4 lz s = Some a \<Longrightarrow> length a = 4"
  by (auto simp: parse4_def Let_def split: if_splits)

lemma scan_cidr_ok: "lawful6 lz p6 pr6 \<Longrightarrow> scan_cidr lz p6 s = Inr (a, n) \<Longrightarrow> cidr_ok (a, n)"
  by (auto simp: scan_cidr_def Let_def cidr_ok_def lawful6_def dest: parse4_length
      split: list.splits option.splits if_splits)

lemma scan_written:
  assumes "CHR ''/'' \<notin> set t" and "n \<le> 8 * length a"
    and "(case parse4 lz t of Some b \<Rightarrow> Some b | None \<Rightarrow> p6 t) = Some a"
  shows "scan_cidr lz p6 (t @ CHR ''/'' # show_nat n) = Inr (a, n)"
proof -
  have "split_on CHR ''/'' (t @ CHR ''/'' # show_nat n) = [t, show_nat n]"
    using assms(1) by (simp add: split_on_append split_on_single digits_avoid)
  with assms(2,3) show ?thesis by (simp add: scan_cidr_def digits_value_show)
qed

text \<open>An address in its shortest form: 4 bytes, or 16 bytes that have no 4-byte form.\<close>

definition short_ip :: "ip \<Rightarrow> bool" where
  "short_ip a \<longleftrightarrow> length a = 4 \<or> length a = 16 \<and> ip_to4 a = None"

lemma scan_Prefix_String:
  assumes law: "lawful6 lz p6 pr6" and a: "short_ip a" and n: "n \<le> 8 * length a"
  shows "scan_cidr lz p6 (Prefix_String pr6 \<lparr>IP = a, Mask = cidr_mask n (8 * length a)\<rparr>) = Inr (a, n)"
proof -
  have ok: "cidr_ok (a, n)" using a n by (auto simp: cidr_ok_def short_ip_def)
  note mask = cidr_mask_ok [OF ok]
  have form: "Prefix_String pr6 \<lparr>IP = a, Mask = cidr_mask n (8 * length a)\<rparr>
      = ip_String pr6 a @ CHR ''/'' # show_nat n"
    using a mask by (auto simp: Prefix_String_def network_number_and_mask_def short_ip_def ip_to4_def Let_def
        split: option.split if_splits)
  show ?thesis
  proof (cases "length a = 4")
    case True
    then have "ip_String pr6 a = dotted a" by (auto simp: ip_String_def ip_to4_def)
    with form True n dotted_slash [of a] parse4_dotted [OF True, of lz] show ?thesis
      by (simp add: scan_written)
  next
    case False
    with a have six: "length a = 16" "ip_to4 a = None" by (auto simp: short_ip_def)
    then have "ip_String pr6 a = pr6 a" by (auto simp: ip_String_def)
    with form six n law show ?thesis by (simp add: scan_written lawful6_def)
  qed
qed

text \<open>The end of the mask of a mapped address is the mask of the 4-byte address.\<close>

lemma cidr_bytes_nth_full: "i < l \<Longrightarrow> cidr_bytes l n ! i = 0xff \<Longrightarrow> 8 * Suc i \<le> n"
proof (induction l n arbitrary: i rule: cidr_bytes.induct)
  case (2 l n)
  show ?case
  proof (cases i)
    case 0
    with 2 show ?thesis using lead_ones_cidr(2) [of n] by (auto split: if_splits)
  next
    case (Suc k)
    with 2(4) have "8 \<le> n" "cidr_bytes l (n - 8) ! k = 0xff"
      using 2(3) by (auto simp: cidr_bytes_0 split: if_splits)
    with 2(1) [of k] 2(3) Suc have "8 * Suc k \<le> n - 8" by simp
    with \<open>8 \<le> n\<close> Suc show ?thesis by simp
  qed
qed simp

lemma drop_cidr_bytes: "8 * j \<le> n \<Longrightarrow> drop j (cidr_bytes (j + l) n) = cidr_bytes l (n - 8 * j)"
  by (induction j arbitrary: n) (auto simp: algebra_simps)

lemma mapped_nth_11: "length a = 16 \<Longrightarrow> take 12 a = v4InV6Prefix \<Longrightarrow> a ! 11 = 0xff"
  using nth_take [of 11 12 a] by (simp add: v4InV6Prefix_def nth_append)

lemma unmapped_form:
  assumes ok: "cidr_ok (a, n)" and pure: "ip_and a (cidr_mask n (8 * length a)) = a"
  shows "\<exists>b k. unmapped \<lparr>IP = a, Mask = cidr_mask n (8 * length a)\<rparr> = \<lparr>IP = b, Mask = cidr_mask k (8 * length b)\<rparr>
     \<and> short_ip b \<and> cidr_ok (b, k) \<and> ip_and b (cidr_mask k (8 * length b)) = b"
proof (cases "length a = 16 \<and> ip_to4 a \<noteq> None")
  case False
  with assms show ?thesis
    by (intro exI [of _ a] exI [of _ n]) (auto simp: unmapped_def short_ip_def cidr_ok_def)
next
  case True
  then have a: "length a = 16" "take 12 a = v4InV6Prefix" by (auto simp: ip_to4_def split: if_splits)
  have m: "cidr_mask n (8 * length a) = cidr_bytes 16 n" "n \<le> 128"
    using ok a(1) by (auto simp: cidr_ok_def cidr_mask_def)
  have "a ! 11 = a ! 11 AND cidr_bytes 16 n ! 11"
    using pure a(1) m ip_and_nth [of 11 a "cidr_bytes 16 n"] by simp
  then have "(0xff :: byte) = 0xff AND cidr_bytes 16 n ! 11" by (simp add: mapped_nth_11 [OF a])
  moreover have "(0xff :: byte) = - 1" by simp
  ultimately have n: "96 \<le> n" using cidr_bytes_nth_full [of 11 16 n] by (simp only: and.left_neutral) simp
  let ?b = "drop 12 a" and ?k = "n - 96"
  have mask: "cidr_mask ?k (8 * length ?b) = drop 12 (cidr_bytes 16 n)"
  proof -
    have "?k \<le> 32" using m(2) by linarith
    then show ?thesis using drop_cidr_bytes [of 12 n 4] n a(1) by (simp add: cidr_mask_def not_less [symmetric])
  qed
  have "ip_and ?b (drop 12 (cidr_bytes 16 n)) = ?b"
    using arg_cong [OF pure, of "drop 12"] m by (simp add: ip_and_def drop_map drop_zip)
  with True mask m n a(1) show ?thesis
    by (intro exI [of _ ?b] exI [of _ ?k]) (auto simp: unmapped_def short_ip_def cidr_ok_def)
qed

lemma Prefix_String_unmapped:
  assumes "pure_net x"
  shows "Prefix_String pr6 (unmapped x) = Prefix_String pr6 x"
  using assms
  by (auto simp: Prefix_String_def network_number_and_mask_def unmapped_def pure_net_def ip_to4_def Let_def
      split: option.split if_splits)

text \<open>
  C28. A prefix survives being written and read: the text of an accepted prefix is accepted and gives
  the same network again, except that an IPv4-mapped IPv6 network comes back as the IPv4 network, which
  \<^verbatim>\<open>IPNetEqual\<close> does not take for the same. \<^verbatim>\<open>MustParsePrefix\<close> gives the network that the
  configuration's decoder gives.
\<close>

theorem prefix_round_trip:
  assumes law: "lawful6 lz parse6 print6" and read: "Prefix_UnmarshalText (scan_cidr lz parse6) s = Inr x"
  shows "Prefix_UnmarshalText (scan_cidr lz parse6) (Prefix_String print6 x) = Inr (unmapped x)
    \<and> (IPNetEqual x (unmapped x) \<longleftrightarrow> \<not> (length (IP x) = 16 \<and> ip_to4 (IP x) \<noteq> None))
    \<and> MustParsePrefix (scan_cidr lz parse6) s = Inr x"
proof -
  obtain a n where scan: "scan_cidr lz parse6 s = Inr (a, n)"
    using read by (auto simp: Prefix_UnmarshalText_def split: sum.splits)
  note ok = scan_cidr_ok [OF law scan]
  from read Prefix_UnmarshalText_eq [where scan = "scan_cidr lz parse6", OF scan ok]
  have x: "x = \<lparr>IP = a, Mask = cidr_mask n (8 * length a)\<rparr>" and pure: "ip_and a (cidr_mask n (8 * length a)) = a"
    by (auto split: if_splits)
  have net: "x = snd (parse_cidr (a, n))" using pure by (simp add: x parse_cidr_def Let_def)
  from unmapped_form [OF ok pure] obtain b k where
    u: "unmapped x = \<lparr>IP = b, Mask = cidr_mask k (8 * length b)\<rparr>" "short_ip b" "cidr_ok (b, k)"
      "ip_and b (cidr_mask k (8 * length b)) = b" by (auto simp: x)
  have "k \<le> 8 * length b" using u(3) by (simp add: cidr_ok_def)
  from scan_Prefix_String [OF law u(2) this] u(1)
  have "scan_cidr lz parse6 (Prefix_String print6 (unmapped x)) = Inr (b, k)" by simp
  from Prefix_UnmarshalText_eq [where scan = "scan_cidr lz parse6", OF this u(3)] u(1,4)
  have again: "Prefix_UnmarshalText (scan_cidr lz parse6) (Prefix_String print6 (unmapped x)) = Inr (unmapped x)"
    by simp
  have px: "pure_net x" unfolding net by (rule parse_cidr_pure [OF ok])
  have "unmapped x = snd (parse_cidr (b, k))" using u(1,4) by (simp add: parse_cidr_def Let_def)
  then have pu: "pure_net (unmapped x)" by (simp add: parse_cidr_pure [OF u(3)])
  have "IPNetEqual x (unmapped x) \<longleftrightarrow> x = unmapped x" by (rule IPNetEqual_pure [OF px pu])
  moreover have "x = unmapped x \<longleftrightarrow> \<not> (length (IP x) = 16 \<and> ip_to4 (IP x) \<noteq> None)"
    using u(1,2) by (auto simp: unmapped_def short_ip_def)
  moreover have "MustParsePrefix (scan_cidr lz parse6) s = Inr x"
    by (simp add: MustParsePrefix_def MustParseCIDR_def scan net)
  ultimately show ?thesis using again by (simp add: Prefix_String_unmapped [OF px])
qed

text \<open>A way to write and read IPv6 addresses that keeps the laws: 16 numbers between colons.\<close>

definition example_print6 :: "ip \<Rightarrow> string" where
  "example_print6 a = join_with CHR '':'' (map (\<lambda>b. show_nat (unat b)) a)"

definition example_parse6 :: "string \<Rightarrow> ip option" where
  "example_parse6 s = (let parts = split_on CHR '':'' s in
     if length parts = 16 \<and> list_all decimal parts
     then Some (map (\<lambda>d. word_of_nat (digits_value d)) parts) else None)"

lemma example_lawful6: "lawful6 False example_parse6 example_print6"
proof -
  have "example_parse6 s = Some a \<Longrightarrow> length a = 16" for s a
    by (auto simp: example_parse6_def Let_def split: if_splits)
  moreover have "example_parse6 (example_print6 a) = Some a \<and> parse4 False (example_print6 a) = None
      \<and> CHR ''/'' \<notin> set (example_print6 a)" if a: "length a = 16" for a
  proof -
    have "split_on CHR '':'' (example_print6 a) = map (\<lambda>b. show_nat (unat b)) a"
      unfolding example_print6_def using a by (intro split_join) (auto simp: digits_avoid)
    then have "example_parse6 (example_print6 a) = Some a"
      using a by (simp add: example_parse6_def list_all_iff digits_value_show comp_def)
    moreover have "CHR ''.'' \<notin> set (example_print6 a)" "CHR ''/'' \<notin> set (example_print6 a)"
      unfolding example_print6_def by (rule join_avoid; simp add: list_all_iff digits_avoid)+
    ultimately show ?thesis by (simp add: parse4_def split_on_single)
  qed
  ultimately show ?thesis by (auto simp: lawful6_def)
qed

theorem prefix_round_trip_witness:
  "Prefix_UnmarshalText (scan_cidr False example_parse6) ''10.0.0.0/8'' = Inr \<lparr>IP = [10, 0, 0, 0], Mask = [255, 0, 0, 0]\<rparr>
   \<and> Prefix_UnmarshalText (scan_cidr False example_parse6)
       (Prefix_String example_print6 \<lparr>IP = [10, 0, 0, 0], Mask = [255, 0, 0, 0]\<rparr>)
     = Inr (unmapped \<lparr>IP = [10, 0, 0, 0], Mask = [255, 0, 0, 0]\<rparr>)"
proof -
  have read: "Prefix_UnmarshalText (scan_cidr False example_parse6) ''10.0.0.0/8''
      = Inr \<lparr>IP = [10, 0, 0, 0], Mask = [255, 0, 0, 0]\<rparr>"
    by code_simp
  from prefix_round_trip [OF example_lawful6 this] read show ?thesis by simp
qed

end
