(* ===== verification/Path_Config.thy ===== *)
theory Path_Config
  imports LRG_Prelude
begin

text \<open>
  Paths in the configuration (\<^verbatim>\<open>src/config/path.go\<close>) and log files (\<^verbatim>\<open>src/reporter/logger/config.go\<close>).
  \<^verbatim>\<open>filepath.Clean\<close>, \<^verbatim>\<open>filepath.Dir\<close> and \<^verbatim>\<open>filepath.Abs\<close> are those of Go's library on Unix. The
  working directory and \<^verbatim>\<open>os.Stat\<close> are parameters.
\<close>

section \<open>Go's filepath on Unix\<close>

definition slash :: char where
  "slash = CHR ''/''"

definition is_abs :: "string \<Rightarrow> bool" where
  "is_abs p \<longleftrightarrow> (case p of [] \<Rightarrow> False | c # _ \<Rightarrow> c = slash)"

text \<open>
  \<^verbatim>\<open>filepath.Clean\<close>: empty and \<^verbatim>\<open>.\<close> elements are dropped, a \<^verbatim>\<open>..\<close> drops the element before it, and
  those that begin a rooted path; an empty result is \<^verbatim>\<open>.\<close>. The stack holds the elements kept so
  far, last one first.
\<close>

definition clean_step :: "bool \<Rightarrow> string list \<Rightarrow> string \<Rightarrow> string list" where
  "clean_step rooted st c =
     (if c = '''' \<or> c = ''.'' then st
      else if c = ''..'' then
        (case st of [] \<Rightarrow> if rooted then [] else [''..'']
         | t # ts \<Rightarrow> if t = ''..'' then ''..'' # st else ts)
      else c # st)"

definition clean_parts :: "bool \<Rightarrow> string list \<Rightarrow> string list" where
  "clean_parts rooted cs = rev (foldl (clean_step rooted) [] cs)"

definition Clean :: "string \<Rightarrow> string" where
  "Clean p =
     (let parts = clean_parts (is_abs p) (split_on slash p) in
      if is_abs p then slash # join_with slash parts
      else if parts = [] then ''.'' else join_with slash parts)"

text \<open>\<^verbatim>\<open>filepath.Dir\<close>: everything up to the last slash, cleaned.\<close>

definition Dir :: "string \<Rightarrow> string" where
  "Dir p = Clean (rev (dropWhile (\<lambda>c. c \<noteq> slash) (rev p)))"

text \<open>\<^verbatim>\<open>filepath.Abs\<close>; \<open>wd\<close> is the working directory, if it can be told.\<close>

definition Abs :: "string option \<Rightarrow> string \<Rightarrow> string option" where
  "Abs wd p =
     (if is_abs p then Some (Clean p)
      else map_option (\<lambda>d. Clean (if p = '''' then d else d @ slash # p)) wd)"

section \<open>Paths\<close>

text \<open>\<^verbatim>\<open>os.Stat\<close>: whether there is a file at a path, and whether it is a directory.\<close>

record path_env =
  working_dir :: "string option"
  stat :: "string \<Rightarrow> bool option"

datatype path_error =
    NoAbsolutePath string
  | NoDirectory string
  | IsADirectory string
  | IsARegularFile string

definition Path_UnmarshalText :: "path_env \<Rightarrow> string \<Rightarrow> path_error + string" where
  "Path_UnmarshalText E text = (case Abs (working_dir E) text of
      None \<Rightarrow> Inl (NoAbsolutePath text)
    | Some absolute \<Rightarrow>
        if stat E (Dir absolute) = None then Inl (NoDirectory absolute) else Inr absolute)"

definition FilePath_UnmarshalText :: "path_env \<Rightarrow> string \<Rightarrow> path_error + string" where
  "FilePath_UnmarshalText E text = (case Path_UnmarshalText E text of
      Inl e \<Rightarrow> Inl e
    | Inr path \<Rightarrow> (case stat E path of
        None \<Rightarrow> Inr path
      | Some is_dir \<Rightarrow> if is_dir then Inl (IsADirectory path) else Inr path))"

definition DirectoryPath_UnmarshalText :: "path_env \<Rightarrow> string \<Rightarrow> path_error + string" where
  "DirectoryPath_UnmarshalText E text = (case Path_UnmarshalText E text of
      Inl e \<Rightarrow> Inl e
    | Inr path \<Rightarrow> (case stat E path of
        None \<Rightarrow> Inr path
      | Some is_dir \<Rightarrow> if \<not> is_dir then Inl (IsARegularFile path) else Inr path))"

section \<open>Log files\<close>

datatype log_format = FormatPlain | FormatJSON

record log_file =
  lf_Name :: string
  lf_Format :: log_format

definition supportedFormats :: "(string \<times> log_format) list" where
  "supportedFormats = [(''plain:'', FormatPlain), (''json:'', FormatJSON), ('''', FormatPlain)]"

text \<open>The loop stops at the first prefix; the variables keep their values when there is none.\<close>

fun detect_format :: "(string \<times> log_format) list \<Rightarrow> string \<Rightarrow> log_format \<Rightarrow> string \<times> log_format" where
  "detect_format [] s fmt = (s, fmt)"
| "detect_format ((p, f) # fs) s fmt =
     (if has_prefix p s then (drop (length p) s, f) else detect_format fs s fmt)"

definition LogFile_UnmarshalText :: "path_env \<Rightarrow> log_file \<Rightarrow> string \<Rightarrow> path_error + log_file" where
  "LogFile_UnmarshalText E lf text =
     (let (s, fmt) = detect_format supportedFormats text (lf_Format lf) in
      case Abs (working_dir E) s of
        None \<Rightarrow> Inl (NoAbsolutePath s)
      | Some absolute \<Rightarrow> Inr \<lparr>lf_Name = Clean absolute, lf_Format = fmt\<rparr>)"

section \<open>Clean paths\<close>

text \<open>An element that cleaning keeps in a rooted path.\<close>

definition plain_part :: "string \<Rightarrow> bool" where
  "plain_part c \<longleftrightarrow> c \<notin> {'''', ''.'', ''..''} \<and> slash \<notin> set c"

definition clean_abs :: "string \<Rightarrow> bool" where
  "clean_abs p \<longleftrightarrow> (\<exists>parts. list_all plain_part parts \<and> p = slash # join_with slash parts)"

lemma clean_step_plain:
  assumes "list_all plain_part st" "slash \<notin> set c"
  shows "list_all plain_part (clean_step True st c)"
  using assms by (auto simp: clean_step_def plain_part_def split: list.splits)

lemma clean_parts_plain:
  assumes "\<forall>c \<in> set cs. slash \<notin> set c"
  shows "list_all plain_part (clean_parts True cs)"
proof -
  have "list_all plain_part (foldl (clean_step True) st cs)" if "list_all plain_part st" for st
    using that assms by (induction cs arbitrary: st) (auto intro: clean_step_plain)
  from this [of "[]"] show ?thesis by (simp add: clean_parts_def)
qed

lemma foldl_plain:
  "list_all plain_part cs \<Longrightarrow> foldl (clean_step r) st cs = rev cs @ st"
  by (induction cs arbitrary: st) (simp_all add: clean_step_def plain_part_def)

lemma Clean_abs: "is_abs p \<Longrightarrow> clean_abs (Clean p)"
  unfolding clean_abs_def
  by (rule exI [of _ "clean_parts True (split_on slash p)"])
     (simp add: Clean_def Let_def clean_parts_plain split_on_no_sep)

lemma Clean_id:
  assumes "clean_abs p"
  shows "Clean p = p"
proof -
  obtain parts where p: "list_all plain_part parts" "p = slash # join_with slash parts"
    using assms by (auto simp: clean_abs_def)
  have "clean_parts True (split_on slash p) = parts"
  proof (cases "parts = []")
    case True
    then show ?thesis by (simp add: p clean_parts_def clean_step_def)
  next
    case False
    then have "split_on slash (join_with slash parts) = parts"
      using p(1) by (intro split_join) (auto simp: list_all_iff plain_part_def)
    with foldl_plain [OF p(1)] show ?thesis by (simp add: p(2) clean_parts_def clean_step_def)
  qed
  then show ?thesis by (simp add: Clean_def is_abs_def p(2) Let_def)
qed

lemma clean_abs_is_abs: "clean_abs p \<Longrightarrow> is_abs p"
  by (auto simp: clean_abs_def is_abs_def)

lemma Abs_clean:
  assumes "\<And>d. wd = Some d \<Longrightarrow> is_abs d" and "Abs wd p = Some q"
  shows "clean_abs q"
proof (cases "is_abs p")
  case True
  with assms(2) have "q = Clean p" by (simp add: Abs_def)
  with True show ?thesis by (simp add: Clean_abs)
next
  case False
  with assms(2) obtain d where d: "wd = Some d" "q = Clean (if p = '''' then d else d @ slash # p)"
    by (auto simp: Abs_def)
  with assms(1) have "is_abs d" by simp
  then have "is_abs (if p = '''' then d else d @ slash # p)" by (cases d) (auto simp: is_abs_def)
  with d(2) show ?thesis by (simp add: Clean_abs)
qed

lemma Abs_id: "clean_abs p \<Longrightarrow> Abs wd p = Some p"
  by (simp add: Abs_def clean_abs_is_abs Clean_id)

section \<open>What is accepted\<close>

text \<open>The working directory, when it can be told, is an absolute path.\<close>

definition sane_env :: "path_env \<Rightarrow> bool" where
  "sane_env E \<longleftrightarrow> (\<forall>d. working_dir E = Some d \<longrightarrow> is_abs d)"

lemma Path_accepted:
  assumes "sane_env E" and "Path_UnmarshalText E raw = Inr p"
  shows "clean_abs p \<and> stat E (Dir p) \<noteq> None \<and> Path_UnmarshalText E p = Inr p"
proof -
  from assms(2) have a: "Abs (working_dir E) raw = Some p" and st: "stat E (Dir p) \<noteq> None"
    by (auto simp: Path_UnmarshalText_def split: option.splits if_splits)
  have "clean_abs p" using Abs_clean [OF _ a] assms(1) by (simp add: sane_env_def)
  with st show ?thesis by (auto simp: Path_UnmarshalText_def Abs_id)
qed

text \<open>
  An accepted file or directory path is absolute and clean (no empty, \<^verbatim>\<open>.\<close> or \<^verbatim>\<open>..\<close> element),
  its directory exists, it is not a file of the other kind, and decoding it again gives the same
  path.
\<close>

theorem accepted_paths_are_clean:
  assumes "sane_env E"
  shows "(FilePath_UnmarshalText E raw = Inr p \<longrightarrow>
       clean_abs p \<and> stat E (Dir p) \<noteq> None \<and> stat E p \<noteq> Some True \<and> FilePath_UnmarshalText E p = Inr p)
   \<and> (DirectoryPath_UnmarshalText E raw = Inr p \<longrightarrow>
       clean_abs p \<and> stat E (Dir p) \<noteq> None \<and> stat E p \<noteq> Some False \<and> DirectoryPath_UnmarshalText E p = Inr p)"
proof (intro conjI impI)
  assume f: "FilePath_UnmarshalText E raw = Inr p"
  then have "Path_UnmarshalText E raw = Inr p" "stat E p \<noteq> Some True"
    by (auto simp: FilePath_UnmarshalText_def split: sum.splits option.splits if_splits)
  with Path_accepted [OF assms, of raw p] show "clean_abs p" "stat E (Dir p) \<noteq> None" "stat E p \<noteq> Some True"
    "FilePath_UnmarshalText E p = Inr p"
    by (auto simp: FilePath_UnmarshalText_def split: option.splits)
next
  assume f: "DirectoryPath_UnmarshalText E raw = Inr p"
  then have "Path_UnmarshalText E raw = Inr p" "stat E p \<noteq> Some False"
    by (auto simp: DirectoryPath_UnmarshalText_def split: sum.splits option.splits if_splits)
  with Path_accepted [OF assms, of raw p] show "clean_abs p" "stat E (Dir p) \<noteq> None" "stat E p \<noteq> Some False"
    "DirectoryPath_UnmarshalText E p = Inr p"
    by (auto simp: DirectoryPath_UnmarshalText_def split: option.splits)
qed

definition example_env :: path_env where
  "example_env = \<lparr>working_dir = Some ''/srv/lrg'', stat = (\<lambda>p. if p = ''/srv'' then Some True else None)\<rparr>"

lemma example_path: "FilePath_UnmarshalText example_env ''.././lrg.log'' = Inr ''/srv/lrg.log''"
  by (simp add: FilePath_UnmarshalText_def Path_UnmarshalText_def Abs_def Dir_def Clean_def is_abs_def slash_def
      clean_parts_def clean_step_def Let_def example_env_def)

theorem accepted_paths_are_clean_witness:
  "clean_abs ''/srv/lrg.log'' \<and> FilePath_UnmarshalText example_env ''/srv/lrg.log'' = Inr ''/srv/lrg.log''"
proof -
  have "sane_env example_env" by (simp add: sane_env_def example_env_def is_abs_def slash_def)
  from accepted_paths_are_clean [OF this, of "''.././lrg.log''" "''/srv/lrg.log''"] example_path show ?thesis
    by simp
qed

text \<open>The text of a log file, with its format spelt out.\<close>

definition log_file_text :: "log_file \<Rightarrow> string" where
  "log_file_text lf = (case lf_Format lf of FormatPlain \<Rightarrow> ''plain:'' | FormatJSON \<Rightarrow> ''json:'') @ lf_Name lf"

text \<open>
  Decoding the text of a log file with an absolute clean name gives the log file back,
  whatever the variable held before; and without a format prefix the format is plain text.
\<close>

theorem log_file_round_trip:
  assumes "clean_abs (lf_Name lf)"
  shows "LogFile_UnmarshalText E old (log_file_text lf) = Inr lf
     \<and> LogFile_UnmarshalText E old (lf_Name lf) = Inr (lf\<lparr>lf_Format := FormatPlain\<rparr>)"
proof -
  have "\<not> has_prefix ''plain:'' (lf_Name lf)" "\<not> has_prefix ''json:'' (lf_Name lf)"
    using clean_abs_is_abs [OF assms]
    by (auto simp: has_prefix_def is_abs_def slash_def split: list.splits)
  then have "LogFile_UnmarshalText E old (lf_Name lf) = Inr (lf\<lparr>lf_Format := FormatPlain\<rparr>)"
    using assms
    by (simp add: LogFile_UnmarshalText_def supportedFormats_def has_prefix_def Abs_id Clean_id)
  moreover have "LogFile_UnmarshalText E old (log_file_text lf) = Inr lf"
    using assms
    by (cases "lf_Format lf")
       (simp_all add: LogFile_UnmarshalText_def supportedFormats_def log_file_text_def has_prefix_def
         Abs_id Clean_id)
  ultimately show ?thesis by simp
qed

theorem log_file_round_trip_witness:
  "LogFile_UnmarshalText example_env \<lparr>lf_Name = '''', lf_Format = FormatPlain\<rparr> ''json:/var/log/lrg''
     = Inr \<lparr>lf_Name = ''/var/log/lrg'', lf_Format = FormatJSON\<rparr>"
proof -
  have "clean_abs ''/var/log/lrg''"
    unfolding clean_abs_def
    by (rule exI [of _ "[''var'', ''log'', ''lrg'']"]) (simp add: plain_part_def slash_def)
  with log_file_round_trip [of "\<lparr>lf_Name = ''/var/log/lrg'', lf_Format = FormatJSON\<rparr>" example_env]
  show ?thesis by (simp add: log_file_text_def)
qed

end
