(* ===== verification/Reporter_Log.thy ===== *)
theory Reporter_Log
  imports Path_Config Metrics_Exporters
begin

text \<open>
  The reporter (\<^verbatim>\<open>src/reporter\<close>): its logger with the handlers of \<^verbatim>\<open>src/reporter/logger\<close>, the forwarding
  of errors to Sentry (\<^verbatim>\<open>src/reporter/sentry.go\<close>, \<^verbatim>\<open>src/reporter/sentry\<close>), and its creation, start and
  stop. The log15, Sentry and JSON libraries, the clock and the call stacks are parameters: what is
  recorded is which record reaches which handler, and which error with which tags reaches Sentry.
\<close>

section \<open>Values, errors, records\<close>

text \<open>
  A value of a context, by the cases of the type switch of \<^verbatim>\<open>formatJSONValue\<close>: a time, an error, a
  stringer with its text, a number, a string, or anything else.
\<close>

datatype go_value =
    TimeValue int
  | ErrorValue err
  | StringerValue string
  | NumValue int
  | StringValue string
  | OtherValue nat

text \<open>Rendering of a time with the layout of the logger, and of a value with \<^verbatim>\<open>%+v\<close>.\<close>

record rendering =
  format_time :: "int \<Rightarrow> string"
  plus_v :: "go_value \<Rightarrow> string"

text \<open>A call of a stack, as \<^verbatim>\<open>%+v\<close> (file and line) and as \<^verbatim>\<open>%+n\<close> (qualified name).\<close>

record frame =
  fr_v :: string
  fr_n :: string

text \<open>A log record; the levels of log15 go from 0 (critical) to 4 (debug).\<close>

record log_record =
  lr_Time :: int
  lr_Lvl :: nat
  lr_Msg :: string
  lr_Ctx :: "go_value list"
  lr_Calls :: "frame list"

definition LvlCrit :: nat where "LvlCrit = 0"
definition LvlError :: nat where "LvlError = 1"
definition LvlWarn :: nat where "LvlWarn = 2"
definition LvlInfo :: nat where "LvlInfo = 3"
definition LvlDebug :: nat where "LvlDebug = 4"

lemmas lvl_defs = LvlCrit_def LvlError_def LvlWarn_def LvlInfo_def LvlDebug_def

section \<open>The context of a record\<close>

text \<open>The first part of a string up to a separator: \<^verbatim>\<open>strings.SplitN(s, sep, 2)[0]\<close>.\<close>

definition before :: "char \<Rightarrow> string \<Rightarrow> string" where
  "before sep s = hd (split_on sep s)"

text \<open>
  The loop of \<^verbatim>\<open>contextHandler\<close> over the call stack: it adds the caller, once found, and the module
  of the first call of the program from there on.
\<close>

fun context_loop :: "string \<Rightarrow> bool \<Rightarrow> frame list \<Rightarrow> go_value list \<Rightarrow> go_value list" where
  "context_loop prefix found [] ctx = ctx"
| "context_loop prefix found (call # calls) ctx =
     (let here = \<not> found \<and> \<not> has_prefix (prefix @ ''/reporter'') (fr_v call);
          ctx = (if here then ctx @ [StringValue ''caller'', StringValue (fr_v call)] else ctx) in
      if found \<or> here then
        if \<not> has_prefix prefix (fr_n call) then context_loop prefix True calls ctx
        else if has_prefix (prefix @ ''/vendor/'') (fr_n call) then context_loop prefix True calls ctx
        else ctx @ [StringValue ''module'', StringValue (before (CHR ''.'') (fr_n call))]
      else context_loop prefix False calls ctx)"

definition contextHandler :: "string \<Rightarrow> log_record \<Rightarrow> log_record" where
  "contextHandler prefix r = r\<lparr>lr_Ctx := context_loop prefix False (lr_Calls r) (lr_Ctx r)\<rparr>"

section \<open>JSON lines\<close>

definition formatJSONValue :: "rendering \<Rightarrow> go_value \<Rightarrow> go_value" where
  "formatJSONValue R val = (case val of
      TimeValue t \<Rightarrow> StringValue (format_time R t)
    | ErrorValue e \<Rightarrow> StringValue (err_text e)
    | StringerValue s \<Rightarrow> StringValue s
    | NumValue n \<Rightarrow> val
    | StringValue s \<Rightarrow> val
    | OtherValue x \<Rightarrow> StringValue (plus_v R val))"

definition json_level :: "nat \<Rightarrow> panic + string" where
  "json_level lvl =
     (if lvl = LvlDebug then Inr ''debug''
      else if lvl = LvlInfo then Inr ''info''
      else if lvl = LvlWarn then Inr ''warn''
      else if lvl = LvlError then Inr ''error''
      else if lvl = LvlCrit then Inr ''crit''
      else Inl BadLevel)"

type_synonym json_object = "string \<rightharpoonup> go_value"

text \<open>A key that is not a string is reported, and its value put under the empty key.\<close>

fun json_context :: "rendering \<Rightarrow> go_value list \<Rightarrow> json_object \<Rightarrow> panic + json_object" where
  "json_context R [] props = Inr props"
| "json_context R [key] props = Inl IndexOutOfRange"
| "json_context R (key # val # ctx) props = (case key of
      StringValue k \<Rightarrow> json_context R ctx (props(k \<mapsto> formatJSONValue R val))
    | _ \<Rightarrow> json_context R ctx (props(''JURALOG_ERROR'' \<mapsto> StringValue (plus_v R key @ '' is not a string key''),
             '''' \<mapsto> formatJSONValue R val)))"

definition json_fields :: "log_record \<Rightarrow> string \<Rightarrow> json_object" where
  "json_fields r level = Map.empty(''@version'' \<mapsto> NumValue 1, ''@timestamp'' \<mapsto> TimeValue (lr_Time r),
     ''level'' \<mapsto> StringValue level, ''message'' \<mapsto> StringValue (lr_Msg r))"

text \<open>
  \<^verbatim>\<open>JSONv1Format\<close>; \<open>to_json\<close> is \<^verbatim>\<open>json.Marshal\<close>, whose error is put into an object of its own. The
  line ends with a newline.
\<close>

definition JSONv1Format ::
    "rendering \<Rightarrow> (json_object \<Rightarrow> string + string) \<Rightarrow> log_record \<Rightarrow> panic + string" where
  "JSONv1Format R to_json r = (case json_level (lr_Lvl r) of
      Inl p \<Rightarrow> Inl p
    | Inr level \<Rightarrow> (case json_context R (lr_Ctx r) (json_fields r level) of
        Inl p \<Rightarrow> Inl p
      | Inr props \<Rightarrow>
          let b = (case to_json props of
              Inr b \<Rightarrow> b
            | Inl e \<Rightarrow> (case to_json [''JURALOG_ERROR'' \<mapsto> StringValue e] of Inr b \<Rightarrow> b | Inl _ \<Rightarrow> ''''))
          in Inr (b @ [char_of (10 :: nat)])))"

section \<open>Sentry\<close>

text \<open>
  The loop of \<^verbatim>\<open>sentryHandler\<close>: the last error of the context, wrapped with the message unless it
  says the same, and the other values with string keys as tags.
\<close>

fun sentry_loop ::
    "rendering \<Rightarrow> string \<Rightarrow> go_value list \<Rightarrow> err option \<Rightarrow> (string \<rightharpoonup> string) \<Rightarrow> panic + (err option \<times> (string \<rightharpoonup> string))" where
  "sentry_loop R msg [] err tags = Inr (err, tags)"
| "sentry_loop R msg [key] err tags = Inl IndexOutOfRange"
| "sentry_loop R msg (key # val # ctx) err tags = (case val of
      ErrorValue v \<Rightarrow> sentry_loop R msg ctx (Some (if err_text v = msg then v else Wrap v msg)) tags
    | _ \<Rightarrow> (case key of
        StringValue k \<Rightarrow> sentry_loop R msg ctx err (tags(k \<mapsto> plus_v R val))
      | _ \<Rightarrow> sentry_loop R msg ctx err tags))"

datatype log_effect =
    Emit string log_record
  | EmitJSON string string
  | Capture err "string \<rightharpoonup> string"
  | SentryWait
  | SentryClose
  | MetricsStop

definition sentryHandler :: "rendering \<Rightarrow> log_record \<Rightarrow> (log_effect, unit) go" where
  "sentryHandler R r =
     (if lr_Lvl r > LvlError then go_return ()
      else case sentry_loop R (lr_Msg r) (lr_Ctx r) None Map.empty of
          Inl p \<Rightarrow> go_panic p
        | Inr (None, tags) \<Rightarrow> go_return ()
        | Inr (Some e, tags) \<Rightarrow> go_emit [Capture e tags] ())"

section \<open>The logger\<close>

record logging_config =
  Level :: nat
  Console :: bool
  Syslog :: bool
  Files :: "log_file list"

definition default_logging :: logging_config where
  "default_logging = \<lparr>Level = LvlInfo, Console = False, Syslog = True, Files = []\<rparr>"

text \<open>\<^verbatim>\<open>UnmarshalText\<close> of a level; \<open>from_string\<close> is \<^verbatim>\<open>log.LvlFromString\<close>.\<close>

definition Lvl_UnmarshalText :: "(string \<Rightarrow> err + nat) \<Rightarrow> string \<Rightarrow> err + nat" where
  "Lvl_UnmarshalText from_string text = (case from_string text of
      Inl e \<Rightarrow> Inl (Wrap e (''unknown log level '' @ text)) | Inr l \<Rightarrow> Inr l)"

datatype handler = StdoutHandler | SyslogHandler | FileHandler string log_format

text \<open>The outcome of opening syslog, a log file and a Sentry client.\<close>

record log_backends =
  open_syslog :: "err option"
  open_log :: "string \<Rightarrow> err option"
  open_sentry :: "string \<Rightarrow> err option"

record logger =
  lg_Level :: nat
  lg_Handlers :: "handler list"
  lg_Prefix :: string
  lg_Sentry :: bool

fun file_handlers :: "log_backends \<Rightarrow> log_file list \<Rightarrow> handler list \<Rightarrow> err + handler list" where
  "file_handlers B [] handlers = Inr handlers"
| "file_handlers B (f # fs) handlers = (case open_log B (lf_Name f) of
      Some e \<Rightarrow> Inl (Wrap e (''unable to open log file '' @ lf_Name f))
    | None \<Rightarrow> file_handlers B fs (handlers @ [FileHandler (lf_Name f) (lf_Format f)]))"

definition logger_New :: "log_backends \<Rightarrow> logging_config \<Rightarrow> bool \<Rightarrow> string \<Rightarrow> err + logger" where
  "logger_New B cfg additional prefix =
     (let handlers = (if Console cfg then [StdoutHandler] else []) in
      if Syslog cfg \<and> open_syslog B \<noteq> None
      then Inl (Wrap (the (open_syslog B)) ''unable to open syslog connection'')
      else let handlers = (if Syslog cfg then handlers @ [SyslogHandler] else handlers) in
        case file_handlers B (Files cfg) handlers of
          Inl e \<Rightarrow> Inl e
        | Inr handlers \<Rightarrow> Inr \<lparr>lg_Level = Level cfg, lg_Handlers = handlers, lg_Prefix = prefix, lg_Sentry = additional\<rparr>)"

text \<open>What one handler does with a record; the formats of log15 itself are not modelled.\<close>

definition run_handler ::
    "rendering \<Rightarrow> (json_object \<Rightarrow> string + string) \<Rightarrow> log_record \<Rightarrow> handler \<Rightarrow> (log_effect, unit) go" where
  "run_handler R to_json r h = (case h of
      StdoutHandler \<Rightarrow> go_emit [Emit ''stdout'' r] ()
    | SyslogHandler \<Rightarrow> go_emit [Emit ''syslog'' r] ()
    | FileHandler name fmt \<Rightarrow> (case fmt of
        FormatPlain \<Rightarrow> go_emit [Emit name r] ()
      | FormatJSON \<Rightarrow> (case JSONv1Format R to_json r of
          Inl p \<Rightarrow> go_panic p | Inr line \<Rightarrow> go_emit [EmitJSON name line] ())))"

fun run_handlers ::
    "rendering \<Rightarrow> (json_object \<Rightarrow> string + string) \<Rightarrow> log_record \<Rightarrow> handler list \<Rightarrow> (log_effect, unit) go" where
  "run_handlers R to_json r [] = go_return ()"
| "run_handlers R to_json r (h # hs) =
     go_bind (run_handler R to_json r h) (\<lambda>_. run_handlers R to_json r hs)"

text \<open>
  One record through the logger: the level filter, the context, the handlers, then Sentry, which
  sees the same record, with its context when the filter let it pass.
\<close>

definition log_dispatch ::
    "rendering \<Rightarrow> (json_object \<Rightarrow> string + string) \<Rightarrow> logger \<Rightarrow> log_record \<Rightarrow> (log_effect, unit) go" where
  "log_dispatch R to_json lg r =
     (let passes = lr_Lvl r \<le> lg_Level lg;
          r = (if passes then contextHandler (lg_Prefix lg) r else r) in
      go_bind (if passes then run_handlers R to_json r (lg_Handlers lg) else go_return ()) (\<lambda>_.
        if lg_Sentry lg then sentryHandler R r else go_return ()))"

section \<open>The reporter\<close>

text \<open>The configuration of the reporter (\<^verbatim>\<open>src/reporter/config.go\<close>); Sentry's is its DSN and its tags.\<close>

record sentry_config =
  DSN :: string
  Tags :: "string \<rightharpoonup> string"

record reporting_config =
  Logging :: logging_config
  Sentry :: sentry_config
  Metrics :: "exporter_config list"

record reporter =
  rp_logger :: logger
  rp_sentry :: bool
  rp_metrics :: "metrics option"
  rp_prefix :: string

text \<open>\<^verbatim>\<open>New\<close> of \<^verbatim>\<open>src/reporter/sentry\<close>: whether there is a client. Without a DSN there is none.\<close>

definition sentry_New :: "log_backends \<Rightarrow> sentry_config \<Rightarrow> err + bool" where
  "sentry_New B cfg =
     (if DSN cfg = '''' then Inr False
      else case open_sentry B (DSN cfg) of
          Some e \<Rightarrow> Inl (Wrap e ''unable to initialize Sentry client'')
        | None \<Rightarrow> Inr True)"

definition reporter_New :: "log_backends \<Rightarrow> reporting_config \<Rightarrow> err + reporter" where
  "reporter_New B cfg = (case sentry_New B (Sentry cfg) of
      Inl e \<Rightarrow> Inl e
    | Inr s \<Rightarrow> (case logger_New B (Logging cfg) s ''lrg'' of
        Inl e \<Rightarrow> Inl e
      | Inr l \<Rightarrow> Inr \<lparr>rp_logger = l, rp_sentry = s, rp_metrics = Some (Metrics_New (Metrics cfg) ''lrg''), rp_prefix = ''lrg''\<rparr>))"

text \<open>
  A call of the logging front: the library makes a record with the context given, here of even
  length; \<open>now\<close> and \<open>calls\<close> are the time and the call stack.
\<close>

definition log_call ::
    "rendering \<Rightarrow> (json_object \<Rightarrow> string + string) \<Rightarrow> int \<Rightarrow> frame list \<Rightarrow> nat \<Rightarrow> string \<Rightarrow> go_value list
      \<Rightarrow> reporter \<Rightarrow> (log_effect, unit) go" where
  "log_call R to_json now calls lvl msg ctx rp =
     log_dispatch R to_json (rp_logger rp)
       \<lparr>lr_Time = now, lr_Lvl = lvl, lr_Msg = msg, lr_Ctx = ctx, lr_Calls = calls\<rparr>"

text \<open>\<^verbatim>\<open>Error\<close>: the value is the error it returns.\<close>

definition reporter_Error ::
    "rendering \<Rightarrow> (json_object \<Rightarrow> string + string) \<Rightarrow> int \<Rightarrow> frame list \<Rightarrow> err \<Rightarrow> string \<Rightarrow> go_value list
      \<Rightarrow> reporter \<Rightarrow> (log_effect, err) go" where
  "reporter_Error R to_json now calls e msg ctx rp =
     (let ctx = ctx @ [StringValue ''err'', ErrorValue e] in
      if msg = '''' then
        go_bind (log_call R to_json now calls LvlError (err_text e) ctx rp) (\<lambda>_. go_return e)
      else
        go_bind (log_call R to_json now calls LvlError msg ctx rp) (\<lambda>_. go_return (Wrap e msg)))"

text \<open>\<^verbatim>\<open>Write\<close>, for the standard logger: the trimmed text at level debug; the value is the length.\<close>

definition white :: "char \<Rightarrow> bool" where
  "white c \<longleftrightarrow> (let n = of_char c :: nat in 9 \<le> n \<and> n \<le> 13 \<or> n = 32)"

definition trim_space :: "string \<Rightarrow> string" where
  "trim_space s = rev (dropWhile white (rev (dropWhile white s)))"

definition reporter_Write ::
    "rendering \<Rightarrow> (json_object \<Rightarrow> string + string) \<Rightarrow> int \<Rightarrow> frame list \<Rightarrow> string \<Rightarrow> reporter \<Rightarrow> (log_effect, nat) go" where
  "reporter_Write R to_json now calls p rp =
     go_bind (log_call R to_json now calls LvlDebug (trim_space p) [] rp) (\<lambda>_. go_return (length p))"

text \<open>\<^verbatim>\<open>Start\<close>, and the effects of \<^verbatim>\<open>Stop\<close> in order; the stop of the metrics is in \<open>Metrics_Exporters\<close>.\<close>

definition reporter_Start :: "backends \<Rightarrow> reporter \<Rightarrow> (metrics_effect, reporter) go" where
  "reporter_Start B rp =
     (case rp_metrics rp of
        None \<Rightarrow> go_return rp
      | Some m \<Rightarrow> go_bind (Metrics_Start B m) (\<lambda>m. go_return (rp\<lparr>rp_metrics := Some m\<rparr>)))"

definition reporter_Stop ::
    "rendering \<Rightarrow> (json_object \<Rightarrow> string + string) \<Rightarrow> int \<Rightarrow> frame list \<Rightarrow> reporter \<Rightarrow> (log_effect, unit) go" where
  "reporter_Stop R to_json now calls rp =
     (let info = (\<lambda>msg. log_call R to_json now calls LvlInfo msg [] rp) in
      go_bind (if rp_sentry rp
               then go_bind (info ''shutting down Sentry subsystem'') (\<lambda>_. go_emit [SentryWait, SentryClose] ())
               else go_return ()) (\<lambda>_.
      go_bind (if rp_metrics rp \<noteq> None
               then go_bind (info ''shutting down metric subsystem'') (\<lambda>_. go_emit [MetricsStop] ())
               else go_return ()) (\<lambda>_.
      info ''stop reporting'')))"

section \<open>Properties of a record's way\<close>

text \<open>The pairs of a context of even length.\<close>

fun pairs :: "'a list \<Rightarrow> ('a \<times> 'a) list" where
  "pairs (k # v # ctx) = (k, v) # pairs ctx"
| "pairs _ = []"

lemma pairs_append: "even (length xs) \<Longrightarrow> pairs (xs @ ys) = pairs xs @ pairs ys"
  by (induction xs rule: pairs.induct) auto

text \<open>
  What the handler adds to a context: the caller is the first call that is not in the reporter,
  and the module that of the first call of the program from there on.
\<close>

definition in_reporter :: "string \<Rightarrow> frame \<Rightarrow> bool" where
  "in_reporter prefix call \<longleftrightarrow> has_prefix (prefix @ ''/reporter'') (fr_v call)"

definition in_program :: "string \<Rightarrow> frame \<Rightarrow> bool" where
  "in_program prefix call \<longleftrightarrow> has_prefix prefix (fr_n call) \<and> \<not> has_prefix (prefix @ ''/vendor/'') (fr_n call)"

definition module_pair :: "string \<Rightarrow> frame list \<Rightarrow> go_value list" where
  "module_pair prefix calls = (case List.find (in_program prefix) calls of
      None \<Rightarrow> []
    | Some call \<Rightarrow> [StringValue ''module'', StringValue (before (CHR ''.'') (fr_n call))])"

definition context_pairs :: "string \<Rightarrow> frame list \<Rightarrow> go_value list" where
  "context_pairs prefix calls = (case dropWhile (in_reporter prefix) calls of
      [] \<Rightarrow> []
    | call # rest \<Rightarrow> [StringValue ''caller'', StringValue (fr_v call)] @ module_pair prefix (call # rest))"

lemma context_loop_module: "context_loop prefix True calls ctx = ctx @ module_pair prefix calls"
  by (induction calls arbitrary: ctx) (auto simp: module_pair_def in_program_def)

lemma context_loop_pairs: "context_loop prefix False calls ctx = ctx @ context_pairs prefix calls"
  by (induction calls arbitrary: ctx)
     (auto simp: context_pairs_def in_reporter_def module_pair_def in_program_def context_loop_module
       Let_def)

lemma contextHandler_spec: "contextHandler prefix r = r\<lparr>lr_Ctx := lr_Ctx r @ context_pairs prefix (lr_Calls r)\<rparr>"
  by (simp add: contextHandler_def context_loop_pairs)

lemma even_module_pair: "even (length (module_pair prefix calls))"
  by (simp add: module_pair_def split: option.splits)

lemma even_context_pairs: "even (length (context_pairs prefix calls))"
  by (simp add: context_pairs_def even_module_pair split: list.splits)

text \<open>No error is among the values that are added.\<close>

definition error_of :: "go_value \<times> go_value \<Rightarrow> err option" where
  "error_of p = (case snd p of ErrorValue e \<Rightarrow> Some e | _ \<Rightarrow> None)"

lemma context_pairs_no_error: "List.map_filter error_of (pairs (context_pairs prefix calls)) = []"
  by (auto simp: context_pairs_def module_pair_def error_of_def List.map_filter_simps
      split: list.splits option.splits)

section \<open>JSON lines\<close>

definition pair_key :: "go_value \<Rightarrow> string" where
  "pair_key k = (case k of StringValue s \<Rightarrow> s | _ \<Rightarrow> '''')"

lemma json_context_even: "even (length ctx) \<Longrightarrow> \<exists>props'. json_context R ctx props = Inr props'"
  by (induction R ctx props rule: json_context.induct) (auto split: go_value.splits)

lemma json_context_odd: "odd (length ctx) \<Longrightarrow> json_context R ctx props = Inl IndexOutOfRange"
  by (induction R ctx props rule: json_context.induct) (auto split: go_value.splits)

lemma json_context_string_keys:
  assumes "even (length ctx)" and "\<forall>(k, v) \<in> set (pairs ctx). \<exists>s. k = StringValue s"
  shows "json_context R ctx props =
     Inr (props ++ map_of (rev (map (\<lambda>(k, v). (pair_key k, formatJSONValue R v)) (pairs ctx))))"
  using assms
  by (induction R ctx props rule: json_context.induct) (auto simp: pair_key_def map_add_def fun_eq_iff split: option.splits)

lemma json_level_ok: "(\<exists>level. json_level lvl = Inr level) \<longleftrightarrow> lvl \<le> LvlDebug"
  by (auto simp: json_level_def lvl_defs)

definition json_overrides :: "rendering \<Rightarrow> go_value list \<Rightarrow> json_object" where
  "json_overrides R ctx = map_of (rev (map (\<lambda>(k, v). (pair_key k, formatJSONValue R v)) (pairs ctx)))"

lemma JSONv1Format_ok:
  "(\<exists>line. JSONv1Format R to_json r = Inr line) \<longleftrightarrow> lr_Lvl r \<le> LvlDebug \<and> even (length (lr_Ctx r))"
proof (cases "\<exists>level. json_level (lr_Lvl r) = Inr level")
  case True
  then obtain level where l: "json_level (lr_Lvl r) = Inr level" by blast
  have "lr_Lvl r \<le> LvlDebug" using True json_level_ok by blast
  then show ?thesis
    using json_context_even [of "lr_Ctx r" R "json_fields r level"] json_context_odd [of "lr_Ctx r" R "json_fields r level"]
    by (cases "even (length (lr_Ctx r))") (auto simp: JSONv1Format_def l Let_def)
next
  case False
  then have "\<not> lr_Lvl r \<le> LvlDebug" using json_level_ok by blast
  with False show ?thesis by (cases "json_level (lr_Lvl r)") (auto simp: JSONv1Format_def)
qed


definition plain_rendering :: rendering where
  "plain_rendering = \<lparr>format_time = (\<lambda>t. show_nat (nat t)), plus_v = (\<lambda>v. ''?'')\<rparr>"

text \<open>A JSON library that writes the level and the gateway of an object only.\<close>

definition tiny_json :: "json_object \<Rightarrow> string + string" where
  "tiny_json obj = (case (obj ''level'', obj ''gateway'') of
      (Some (StringValue l), Some (NumValue n)) \<Rightarrow> Inr (l @ (if n = 3 then '' 3'' else '' ?'')) | _ \<Rightarrow> Inl ''unsupported'')"

definition example_record :: log_record where
  "example_record = \<lparr>lr_Time = 7, lr_Lvl = LvlWarn, lr_Msg = ''hello'',
     lr_Ctx = [StringValue ''gateway'', NumValue 4, StringValue ''gateway'', NumValue 3], lr_Calls = []\<rparr>"


section \<open>From the reporter to Sentry\<close>

definition named_error :: "string \<Rightarrow> err \<Rightarrow> err" where
  "named_error msg v = (if err_text v = msg then v else Wrap v msg)"

lemma sentry_loop_spec:
  assumes "even (length ctx)"
  shows "\<exists>tags'. sentry_loop R msg ctx e tags = Inr
     (if List.map_filter error_of (pairs ctx) = [] then e
      else Some (named_error msg (last (List.map_filter error_of (pairs ctx)))), tags')"
  using assms
proof (induction ctx arbitrary: e tags rule: pairs.induct)
  case (1 key val ctx)
  then have ev: "even (length ctx)" by simp
  show ?case
  proof (cases "\<exists>v. val = ErrorValue v")
    case True
    then obtain v where v: "val = ErrorValue v" by blast
    have err: "error_of (key, val) = Some v" by (simp add: v error_of_def)
    obtain tags' where "sentry_loop R msg ctx (Some (named_error msg v)) tags = Inr
        (if List.map_filter error_of (pairs ctx) = [] then Some (named_error msg v)
         else Some (named_error msg (last (List.map_filter error_of (pairs ctx)))), tags')"
      using 1(1) [OF ev] by blast
    with err v show ?thesis by (simp add: List.map_filter_simps named_error_def)
  next
    case False
    then have "error_of (key, val) = None" by (auto simp: error_of_def split: go_value.splits)
    with 1(1) [OF ev] False show ?thesis
      by (cases val; cases key) (auto simp: List.map_filter_simps)
  qed
qed (simp_all add: List.map_filter_simps)

definition no_capture :: "log_effect \<Rightarrow> bool" where
  "no_capture e = (case e of Capture v tags \<Rightarrow> False | _ \<Rightarrow> True)"

lemma run_handlers_ok:
  assumes "lr_Lvl r \<le> LvlDebug" and "even (length (lr_Ctx r))"
  shows "\<exists>es. run_handlers R to_json r hs = Inr ((), es) \<and> list_all no_capture es \<and> length es = length hs"
proof (induction hs)
  case (Cons h hs)
  obtain line where line: "JSONv1Format R to_json r = Inr line" using JSONv1Format_ok assms by blast
  have "\<exists>e. run_handler R to_json r h = go_emit [e] () \<and> no_capture e"
    by (auto simp: run_handler_def line no_capture_def split: handler.splits log_format.splits)
  then obtain e where "run_handler R to_json r h = go_emit [e] ()" "no_capture e" by blast
  with Cons show ?case by (auto simp: go_bind_def go_emit_def)
qed simp


definition example_reporter :: reporter where
  "example_reporter = \<lparr>rp_logger = \<lparr>lg_Level = LvlInfo, lg_Handlers = [SyslogHandler], lg_Prefix = ''lrg'', lg_Sentry = True\<rparr>,
     rp_sentry = True, rp_metrics = Some (Metrics_New [] ''lrg''), rp_prefix = ''lrg''\<rparr>"


end
