(* ===== verification/Daemon_Command.thy ===== *)
theory Daemon_Command
  imports Gateway_Config Netlink_Config Reporter_Log
begin

text \<open>
  The \<^verbatim>\<open>daemon\<close> command (\<^verbatim>\<open>src/cmd/daemon.go\<close>) with the configuration it reads: how the sections get
  their defaults, in which order the components are created, started and stopped, and on which
  errors the command gives up. The YAML library, the files, the outcome of opening the outputs of
  the reporter and of the components' \<^verbatim>\<open>Start\<close> and \<^verbatim>\<open>Stop\<close> are parameters.
\<close>

section \<open>Configuration of the reporter\<close>

definition zero_logging :: logging_config where
  "zero_logging = \<lparr>Level = 0, Console = False, Syslog = False, Files = []\<rparr>"

definition zero_netlink :: netlink_config where
  "zero_netlink = \<lparr>SocketSize = 0, ChannelSize = 0, BackoffInterval = 0, BackoffMaxInterval = 0,
     CureInterval = 0\<rparr>"

definition zero_reporting :: reporting_config where
  "zero_reporting = \<lparr>Logging = zero_logging, Sentry = \<lparr>DSN = '''', Tags = Map.empty\<rparr>, Metrics = []\<rparr>"

datatype command_error =
    UsageError string
  | NoGateway
  | Caused command_error string
  | External err

text \<open>\<^verbatim>\<open>UnmarshalYAML\<close> of the logger's configuration, from its defaults.\<close>

definition unmarshal_logging ::
    "(logging_config \<Rightarrow> command_error + logging_config) \<Rightarrow> command_error + logging_config" where
  "unmarshal_logging decode = (case decode default_logging of
      Inl e \<Rightarrow> Inl (Caused e ''unable to decode logging configuration'')
    | Inr raw \<Rightarrow> Inr raw)"

text \<open>\<^verbatim>\<open>UnmarshalYAML\<close> of the reporter's: the sections without keys first, then the document.\<close>

definition unmarshal_reporting ::
    "(reporting_config \<Rightarrow> command_error + reporting_config)
      \<Rightarrow> (reporting_config \<Rightarrow> command_error + reporting_config)
      \<Rightarrow> reporting_config \<Rightarrow> command_error + reporting_config" where
  "unmarshal_reporting decode_defaults decode zero = (case decode_defaults zero of
      Inl e \<Rightarrow> Inl (Caused e ''unable to decode default reporter configuration'')
    | Inr raw \<Rightarrow> (case decode raw of
        Inl e \<Rightarrow> Inl (Caused e ''unable to decode reporter configuration'')
      | Inr raw \<Rightarrow> Inr raw))"

section \<open>Configuration of the daemon\<close>

record daemon_config =
  Reporting :: "reporting_config"
  Gateways :: "lrg_config list"
  Netlink :: netlink_config

text \<open>\<^verbatim>\<open>UnmarshalYAML\<close>: decode the defaults into a zero value, then the document over them.\<close>

definition unmarshal_daemonConfiguration ::
    "(daemon_config \<Rightarrow> err + daemon_config)
      \<Rightarrow> (daemon_config \<Rightarrow> err + daemon_config)
      \<Rightarrow> daemon_config \<Rightarrow> command_error + daemon_config" where
  "unmarshal_daemonConfiguration decode_defaults decode zero = (case decode_defaults zero of
      Inl e \<Rightarrow> Inl (Caused (External e) ''unable to decode default daemon configuration'')
    | Inr raw \<Rightarrow> (case decode raw of
        Inl e \<Rightarrow> Inl (Caused (External e) ''unable to decode daemon configuration'')
      | Inr raw \<Rightarrow> if Gateways raw = [] then Inl NoGateway else Inr raw))"

definition zero_daemon :: daemon_config where
  "zero_daemon = \<lparr>Reporting = zero_reporting, Gateways = [], Netlink = zero_netlink\<rparr>"

section \<open>The environment of the command\<close>

datatype comp = ReporterComp | DaemonComp | NetlinkComp | GatewaysComp

text \<open>
  \<open>yaml d c\<close> is \<^verbatim>\<open>yaml.Unmarshal\<close> of the document \<open>d\<close> into the structure \<open>c\<close> (with the decoding of
  its sections, but without \<^verbatim>\<open>daemonConfiguration\<close>'s own \<^verbatim>\<open>UnmarshalYAML\<close>, which is modelled here).
\<close>

record 'doc command_env =
  arguments :: "string list"
  check_only :: bool
  read_config :: "string \<Rightarrow> err + 'doc"
  yaml :: "'doc \<Rightarrow> daemon_config \<Rightarrow> err + daemon_config"
  empty_doc :: 'doc
  defaults_doc :: 'doc
  terminal :: bool
  outputs :: log_backends
  start_answer :: "comp \<Rightarrow> err option"
  stop_answer :: "comp \<Rightarrow> err option"

datatype cmd_effect =
    StartCall comp
  | StopCall comp
  | StopFailed comp
  | CmdInfo string
  | WaitTerminated

section \<open>Starting and stopping\<close>

definition components :: "comp list" where
  "components = [ReporterComp, DaemonComp, NetlinkComp, GatewaysComp]"

text \<open>The loop over the components; the started ones are kept last one first.\<close>

fun start_all :: "(comp \<Rightarrow> err option) \<Rightarrow> comp list \<Rightarrow> comp list
    \<Rightarrow> command_error option \<times> comp list \<times> cmd_effect list" where
  "start_all start [] started = (None, started, [])"
| "start_all start (c # cs) started = (case start c of
      Some e \<Rightarrow> (Some (Caused (External e) ''unable to start component''), started, [StartCall c])
    | None \<Rightarrow> (let (r, started', es) = start_all start cs (c # started)
        in (r, started', StartCall c # es)))"

text \<open>The deferred function: an error of a \<^verbatim>\<open>Stop\<close> is reported and ignored.\<close>

fun stop_all :: "(comp \<Rightarrow> err option) \<Rightarrow> comp list \<Rightarrow> cmd_effect list" where
  "stop_all stop [] = []"
| "stop_all stop (c # cs) =
     StopCall c # (if stop c = None then [] else [StopFailed c]) @ stop_all stop cs"

definition run_components ::
    "(comp \<Rightarrow> err option) \<Rightarrow> (comp \<Rightarrow> err option) \<Rightarrow> command_error option \<times> cmd_effect list" where
  "run_components start stop =
     (let (r, started, es) = start_all start components [] in
      case r of
        Some e \<Rightarrow> (Some e, es @ stop_all stop started)
      | None \<Rightarrow> (None, es @ [CmdInfo ''Last-Resort Gateway has started...'', WaitTerminated,
          CmdInfo ''stopping all components...''] @ stop_all stop started))"

section \<open>The command\<close>

text \<open>\<^verbatim>\<open>yaml.Unmarshal(doc, &config)\<close>: the configuration has its own \<^verbatim>\<open>UnmarshalYAML\<close>.\<close>

definition parse_daemon ::
    "'doc command_env \<Rightarrow> 'doc \<Rightarrow> command_error + daemon_config" where
  "parse_daemon E doc = unmarshal_daemonConfiguration (yaml E (defaults_doc E)) (yaml E doc)
     zero_daemon"

text \<open>On a terminal, log to the console and not to syslog.\<close>

definition adapt_logging :: "bool \<Rightarrow> daemon_config \<Rightarrow> daemon_config" where
  "adapt_logging tty cfg =
     (if tty then cfg\<lparr>Reporting := (Reporting cfg)\<lparr>Logging :=
        (Logging (Reporting cfg))\<lparr>Console := True, Syslog := False\<rparr>\<rparr>\<rparr>
      else cfg)"

text \<open>\<^verbatim>\<open>New\<close> of the daemon, netlink and gateway components never fails in this program.\<close>

definition daemon_action :: "'doc command_env \<Rightarrow> command_error option \<times> cmd_effect list" where
  "daemon_action E =
     (if length (arguments E) \<noteq> 1
      then (Some (UsageError ''a configuration file is required''), [])
      else case read_config E (hd (arguments E)) of
        Inl e \<Rightarrow> (Some (Caused (External e) ''unable to read configuration file''), [])
      | Inr config_file \<Rightarrow> (case parse_daemon E (empty_doc E) of
          Inl e \<Rightarrow> (Some (Caused e ''unable to get default configuration''), [])
        | Inr _ \<Rightarrow> (case parse_daemon E config_file of
            Inl e \<Rightarrow> (Some (Caused e ''unable to parse configuration file''), [])
          | Inr cfg \<Rightarrow> (case reporter_New (outputs E) (Reporting (adapt_logging (terminal E) cfg)) of
              Inl e \<Rightarrow> (Some (Caused (External e) ''unable to initialize reporting component''), [])
            | Inr rp \<Rightarrow>
                if check_only E then (None, [])
                else run_components (start_answer E) (stop_answer E)))))"

section \<open>Properties\<close>

text \<open>What the YAML library documents: keys that a document does not have are left alone.\<close>

definition leaves_missing_keys :: "'doc command_env \<Rightarrow> bool" where
  "leaves_missing_keys E \<longleftrightarrow> (\<forall>c. yaml E (empty_doc E) c = Inr c)
     \<and> (\<forall>c c'. yaml E (defaults_doc E) c = Inr c' \<longrightarrow> Gateways c' = Gateways c)"

text \<open>
  C29. The command never starts anything: it first decodes an empty document to get the default
  configuration, and the configuration's own check refuses an empty document because it has no
  gateway, whatever the configuration file says.
\<close>

theorem daemon_command_never_starts:
  assumes "leaves_missing_keys E"
  shows "\<exists>e. daemon_action E = (Some e, [])"
proof -
  have "\<exists>e. parse_daemon E (empty_doc E) = Inl e"
    using assms
    by (auto simp: parse_daemon_def unmarshal_daemonConfiguration_def leaves_missing_keys_def zero_daemon_def
        split: sum.splits)
  then show ?thesis by (auto simp: daemon_action_def split: sum.splits)
qed

text \<open>A small YAML library: a document is a list of sections, each given or empty.\<close>

datatype section_doc = NetlinkSection netlink_config | GatewaysSection "lrg_config list" | EmptyNetlink

fun decode_sections :: "section_doc list \<Rightarrow> daemon_config \<Rightarrow> daemon_config" where
  "decode_sections [] c = c"
| "decode_sections (NetlinkSection n # ds) c = decode_sections ds (c\<lparr>Netlink := n\<rparr>)"
| "decode_sections (EmptyNetlink # ds) c = decode_sections ds (c\<lparr>Netlink := DefaultConfiguration\<rparr>)"
| "decode_sections (GatewaysSection gs # ds) c = decode_sections ds (c\<lparr>Gateways := gs\<rparr>)"

definition example_command :: "section_doc list command_env" where
  "example_command = \<lparr>arguments = [''lrg.yml''], check_only = False,
     read_config = (\<lambda>_. Inr [GatewaysSection [default_lrg_config]]),
     yaml = (\<lambda>d c. Inr (decode_sections d c)), empty_doc = [], defaults_doc = [EmptyNetlink],
     terminal = False, outputs = \<lparr>open_syslog = None, open_log = (\<lambda>_. None), open_sentry = (\<lambda>_. None)\<rparr>,
     start_answer = (\<lambda>_. None), stop_answer = (\<lambda>_. None)\<rparr>"

theorem daemon_command_never_starts_witness:
  "\<exists>e. daemon_action example_command = (Some e, [])
     \<and> (\<exists>cfg. parse_daemon example_command [GatewaysSection [default_lrg_config]] = Inr cfg)"
proof -
  have "leaves_missing_keys example_command"
    by (simp add: leaves_missing_keys_def example_command_def)
  moreover have "\<exists>cfg. parse_daemon example_command [GatewaysSection [default_lrg_config]] = Inr cfg"
    by (simp add: parse_daemon_def unmarshal_daemonConfiguration_def example_command_def zero_daemon_def)
  ultimately show ?thesis using daemon_command_never_starts by blast
qed

text \<open>The starts and the stops of a trace, in order.\<close>

definition starts :: "cmd_effect list \<Rightarrow> comp list" where
  "starts es = concat (map (\<lambda>e. case e of StartCall c \<Rightarrow> [c] | _ \<Rightarrow> []) es)"

definition stops :: "cmd_effect list \<Rightarrow> comp list" where
  "stops es = concat (map (\<lambda>e. case e of StopCall c \<Rightarrow> [c] | _ \<Rightarrow> []) es)"

lemma starts_stops_simps [simp]:
  "starts [] = []" "stops [] = []" "starts (xs @ ys) = starts xs @ starts ys"
  "stops (xs @ ys) = stops xs @ stops ys"
  "starts (StartCall c # es) = c # starts es" "stops (StartCall c # es) = stops es"
  "starts (StopCall c # es) = starts es" "stops (StopCall c # es) = c # stops es"
  "starts (StopFailed c # es) = starts es" "stops (StopFailed c # es) = stops es"
  "starts (CmdInfo m # es) = starts es" "stops (CmdInfo m # es) = stops es"
  "starts (WaitTerminated # es) = starts es" "stops (WaitTerminated # es) = stops es"
  by (simp_all add: starts_def stops_def)

lemma stop_all_calls: "starts (stop_all stop cs) = []" "stops (stop_all stop cs) = cs"
  by (induction cs) simp_all

lemma start_all_spec:
  assumes "start_all start cs st = (r, st', es)"
  shows "stops es = [] \<and> (\<exists>n \<le> length cs. st' = rev (take n cs) @ st
     \<and> (case r of
          None \<Rightarrow> n = length cs \<and> starts es = cs
        | Some e \<Rightarrow> n < length cs \<and> starts es = take (Suc n) cs \<and> start (cs ! n) \<noteq> None)
     \<and> (\<forall>i < n. start (cs ! i) = None))"
  using assms
proof (induction cs arbitrary: st r st' es)
  case Nil
  then show ?case by simp
next
  case (Cons c cs)
  show ?case
  proof (cases "start c")
    case (Some e)
    with Cons.prems show ?thesis by (intro conjI exI [of _ 0]) auto
  next
    case None
    with Cons.prems obtain es' where es: "start_all start cs (c # st) = (r, st', es')" "es = StartCall c # es'"
      by (auto split: prod.splits)
    from Cons.IH [OF es(1)] obtain n where n: "stops es' = []" "n \<le> length cs"
        "st' = rev (take n cs) @ c # st"
        "case r of None \<Rightarrow> n = length cs \<and> starts es' = cs
         | Some e \<Rightarrow> n < length cs \<and> starts es' = take (Suc n) cs \<and> start (cs ! n) \<noteq> None"
        "\<forall>i < n. start (cs ! i) = None" by blast
    with None es(2) show ?thesis
      by (intro conjI exI [of _ "Suc n"]) (auto simp: less_Suc_eq_0_disj split: option.splits)
  qed
qed

text \<open>
  C30. Components are started in order up to the first failure, and exactly those that started
  are stopped, once each, in the reverse order, after the last start; without a failure they are
  stopped only after the termination was awaited.
\<close>

theorem started_components_are_stopped:
  assumes "run_components start stop = (r, es)"
  shows "\<exists>n xs ys. es = xs @ ys \<and> stops xs = [] \<and> starts ys = [] \<and> stops ys = rev (take n components)
     \<and> (\<forall>i < n. start (components ! i) = None)
     \<and> (case r of
          None \<Rightarrow> n = 4 \<and> starts xs = components \<and> WaitTerminated \<in> set xs
        | Some e \<Rightarrow> n < 4 \<and> starts xs = take (Suc n) components \<and> start (components ! n) \<noteq> None)"
proof -
  obtain q st fs where s: "start_all start components [] = (q, st, fs)"
    by (cases "start_all start components []") auto
  from start_all_spec [OF s] obtain n where n: "stops fs = []" "n \<le> length components" "st = rev (take n components)"
      "case q of None \<Rightarrow> n = length components \<and> starts fs = components
         | Some e \<Rightarrow> n < length components \<and> starts fs = take (Suc n) components \<and> start (components ! n) \<noteq> None"
      "\<forall>i < n. start (components ! i) = None"
    by auto
  have len: "length components = 4" by (simp add: components_def)
  show ?thesis
  proof (cases q)
    case None
    with assms s n len show ?thesis
      by (intro exI [of _ n] exI [of _ "fs @ [CmdInfo ''Last-Resort Gateway has started...'', WaitTerminated,
          CmdInfo ''stopping all components...'']"] exI [of _ "stop_all stop st"])
         (auto simp: run_components_def stop_all_calls)
  next
    case (Some e)
    with assms s n len show ?thesis
      by (intro exI [of _ n] exI [of _ fs] exI [of _ "stop_all stop st"])
         (auto simp: run_components_def stop_all_calls)
  qed
qed

theorem started_components_are_stopped_witness:
  "\<exists>r es. run_components (\<lambda>c. if c = NetlinkComp then Some (Plain ''denied'') else None) (\<lambda>c. None) = (r, es)
     \<and> starts es = [ReporterComp, DaemonComp, NetlinkComp] \<and> stops es = [DaemonComp, ReporterComp]"
proof -
  let ?start = "\<lambda>c. if c = NetlinkComp then Some (Plain ''denied'') else None"
  obtain r es where r: "run_components ?start (\<lambda>c. None) = (r, es)"
    by (cases "run_components ?start (\<lambda>c. None)") auto
  then have e: "r \<noteq> None" by (auto simp: run_components_def components_def)
  from started_components_are_stopped [OF r] obtain n xs ys where n: "es = xs @ ys" "stops xs = []" "starts ys = []"
      "stops ys = rev (take n components)" "n < 4" "starts xs = take (Suc n) components"
      "?start (components ! n) \<noteq> None"
    using e by (auto split: option.splits)
  then have "n = 2" by (auto simp: components_def less_Suc_eq numeral_eq_Suc split: if_splits)
  with r n show ?thesis by (auto simp: components_def numeral_eq_Suc)
qed

section \<open>The program\<close>

text \<open>
  \<^verbatim>\<open>errors.Cause\<close>, and the text of an error that is a cause. \<^verbatim>\<open>main\<close> (\<^verbatim>\<open>src/main.go\<close>) writes the cause
  of the error of the command and exits with 1. \<open>arguments\<close> selects the command in the library.
\<close>

fun err_cause :: "err \<Rightarrow> string" where
  "err_cause (Plain s) = s"
| "err_cause (Wrap e m) = err_cause e"

fun cause :: "command_error \<Rightarrow> command_error" where
  "cause (Caused e m) = cause e"
| "cause e = e"

fun cause_text :: "command_error \<Rightarrow> string" where
  "cause_text (UsageError s) = s"
| "cause_text NoGateway = ''at least one gateway is needed''"
| "cause_text (External e) = err_cause e"
| "cause_text (Caused e m) = cause_text e"

datatype main_effect = Stderr string | Stdout string | ExitWith nat

definition end_line :: "string \<Rightarrow> string" where
  "end_line s = s @ [char_of (10 :: nat)]"

definition main_program :: "command_error option \<Rightarrow> main_effect list" where
  "main_program r = (case r of
      None \<Rightarrow> []
    | Some e \<Rightarrow> (case cause e of
          UsageError s \<Rightarrow> [Stderr (end_line (''Usage error: '' @ s)), Stderr (end_line ''Use --help for usage'')]
        | c \<Rightarrow> [Stderr (end_line (''Runtime error: '' @ cause_text c))]) @ [ExitWith 1])"

text \<open>The \<^verbatim>\<open>version\<close> command (\<^verbatim>\<open>src/cmd/version.go\<close>).\<close>

definition version_action ::
    "string \<Rightarrow> string \<Rightarrow> string \<Rightarrow> string list \<Rightarrow> command_error option \<times> main_effect list" where
  "version_action version build_date runtime_version args =
     (if args \<noteq> [] then (Some (UsageError ''no additional arguments accepted''), [])
      else (None, [Stdout (end_line (''last-resort-gateway '' @ version)),
             Stdout (end_line (''  Build date: '' @ build_date)),
             Stdout (end_line (''  Built with: '' @ runtime_version))]))"

text \<open>The messages the errors were wrapped with are not shown, and any error ends with 1.\<close>

lemma cause_cause [simp]: "cause (cause e) = cause e"
  by (induction e) simp_all

lemma cause_text_cause [simp]: "cause_text (cause e) = cause_text e"
  by (induction e) simp_all

lemma main_program_cause: "main_program (Some (Caused e m)) = main_program (Some e)"
  by (simp add: main_program_def)

lemma main_program_exit: "ExitWith 1 \<in> set (main_program (Some e))"
  by (simp add: main_program_def)

end
