(* ===== verification/Command_Registration.thy ===== *)
theory Command_Registration
  imports Daemon_Command
begin

text \<open>
  The commands as they are registered with the command-line library (\<^verbatim>\<open>src/cmd/root.go\<close>, the values
  \<^verbatim>\<open>daemonCmd\<close> and \<^verbatim>\<open>versionCmd\<close>), down to what \<^verbatim>\<open>main\<close> prints. The library is a parameter: what it makes
  of the arguments of the process, and its \<^verbatim>\<open>Run\<close> with the documented use of the callbacks.
\<close>

section \<open>Commands\<close>

text \<open>What the library hands to an action: the arguments and the flag \<^verbatim>\<open>check\<close>.\<close>

record cli_context =
  Args :: "string list"
  check_flag :: bool

datatype program_effect = Daemon cmd_effect | Main main_effect

type_synonym usage_handler = "string \<Rightarrow> command_error"

record cli_command =
  cmd_Name :: string
  cmd_Usage :: string
  cmd_Description :: string
  cmd_ArgsUsage :: string
  cmd_Flags :: "(string \<times> string) list"
  cmd_Action :: "cli_context \<Rightarrow> command_error option \<times> program_effect list"
  cmd_OnUsageError :: "usage_handler option"

record cli_app =
  app_Name :: string
  app_Version :: string
  app_Usage :: string
  app_Description :: string
  app_OnUsageError :: "usage_handler option"
  app_Commands :: "cli_command list"

definition wrapUsageError :: "cli_command \<Rightarrow> cli_command" where
  "wrapUsageError c = c\<lparr>cmd_OnUsageError := Some UsageError\<rparr>"

definition daemonCmd :: "'doc command_env \<Rightarrow> cli_command" where
  "daemonCmd E = \<lparr>cmd_Name = ''daemon'', cmd_Usage = ''Start Last-Resort Gateway'',
     cmd_Description = end_line ''Start Last-Resort Gateway as a daemon.'' @ end_line ''''
       @ ''A configuration file must be provided.'',
     cmd_ArgsUsage = ''FILE'', cmd_Flags = [(''check'', ''check configuration syntax and exit'')],
     cmd_Action = (\<lambda>c. let (r, es) = daemon_action (E\<lparr>arguments := Args c, check_only := check_flag c\<rparr>)
        in (r, map Daemon es)),
     cmd_OnUsageError = None\<rparr>"

definition versionCmd :: "string \<Rightarrow> string \<Rightarrow> string \<Rightarrow> cli_command" where
  "versionCmd version build_date runtime_version = \<lparr>cmd_Name = ''version'', cmd_Usage = ''Print version'',
     cmd_Description = ''Display version and build information about JURA.'', cmd_ArgsUsage = '' '', cmd_Flags = [],
     cmd_Action = (\<lambda>c. let (r, es) = version_action version build_date runtime_version (Args c)
        in (r, map Main es)),
     cmd_OnUsageError = None\<rparr>"

definition RootCmd :: "'doc command_env \<Rightarrow> string \<Rightarrow> string \<Rightarrow> string \<Rightarrow> cli_app" where
  "RootCmd E version build_date runtime_version =
     \<lparr>app_Name = ''last-resort-gateway'', app_Version = version, app_Usage = ''Last-Resort Gateway'',
      app_Description = end_line ''Maintain last resort gateways to survive transient''
        @ end_line ''routing daemon failures. Appropriate routes are copied''
        @ ''and kept up-to-date unless they completely disappear.'',
      app_OnUsageError = Some UsageError,
      app_Commands = [wrapUsageError (daemonCmd E), wrapUsageError (versionCmd version build_date runtime_version)]\<rparr>"

section \<open>The library\<close>

text \<open>
  What the arguments of the process mean for an application: a usage error outside or inside a
  command, a command to run, or a text the library shows by itself (help or version).
\<close>

datatype cli_outcome =
    AppUsage string
  | CommandUsage string string
  | Invoked string cli_context
  | Informed

definition documented_cli ::
    "(cli_app \<Rightarrow> string list \<Rightarrow> cli_outcome)
      \<Rightarrow> (cli_app \<Rightarrow> string list \<Rightarrow> command_error option \<times> program_effect list) \<Rightarrow> bool" where
  "documented_cli parse run \<longleftrightarrow> (\<forall>app args. case parse app args of
      AppUsage e \<Rightarrow> (\<forall>h. app_OnUsageError app = Some h \<longrightarrow> run app args = (Some (h e), []))
    | CommandUsage n e \<Rightarrow> (\<exists>c \<in> set (app_Commands app). cmd_Name c = n
        \<and> (\<forall>h. cmd_OnUsageError c = Some h \<longrightarrow> run app args = (Some (h e), [])))
    | Invoked n ctx \<Rightarrow> (\<exists>c \<in> set (app_Commands app). cmd_Name c = n \<and> run app args = cmd_Action c ctx)
    | Informed \<Rightarrow> run app args = (None, []))"

text \<open>\<^verbatim>\<open>main\<close>: the command, then the message and the exit code for its error.\<close>

definition main_run ::
    "(cli_app \<Rightarrow> string list \<Rightarrow> command_error option \<times> program_effect list)
      \<Rightarrow> cli_app \<Rightarrow> string list \<Rightarrow> program_effect list" where
  "main_run run app args = (let (r, es) = run app args in es @ map Main (main_program r))"

definition usage_hint :: program_effect where
  "usage_hint = Main (Stderr (end_line ''Use --help for usage''))"

section \<open>Which errors are usage errors\<close>

lemma hint_of_error: "usage_hint \<in> Main ` set (main_program (Some e)) \<longleftrightarrow> (\<exists>s. cause e = UsageError s)"
  by (cases "cause e") (auto simp: usage_hint_def main_program_def end_line_def)

lemma hint_of_result:
  "usage_hint \<in> set (map Main (main_program r)) \<longleftrightarrow> (\<exists>e s. r = Some e \<and> cause e = UsageError s)"
  using hint_of_error by (cases r) (auto simp: main_program_def)

lemma cause_config_error:
  "unmarshal_daemonConfiguration d1 d2 z = Inl e \<Longrightarrow> cause e \<noteq> UsageError s"
  by (auto simp: unmarshal_daemonConfiguration_def split: sum.splits if_splits)

lemma cause_start_error:
  "start_all start cs st = (Some e, st', es) \<Longrightarrow> cause e \<noteq> UsageError s"
  by (induction cs arbitrary: st st' es) (auto split: option.splits prod.splits)

lemma cause_run_error: "run_components start stop = (Some e, es) \<Longrightarrow> cause e \<noteq> UsageError s"
  by (auto simp: run_components_def Let_def split: prod.splits option.splits dest: cause_start_error)

text \<open>The \<^verbatim>\<open>daemon\<close> command fails for its usage only when it is not given exactly one file.\<close>

lemma daemon_usage_error:
  assumes "daemon_action E = (Some e, es)"
  shows "(\<exists>s. cause e = UsageError s) \<longleftrightarrow> length (arguments E) \<noteq> 1"
  using assms
  by (auto simp: daemon_action_def parse_daemon_def split: if_splits sum.splits
      dest: cause_config_error cause_run_error)

lemma version_usage_error: "fst (version_action v b g args) \<noteq> None \<longleftrightarrow> args \<noteq> []"
  "fst (version_action v b g args) = Some e \<Longrightarrow> \<exists>s. cause e = UsageError s"
  by (auto simp: version_action_def split: if_splits)

text \<open>The arguments are wrong for the command.\<close>

fun misused :: "cli_outcome \<Rightarrow> bool" where
  "misused (AppUsage e) \<longleftrightarrow> True"
| "misused (CommandUsage n e) \<longleftrightarrow> True"
| "misused (Invoked n ctx) \<longleftrightarrow> (if n = ''daemon'' then length (Args ctx) \<noteq> 1 else Args ctx \<noteq> [])"
| "misused Informed \<longleftrightarrow> False"

lemma no_hint_of_effects: "usage_hint \<notin> set (snd (cmd_Action (daemonCmd E) ctx))"
    "usage_hint \<notin> set (snd (cmd_Action (versionCmd v b g) ctx))"
  by (auto simp: daemonCmd_def versionCmd_def version_action_def usage_hint_def split: prod.splits)

lemma hint_of_main: "usage_hint \<in> set (main_run run app args) \<longleftrightarrow>
    usage_hint \<in> set (snd (run app args)) \<or> (\<exists>e s. fst (run app args) = Some e \<and> cause e = UsageError s)"
  using hint_of_result [of "fst (run app args)"] by (cases "run app args") (simp add: main_run_def)

lemma action_misused:
  "(\<exists>e s. fst (cmd_Action (daemonCmd E) ctx) = Some e \<and> cause e = UsageError s) \<longleftrightarrow> length (Args ctx) \<noteq> 1"
  "(\<exists>e s. fst (cmd_Action (versionCmd v b g) ctx) = Some e \<and> cause e = UsageError s) \<longleftrightarrow> Args ctx \<noteq> []"
proof -
  let ?E = "E\<lparr>arguments := Args ctx, check_only := check_flag ctx\<rparr>"
  have "length (Args ctx) \<noteq> 1 \<Longrightarrow> daemon_action ?E = (Some (UsageError ''a configuration file is required''), [])"
    by (simp add: daemon_action_def)
  then show "(\<exists>e s. fst (cmd_Action (daemonCmd E) ctx) = Some e \<and> cause e = UsageError s) \<longleftrightarrow> length (Args ctx) \<noteq> 1"
    using daemon_usage_error [of ?E] by (cases "daemon_action ?E") (fastforce simp: daemonCmd_def)
  show "(\<exists>e s. fst (cmd_Action (versionCmd v b g) ctx) = Some e \<and> cause e = UsageError s) \<longleftrightarrow> Args ctx \<noteq> []"
    by (simp add: versionCmd_def version_action_def)
qed


section \<open>An example\<close>

text \<open>A small command-line library: the first argument names the command, the only option is \<^verbatim>\<open>--check\<close>.\<close>

definition example_parse :: "cli_app \<Rightarrow> string list \<Rightarrow> cli_outcome" where
  "example_parse app args = (case args of
      [] \<Rightarrow> Informed
    | n # as \<Rightarrow>
        if n \<notin> cmd_Name ` set (app_Commands app) then AppUsage ''no such command''
        else let options = filter (\<lambda>a. take 1 a = ''-'') as in
          if list_all (\<lambda>a. a = ''--check'') options
          then Invoked n \<lparr>Args = filter (\<lambda>a. take 1 a \<noteq> ''-'') as, check_flag = options \<noteq> []\<rparr>
          else CommandUsage n ''flag provided but not defined'')"

definition named :: "cli_app \<Rightarrow> string \<Rightarrow> cli_command" where
  "named app n = hd (filter (\<lambda>c. cmd_Name c = n) (app_Commands app))"

definition handle :: "usage_handler option \<Rightarrow> string \<Rightarrow> command_error option \<times> program_effect list" where
  "handle h e = (Some (case h of None \<Rightarrow> External (Plain e) | Some f \<Rightarrow> f e), [])"

definition example_run :: "cli_app \<Rightarrow> string list \<Rightarrow> command_error option \<times> program_effect list" where
  "example_run app args = (case example_parse app args of
      AppUsage e \<Rightarrow> handle (app_OnUsageError app) e
    | CommandUsage n e \<Rightarrow> handle (cmd_OnUsageError (named app n)) e
    | Invoked n ctx \<Rightarrow> cmd_Action (named app n) ctx
    | Informed \<Rightarrow> (None, []))"

lemma named_registered:
  assumes "n \<in> cmd_Name ` set (app_Commands app)"
  shows "named app n \<in> set (app_Commands app) \<and> cmd_Name (named app n) = n"
proof -
  have "filter (\<lambda>c. cmd_Name c = n) (app_Commands app) \<noteq> []" using assms by (auto simp: filter_empty_conv)
  from hd_in_set [OF this] show ?thesis by (simp add: named_def)
qed

lemma parsed_registered:
  "example_parse app args = CommandUsage n e \<Longrightarrow> n \<in> cmd_Name ` set (app_Commands app)"
  "example_parse app args = Invoked n ctx \<Longrightarrow> n \<in> cmd_Name ` set (app_Commands app)"
  by (auto simp: example_parse_def Let_def split: list.splits if_splits)

lemma example_documented: "documented_cli example_parse example_run"
  unfolding documented_cli_def
proof (intro allI)
  fix app args
  show "case example_parse app args of
      AppUsage e \<Rightarrow> (\<forall>h. app_OnUsageError app = Some h \<longrightarrow> example_run app args = (Some (h e), []))
    | CommandUsage n e \<Rightarrow> (\<exists>c \<in> set (app_Commands app). cmd_Name c = n
        \<and> (\<forall>h. cmd_OnUsageError c = Some h \<longrightarrow> example_run app args = (Some (h e), [])))
    | Invoked n ctx \<Rightarrow> (\<exists>c \<in> set (app_Commands app). cmd_Name c = n \<and> example_run app args = cmd_Action c ctx)
    | Informed \<Rightarrow> example_run app args = (None, [])"
  proof (cases "example_parse app args")
    case (CommandUsage n e)
    with named_registered [OF parsed_registered(1) [OF this]] show ?thesis
      by (auto simp: example_run_def handle_def intro!: bexI [of _ "named app n"])
  next
    case (Invoked n ctx)
    with named_registered [OF parsed_registered(2) [OF this]] show ?thesis
      by (auto simp: example_run_def intro!: bexI [of _ "named app n"])
  qed (simp_all add: example_run_def handle_def)
qed


end
