(* ===== verification/Metric_Names.thy ===== *)
theory Metric_Names
  imports LRG_Prelude
begin

text \<open>
  Names of metrics: how the reporter completes a name with the module of its caller
  (\<^verbatim>\<open>src/reporter/metrics.go\<close>) and how the collectd exporter splits it and writes the metrics of
  the registry (\<^verbatim>\<open>src/reporter/metrics/collectd.go\<close>). The call stack, the registry and the answers
  of the collectd client are parameters.
\<close>

section \<open>Completing a name\<close>

definition dot :: char where
  "dot = CHR ''.''"

text \<open>
  The body of the loop up to the module of one call: \<open>call\<close> is the qualified name of the function
  (\<^verbatim>\<open>fmt.Sprintf("%+n", call)\<close>); \<open>None\<close> stands for \<^verbatim>\<open>continue\<close>.
\<close>

definition frame_module :: "string \<Rightarrow> string \<Rightarrow> string option" where
  "frame_module prefix call =
     (if \<not> has_prefix prefix call then None
      else let m = drop (length prefix) call in
        if m = '''' \<or> hd m \<noteq> CHR ''/'' then None
        else let m = tl m in
          if has_prefix ''vendor/'' m then None
          else Some (map (\<lambda>c. if c = CHR ''/'' then dot else c) (hd (split_on dot m))))"

fun find_module :: "string \<Rightarrow> string \<Rightarrow> string list \<Rightarrow> string \<Rightarrow> string" where
  "find_module prefix name [] best = best"
| "find_module prefix name (call # calls) best = (case frame_module prefix call of
      None \<Rightarrow> find_module prefix name calls best
    | Some m \<Rightarrow>
        let best = m @ dot # name in
        if m \<noteq> ''reporter'' then best else find_module prefix name calls best)"

text \<open>The slice \<^verbatim>\<open>name[:1]\<close> panics on the empty name.\<close>

definition expandName :: "string list \<Rightarrow> string \<Rightarrow> string \<Rightarrow> panic + string" where
  "expandName callers name prefix =
     (if name = '''' then Inl IndexOutOfRange
      else if take 1 name = [dot] then Inr (drop 1 name)
      else let best = find_module prefix name callers '''' in
        Inr (if best \<noteq> '''' then best else name))"

text \<open>The kinds of metrics of the reporter; \<open>register\<close> is the library's \<^verbatim>\<open>GetOrRegister\<close>.\<close>

datatype metric_kind = CounterKind | GaugeKind | GaugeFloat64Kind | HistogramKind | MeterKind | TimerKind

definition get_metric ::
    "(metric_kind \<Rightarrow> string \<Rightarrow> 'reg \<Rightarrow> 'reg) \<Rightarrow> metric_kind \<Rightarrow> string list \<Rightarrow> string \<Rightarrow> string \<Rightarrow> 'reg \<Rightarrow> panic + 'reg" where
  "get_metric register kind callers prefix name reg = (case expandName callers name prefix of
      Inl p \<Rightarrow> Inl p | Inr full \<Rightarrow> Inr (register kind full reg))"

text \<open>The loop keeps the first module that is not the reporter itself, else the reporter.\<close>

lemma find_module_spec:
  "find_module prefix name calls best =
     (case List.find (\<lambda>m. m \<noteq> ''reporter'') (List.map_filter (frame_module prefix) calls) of
        Some m \<Rightarrow> m @ dot # name
      | None \<Rightarrow> if List.map_filter (frame_module prefix) calls = [] then best else ''reporter'' @ dot # name)"
  by (induction calls arbitrary: best)
     (auto simp: List.map_filter_simps Let_def split: option.splits)

text \<open>
  A metric name that starts with a dot is used without it. Any other non-empty name is put
  behind the first module of the call stack that belongs to the program and is not the reporter,
  behind \<^verbatim>\<open>reporter\<close> when there is only the reporter, and stays as it is when the stack has no module
  of the program.
\<close>

theorem expandName_spec:
  assumes "name \<noteq> ''''"
  shows "expandName callers name prefix = Inr (
     let modules = List.map_filter (frame_module prefix) callers in
     if hd name = dot then tl name
     else case List.find (\<lambda>m. m \<noteq> ''reporter'') modules of
         Some m \<Rightarrow> m @ dot # name
       | None \<Rightarrow> if modules = [] then name else ''reporter'' @ dot # name)"
  using assms
  by (cases name) (auto simp: expandName_def find_module_spec Let_def split: option.splits)

theorem expandName_spec_witness:
  "expandName [''lrg/reporter.(*Reporter).Counter'', ''lrg/vendor/tomb.v2.Go'', ''lrg/netlink.(*realComponent).run'']
     ''updates'' ''lrg'' = Inr ''netlink.updates''"
  by (subst expandName_spec) (simp_all add: dot_def frame_module_def has_prefix_def List.map_filter_simps Let_def)

text \<open>An empty metric name is a panic.\<close>

lemma expandName_empty: "expandName callers '''' prefix = Inl IndexOutOfRange"
  by (simp add: expandName_def)

section \<open>Splitting a name for collectd\<close>

text \<open>\<^verbatim>\<open>strings.LastIndex\<close> of a one-character separator.\<close>

fun last_index :: "char \<Rightarrow> string \<Rightarrow> nat option" where
  "last_index sep [] = None"
| "last_index sep (c # cs) = (case last_index sep cs of
      Some n \<Rightarrow> Some (Suc n)
    | None \<Rightarrow> if c = sep then Some 0 else None)"

definition collectdGetPluginName :: "string \<Rightarrow> string \<times> string" where
  "collectdGetPluginName name = (case last_index dot name of
      None \<Rightarrow> (name, '''')
    | Some index \<Rightarrow> (take index name, drop (index + 1) name))"

lemma last_index_None: "last_index sep s = None \<longleftrightarrow> sep \<notin> set s"
  by (induction s) (auto split: option.splits)

lemma last_index_Some:
  "last_index sep s = Some n \<Longrightarrow> s = take n s @ sep # drop (Suc n) s \<and> sep \<notin> set (drop (Suc n) s)"
proof (induction s arbitrary: n)
  case (Cons c s)
  then show ?case
    by (auto simp: last_index_None split: option.splits if_splits)
qed simp

lemma last_index_append: "sep \<notin> set i \<Longrightarrow> last_index sep (p @ sep # i) = Some (length p)"
  by (induction p) (auto simp: last_index_None split: option.splits)

lemma plugin_name_parts:
  assumes "collectdGetPluginName n = (q, j)"
  shows "n = (if dot \<in> set n then q @ dot # j else q) \<and> dot \<notin> set j \<and> (dot \<notin> set n \<longrightarrow> j = [])"
proof (cases "last_index dot n")
  case None
  with assms show ?thesis by (auto simp: collectdGetPluginName_def last_index_None)
next
  case (Some k)
  then have "dot \<in> set n" by (metis last_index_None option.distinct(1))
  with assms Some last_index_Some [OF Some] show ?thesis
    by (auto simp: collectdGetPluginName_def)
qed

text \<open>A name that does not end with the separator.\<close>

definition proper_name :: "string \<Rightarrow> bool" where
  "proper_name n \<longleftrightarrow> n = '''' \<or> last n \<noteq> dot"

lemma plugin_instance_nonempty:
  assumes "collectdGetPluginName n = (q, j)" "dot \<in> set n" "proper_name n"
  shows "j \<noteq> []"
proof
  assume "j = []"
  with plugin_name_parts [OF assms(1)] assms(2) have "n = q @ [dot]" by simp
  with assms(3) show False by (simp add: proper_name_def)
qed

lemma plugin_name_inj:
  assumes eq: "collectdGetPluginName n = collectdGetPluginName m" and n: "proper_name n" and m: "proper_name m"
  shows "n = m"
proof -
  obtain q j where nq: "collectdGetPluginName n = (q, j)" by fastforce
  with eq have mq: "collectdGetPluginName m = (q, j)" by simp
  from plugin_name_parts [OF nq] plugin_name_parts [OF mq] plugin_instance_nonempty [OF nq _ n]
    plugin_instance_nonempty [OF mq _ m]
  show ?thesis by (auto split: if_splits)
qed

lemma plugin_name_join: "dot \<notin> set i \<Longrightarrow> collectdGetPluginName (p @ dot # i) = (p, i)"
  by (simp add: collectdGetPluginName_def last_index_append)

text \<open>
  Splitting a metric name for collectd loses nothing: a plugin and a plugin instance without
  a dot are found back, the parts of any name make up the name again, and two names that do not
  end with a dot never share both parts.
\<close>

theorem plugin_name_round_trip:
  "(dot \<notin> set i \<longrightarrow> collectdGetPluginName (p @ dot # i) = (p, i))
   \<and> (collectdGetPluginName n = (q, j) \<longrightarrow> n = (if dot \<in> set n then q @ dot # j else q) \<and> dot \<notin> set j)
   \<and> (collectdGetPluginName n = collectdGetPluginName m \<and> proper_name n \<and> proper_name m \<longrightarrow> n = m)"
  using plugin_name_join plugin_name_parts plugin_name_inj by blast

theorem plugin_name_round_trip_witness:
  "collectdGetPluginName ''netlink.route.updates'' = (''netlink.route'', ''updates'')"
  using plugin_name_round_trip [of "''updates''" "''netlink.route''"] by (simp add: dot_def)

section \<open>One report to collectd\<close>

text \<open>
  A metric of the registry with the values its library gives (the quantiles are those of the
  percentiles the code asks for); \<open>Unknown\<close> is a metric of any other type.
\<close>

record 'v snapshot =
  sn_count :: 'v
  sn_max :: 'v
  sn_mean :: 'v
  sn_min :: 'v
  sn_stddev :: 'v
  sn_percentile :: "nat \<Rightarrow> 'v"

datatype 'v metric =
    Gauge 'v
  | GaugeFloat64 'v
  | Counter 'v
  | Meter 'v 'v 'v 'v 'v
  | Histogram "'v snapshot"
  | Timer "'v snapshot"
  | Unknown

datatype 'v api_value = ApiGauge 'v | ApiCounter 'v

record 'v value_list =
  vl_Host :: string
  vl_Plugin :: string
  vl_PluginInstance :: string
  vl_Type :: string
  vl_Values :: "'v api_value list"

text \<open>The percentiles, in thousandths.\<close>

definition percentiles :: "nat list" where
  "percentiles = [500, 750, 950, 980, 990, 999]"

definition distribution :: "'v snapshot \<Rightarrow> 'v api_value list" where
  "distribution s = [ApiGauge (sn_max s), ApiGauge (sn_mean s), ApiGauge (sn_min s), ApiGauge (sn_stddev s)]
     @ map (\<lambda>p. ApiGauge (sn_percentile s p)) percentiles"

definition metric_values :: "'v metric \<Rightarrow> (string \<times> 'v api_value list) option" where
  "metric_values metric = (case metric of
      Gauge v \<Rightarrow> Some (''gauge'', [ApiGauge v])
    | GaugeFloat64 v \<Rightarrow> Some (''gauge'', [ApiGauge v])
    | Counter v \<Rightarrow> Some (''counter'', [ApiCounter v])
    | Meter n r1 r5 r15 rm \<Rightarrow> Some (''meter'', [ApiCounter n, ApiGauge r1, ApiGauge r5, ApiGauge r15, ApiGauge rm])
    | Histogram s \<Rightarrow> Some (''histogram'', ApiCounter (sn_count s) # distribution s)
    | Timer s \<Rightarrow> Some (''timer'', distribution s)
    | Unknown \<Rightarrow> None)"

datatype 'v collectd_effect =
    WriteCall "'v value_list"
  | MarkMeter string nat

definition value_list_of ::
    "string \<Rightarrow> string \<Rightarrow> string \<Rightarrow> string \<Rightarrow> 'v api_value list \<Rightarrow> 'v value_list" where
  "value_list_of host prefix name ty vs =
     (let (plugin, inst) = collectdGetPluginName name in
      \<lparr>vl_Host = host, vl_Plugin = prefix @ dot # plugin, vl_PluginInstance = inst, vl_Type = ty,
        vl_Values = vs\<rparr>)"

text \<open>The function given to \<^verbatim>\<open>Each\<close>: it appends to the value lists, or marks an unknown metric.\<close>

fun collect_metrics ::
    "string \<Rightarrow> string \<Rightarrow> (string \<times> 'v metric) list \<Rightarrow> 'v value_list list \<Rightarrow> 'v value_list list \<times> 'v collectd_effect list" where
  "collect_metrics host prefix [] vls = (vls, [])"
| "collect_metrics host prefix ((name, i) # ms) vls = (case metric_values i of
      None \<Rightarrow> (let (vls, es) = collect_metrics host prefix ms vls
                in (vls, MarkMeter ''reporter.metrics.collectd.unknown-metrics'' 1 # es))
    | Some (ty, vs) \<Rightarrow> collect_metrics host prefix ms (vls @ [value_list_of host prefix name ty vs]))"

text \<open>The write loop; \<open>write\<close> tells which value lists the client fails to send.\<close>

fun write_all ::
    "('v value_list \<Rightarrow> bool) \<Rightarrow> 'v value_list list \<Rightarrow> nat \<Rightarrow> nat \<Rightarrow> nat \<times> nat \<times> 'v collectd_effect list" where
  "write_all fails [] sent failed = (sent, failed, [])"
| "write_all fails (vl # vls) sent failed =
     (let (s, f, es) = if fails vl then write_all fails vls sent (failed + 1)
                       else write_all fails vls (sent + 1) failed
      in (s, f, WriteCall vl # es))"

definition mark_if_positive :: "string \<Rightarrow> nat \<Rightarrow> 'v collectd_effect list" where
  "mark_if_positive name n = (if n > 0 then [MarkMeter name n] else [])"

definition collectdReportOnce ::
    "string option \<Rightarrow> ('v value_list \<Rightarrow> bool) \<Rightarrow> string \<Rightarrow> (string \<times> 'v metric) list \<Rightarrow> 'v collectd_effect list" where
  "collectdReportOnce hostname fails prefix registry = (case hostname of
      None \<Rightarrow> []
    | Some host \<Rightarrow>
        let (vls, unknown) = collect_metrics host prefix registry [];
            (sent, failed, writes) = write_all fails vls 0 0 in
        unknown @ writes @ mark_if_positive ''reporter.metrics.collectd.sent-metrics'' sent
          @ mark_if_positive ''reporter.metrics.collectd.failed-writes'' failed)"

text \<open>The value lists a registry calls for.\<close>

definition known_lists :: "string \<Rightarrow> string \<Rightarrow> (string \<times> 'v metric) list \<Rightarrow> 'v value_list list" where
  "known_lists host prefix = List.map_filter (\<lambda>(name, i).
     map_option (\<lambda>(ty, vs). value_list_of host prefix name ty vs) (metric_values i))"

lemma collect_metrics_spec:
  "collect_metrics host prefix ms vls = (vls @ known_lists host prefix ms,
     replicate (length (filter (\<lambda>(name, i). metric_values i = None) ms))
       (MarkMeter ''reporter.metrics.collectd.unknown-metrics'' 1))"
  by (induction host prefix ms vls rule: collect_metrics.induct)
     (auto simp: known_lists_def List.map_filter_simps split: option.splits)

lemma write_all_spec:
  "write_all fails vls s f = (s + length (filter (\<lambda>v. \<not> fails v) vls), f + length (filter fails vls), map WriteCall vls)"
  by (induction fails vls s f rule: write_all.induct) auto

lemma known_lists_simps:
  "known_lists host prefix [] = []"
  "known_lists host prefix ((name, i) # ms) = (case metric_values i of
      None \<Rightarrow> known_lists host prefix ms
    | Some (ty, vs) \<Rightarrow> value_list_of host prefix name ty vs # known_lists host prefix ms)"
  by (auto simp: known_lists_def List.map_filter_simps split: option.splits)

definition vl_name :: "'v value_list \<Rightarrow> string \<times> string" where
  "vl_name v = (vl_Plugin v, vl_PluginInstance v)"

lemma vl_name_inj:
  "vl_name (value_list_of h p n t vs) = vl_name (value_list_of h p m t' vs') \<Longrightarrow> proper_name n \<Longrightarrow> proper_name m
     \<Longrightarrow> n = m"
  by (auto simp: vl_name_def value_list_of_def intro!: plugin_name_inj split: prod.splits)

lemma known_lists_names:
  "v \<in> set (known_lists host prefix ms) \<Longrightarrow> \<exists>n \<in> fst ` set ms. \<exists>ty vs. v = value_list_of host prefix n ty vs"
proof -
  assume "v \<in> set (known_lists host prefix ms)"
  then obtain m where m: "m \<in> set ms" "v = value_list_of host prefix (fst m) (fst (the (metric_values (snd m))))
      (snd (the (metric_values (snd m))))"
    by (auto simp: known_lists_def List.map_filter_def case_prod_beta)
  then show ?thesis by blast
qed

lemma known_lists_distinct:
  assumes "distinct (map fst ms)" and "\<forall>n \<in> fst ` set ms. proper_name n"
  shows "distinct (map vl_name (known_lists host prefix ms))"
  using assms
proof (induction ms)
  case (Cons m ms)
  obtain name i where m: "m = (name, i)" by fastforce
  have new: "vl_name (value_list_of host prefix name ty vs) \<notin> vl_name ` set (known_lists host prefix ms)" for ty vs
  proof
    assume "vl_name (value_list_of host prefix name ty vs) \<in> vl_name ` set (known_lists host prefix ms)"
    then obtain v where v: "v \<in> set (known_lists host prefix ms)"
        "vl_name (value_list_of host prefix name ty vs) = vl_name v" by blast
    from known_lists_names [OF v(1)] obtain n ty' vs' where n: "n \<in> fst ` set ms"
      and e: "v = value_list_of host prefix n ty' vs'" by blast
    have "name = n" using Cons.prems(2) m n v(2) e by (intro vl_name_inj) auto
    with n Cons.prems(1) m show False by simp
  qed
  have IH: "distinct (map vl_name (known_lists host prefix ms))" using Cons by simp
  show ?case
  proof (cases "metric_values i")
    case None
    with IH m show ?thesis by (simp add: known_lists_simps)
  next
    case (Some p)
    with IH m new [of "fst p" "snd p"] show ?thesis by (simp add: known_lists_simps case_prod_beta)
  qed
qed (simp add: known_lists_simps)

text \<open>The value lists of a trace, in order, and the total of the marks of a meter.\<close>

definition written :: "'v collectd_effect list \<Rightarrow> 'v value_list list" where
  "written es = List.map_filter (\<lambda>e. case e of WriteCall v \<Rightarrow> Some v | MarkMeter n k \<Rightarrow> None) es"

definition marked :: "string \<Rightarrow> 'v collectd_effect list \<Rightarrow> nat" where
  "marked name es = sum_list (map (\<lambda>e. case e of MarkMeter n k \<Rightarrow> if n = name then k else 0 | WriteCall v \<Rightarrow> 0) es)"

lemma written_simps [simp]:
  "written [] = []" "written (WriteCall v # es) = v # written es" "written (MarkMeter n k # es) = written es"
  "written (xs @ ys) = written xs @ written ys" "written (map WriteCall vs) = vs"
  "written (replicate m (MarkMeter n k)) = []" "written (mark_if_positive n k) = []"
proof -
  show app: "written (xs @ ys) = written xs @ written ys" for xs ys :: "'v collectd_effect list"
    by (induction xs) (auto simp: written_def List.map_filter_simps split: option.splits)
  show "written (map WriteCall vs) = vs" by (induction vs) (simp_all add: written_def List.map_filter_simps)
  show "written (replicate m (MarkMeter n k)) = []" by (induction m) (simp_all add: written_def List.map_filter_simps)
qed (simp_all add: written_def List.map_filter_simps mark_if_positive_def)

lemma marked_simps [simp]:
  "marked n [] = 0" "marked n (xs @ ys) = marked n xs + marked n ys" "marked n (map WriteCall vs) = 0"
  "marked n (replicate m (MarkMeter n' k)) = (if n' = n then m * k else 0)"
  "marked n (mark_if_positive n' k) = (if n' = n then k else 0)"
  by (induction vs) (auto simp: marked_def mark_if_positive_def sum_list_replicate)

text \<open>
  C40. A report writes one value list per metric of a known type, in the order of the registry;
  metrics with different names that do not end with a dot get different plugins or instances;
  and the three meters count the metrics sent, those that failed and those of an unknown type.
\<close>

theorem collectd_report_spec:
  assumes "distinct (map fst registry)" and "\<forall>n \<in> fst ` set registry. proper_name n"
    and "es = collectdReportOnce (Some host) fails prefix registry"
  shows "written es = known_lists host prefix registry
     \<and> distinct (map vl_name (written es))
     \<and> marked ''reporter.metrics.collectd.sent-metrics'' es + marked ''reporter.metrics.collectd.failed-writes'' es
         + marked ''reporter.metrics.collectd.unknown-metrics'' es = length registry
     \<and> marked ''reporter.metrics.collectd.failed-writes'' es = length (filter fails (written es))
     \<and> marked ''reporter.metrics.collectd.unknown-metrics'' es
         = length (filter (\<lambda>(n, i). metric_values i = None) registry)"
proof -
  have w: "written es = known_lists host prefix registry"
    by (simp add: assms(3) collectdReportOnce_def collect_metrics_spec write_all_spec)
  have known: "length (known_lists host prefix ms) + length (filter (\<lambda>(n, i). metric_values i = None) ms) = length ms"
    for ms :: "(string \<times> 'a metric) list"
    by (induction ms) (auto simp: known_lists_simps split: option.splits)
  show ?thesis
    using known [of registry] sum_length_filter_compl [of fails "known_lists host prefix registry"]
      known_lists_distinct [OF assms(1,2), of host prefix]
    unfolding w by (simp add: assms(3) collectdReportOnce_def collect_metrics_spec write_all_spec)
qed

theorem collectd_report_spec_witness:
  "written (collectdReportOnce (Some ''router'') (\<lambda>v. vl_Type v = ''gauge'') ''lrg''
      [(''netlink.route.updates'', Counter (7 :: nat)), (''gateways.0.state'', Gauge 2), (''odd'', Unknown)])
    = [\<lparr>vl_Host = ''router'', vl_Plugin = ''lrg.netlink.route'', vl_PluginInstance = ''updates'', vl_Type = ''counter'',
        vl_Values = [ApiCounter 7]\<rparr>,
       \<lparr>vl_Host = ''router'', vl_Plugin = ''lrg.gateways.0'', vl_PluginInstance = ''state'', vl_Type = ''gauge'',
        vl_Values = [ApiGauge 2]\<rparr>]"
  using collectd_report_spec [of "[(''netlink.route.updates'', Counter (7 :: nat)), (''gateways.0.state'', Gauge 2),
      (''odd'', Unknown)]" _ "''router''" "\<lambda>v. vl_Type v = ''gauge''" "''lrg''"]
  by (simp add: proper_name_def dot_def known_lists_simps metric_values_def value_list_of_def collectdGetPluginName_def)

end
