(* ===== verification/Test_Doubles.thy ===== *)
theory Test_Doubles
  imports Netlink_Observer Daemon_Lifecycle Reporter_Log
begin

text \<open>
  The components that stand in for the real ones in the tests (\<^verbatim>\<open>tests.go\<close> of \<^verbatim>\<open>src/netlink\<close>,
  \<^verbatim>\<open>src/daemon\<close> and \<^verbatim>\<open>src/reporter\<close>). What a client relies on is a locale, which the double and the
  component it stands for both interpret.
\<close>

section \<open>The netlink component\<close>

text \<open>\<^verbatim>\<open>mockComponent\<close>: the observer, and the function that stands for the kernel; \<open>None\<close> is a \<^verbatim>\<open>nil\<close> error.\<close>

record 'x netlink_mock =
  mock_obs :: observer
  addRouteCallback :: "'x route \<Rightarrow> err option"

definition netlink_NewMock :: "('x route \<Rightarrow> err option) \<Rightarrow> 'x netlink_mock" where
  "netlink_NewMock f = \<lparr>mock_obs = newObserver, addRouteCallback = f\<rparr>"

definition netlink_mock_Start :: "'x netlink_mock \<Rightarrow> 'x netlink_mock" where
  "netlink_mock_Start m = m"

definition netlink_mock_Stop :: "'x netlink_mock \<Rightarrow> 'x netlink_mock" where
  "netlink_mock_Stop m = m"

definition netlink_mock_AddRoute :: "'x route \<Rightarrow> 'x netlink_mock \<Rightarrow> err option" where
  "netlink_mock_AddRoute r m = addRouteCallback m r"

text \<open>\<^verbatim>\<open>inject\<close> notifies the subscriber.\<close>

definition inject :: "'x notification \<Rightarrow> 'x netlink_mock \<Rightarrow> (callback_name \<times> 'x notification) list" where
  "inject n m = notify (mock_obs m) n"

text \<open>\<^verbatim>\<open>Subscribe\<close> of the embedded observer.\<close>

definition netlink_mock_Subscribe :: "callback_name option \<Rightarrow> 'x netlink_mock \<Rightarrow> panic + 'x netlink_mock" where
  "netlink_mock_Subscribe cb m = (case Subscribe cb (mock_obs m) of
      Inl p \<Rightarrow> Inl p | Inr obs \<Rightarrow> Inr (m\<lparr>mock_obs := obs\<rparr>))"

text \<open>A use of such a component: subscriptions and published values.\<close>

primrec run_uses ::
    "(callback_name option \<Rightarrow> 's \<Rightarrow> panic + 's) \<Rightarrow> ('n \<Rightarrow> 's \<Rightarrow> (callback_name \<times> 'n) list)
      \<Rightarrow> (callback_name option + 'n) list \<Rightarrow> 's \<Rightarrow> panic + (callback_name \<times> 'n) list" where
  "run_uses subscribe publish [] s = Inr []"
| "run_uses subscribe publish (u # us) s = (case u of
      Inl cb \<Rightarrow> (case subscribe cb s of Inl p \<Rightarrow> Inl p | Inr t \<Rightarrow> run_uses subscribe publish us t)
    | Inr n \<Rightarrow> (case run_uses subscribe publish us s of Inl p \<Rightarrow> Inl p | Inr cs \<Rightarrow> Inr (publish n s @ cs)))"

text \<open>Each value goes to the callback of the last subscription before it, if any.\<close>

primrec expected_calls :: "callback_name option \<Rightarrow> (callback_name option + 'n) list \<Rightarrow> (callback_name \<times> 'n) list" where
  "expected_calls sub [] = []"
| "expected_calls sub (u # us) = (case u of
      Inl cb \<Rightarrow> expected_calls cb us
    | Inr n \<Rightarrow> (case sub of None \<Rightarrow> [] | Some cb \<Rightarrow> [(cb, n)]) @ expected_calls sub us)"

text \<open>What a subscriber relies on: it can subscribe at any time, and gets what is published after that.\<close>

locale publisher =
  fixes ok :: "'s \<Rightarrow> bool"
    and subscribe :: "callback_name option \<Rightarrow> 's \<Rightarrow> panic + 's"
    and publish :: "'n \<Rightarrow> 's \<Rightarrow> (callback_name \<times> 'n) list"
    and subscriber :: "'s \<Rightarrow> callback_name option"
  assumes subscribe_ok: "ok s \<Longrightarrow> \<exists>t. subscribe cb s = Inr t \<and> ok t \<and> subscriber t = cb"
    and publish_subscriber: "publish n s = (case subscriber s of None \<Rightarrow> [] | Some cb \<Rightarrow> [(cb, n)])"
begin

lemma run_uses_expected: "ok s \<Longrightarrow> run_uses subscribe publish us s = Inr (expected_calls (subscriber s) us)"
proof (induction us arbitrary: s)
  case (Cons u us)
  show ?case
  proof (cases u)
    case (Inl cb)
    from subscribe_ok [OF Cons.prems, of cb] obtain t where
      "subscribe cb s = Inr t" "ok t" "subscriber t = cb" by blast
    with Inl Cons.IH show ?thesis by simp
  next
    case (Inr n)
    with Cons.IH [OF Cons.prems] show ?thesis using publish_subscriber [of n s] by simp
  qed
qed simp

end

interpretation real: publisher observer_ok Subscribe "\<lambda>n obs. notify obs n" callback
  by unfold_locales (auto simp: Subscribe_ok observer_ok_def notify_def)

interpretation mock: publisher "\<lambda>m. observer_ok (mock_obs m)" netlink_mock_Subscribe inject "\<lambda>m. callback (mock_obs m)"
  by unfold_locales (auto simp: netlink_mock_Subscribe_def inject_def notify_def Subscribe_ok observer_ok_def)

section \<open>The daemon component\<close>

text \<open>\<^verbatim>\<open>MockComponent\<close> has the lifecycle of the real component and nothing else.\<close>

definition daemon_NewMock :: daemon where
  "daemon_NewMock = New_daemon"

definition daemon_mock_Start :: "daemon \<Rightarrow> (daemon_effect, daemon) go" where
  "daemon_mock_Start d = go_return d"

definition daemon_mock_Stop :: "daemon \<Rightarrow> (daemon_effect, daemon) go" where
  "daemon_mock_Stop d = Terminate d"

definition daemon_mock_Ready :: "(daemon_effect, unit) go" where
  "daemon_mock_Ready = go_return ()"

definition daemon_mock_Watchdog :: "daemon \<Rightarrow> nat option" where
  "daemon_mock_Watchdog d = None"

definition daemon_mock_TickWatchdog :: "(daemon_effect, unit) go" where
  "daemon_mock_TickWatchdog = go_return ()"

text \<open>A list of requests; \<open>True\<close> is a stop, \<open>False\<close> a termination.\<close>

primrec run_requests ::
    "('d \<Rightarrow> ('e, 'd) go) \<Rightarrow> ('d \<Rightarrow> ('e, 'd) go) \<Rightarrow> bool list \<Rightarrow> 'd \<Rightarrow> ('e, 'd) go" where
  "run_requests terminate halt [] d = go_return d"
| "run_requests terminate halt (b # bs) d =
     go_bind (if b then halt d else terminate d) (run_requests terminate halt bs)"

text \<open>What a client relies on: termination and the stop can be asked for in any order, any number of times.\<close>

locale lifecycle =
  fixes ok :: "'d \<Rightarrow> bool"
    and terminate :: "'d \<Rightarrow> ('e, 'd) go"
    and halt :: "'d \<Rightarrow> ('e, 'd) go"
    and over :: "'d \<Rightarrow> bool"
  assumes terminate_ok: "ok d \<Longrightarrow> \<exists>d' es. terminate d = Inr (d', es) \<and> ok d' \<and> over d'"
    and halt_ok: "ok d \<Longrightarrow> \<exists>d' es. halt d = Inr (d', es) \<and> ok d' \<and> over d'"
begin

lemma requests_end:
  "ok d \<Longrightarrow> \<exists>d' es. run_requests terminate halt bs d = Inr (d', es) \<and> ok d' \<and> over d' = (bs \<noteq> [] \<or> over d)"
proof (induction bs arbitrary: d)
  case Nil
  then show ?case by (simp add: go_return_def)
next
  case (Cons b bs)
  obtain d' es where "(if b then halt d else terminate d) = Inr (d', es)" "ok d'" "over d'"
    using terminate_ok [OF Cons.prems] halt_ok [OF Cons.prems] by (cases b) auto
  with Cons.IH [of d'] show ?case by (auto simp: go_bind_def)
qed

end

text \<open>The once of the termination goes with the channel.\<close>

definition lifecycle_ok :: "daemon \<Rightarrow> bool" where
  "lifecycle_ok d \<longleftrightarrow> terminate_once d = terminated d"

lemma Terminate_ok: "lifecycle_ok d \<Longrightarrow> \<exists>d'. Terminate d = Inr (d', []) \<and> lifecycle_ok d' \<and> terminated d'"
  by (auto simp: lifecycle_ok_def Terminate_def go_return_def)

interpretation real_life: lifecycle lifecycle_ok Terminate Stop_daemon terminated
proof
  fix d assume ok: "lifecycle_ok d"
  then show "\<exists>d' es. Terminate d = Inr (d', es) \<and> lifecycle_ok d' \<and> terminated d'"
    using Terminate_ok by blast
  have "lifecycle_ok (d\<lparr>watchdogTicker := None\<rparr>)" using ok by (simp add: lifecycle_ok_def)
  with ok show "\<exists>d' es. Stop_daemon d = Inr (d', es) \<and> lifecycle_ok d' \<and> terminated d'"
    using Terminate_ok [of d] Terminate_ok [of "d\<lparr>watchdogTicker := None\<rparr>"]
    by (cases "watchdogTicker d") (auto simp: Stop_daemon_def stopWatchdog_def go_bind_def go_return_def go_emit_def)
qed

interpretation mock_life: lifecycle lifecycle_ok Terminate daemon_mock_Stop terminated
  using Terminate_ok by unfold_locales (fastforce simp: daemon_mock_Stop_def)+

section \<open>The reporter\<close>

text \<open>\<^verbatim>\<open>NewMock\<close> and \<^verbatim>\<open>NewSilentMock\<close>; an error of \<^verbatim>\<open>New\<close> (\<open>Inl\<close>) is a panic with it.\<close>

definition mock_reporting :: "logging_config \<Rightarrow> reporting_config" where
  "mock_reporting lg = \<lparr>Logging = lg, Sentry = \<lparr>DSN = '''', Tags = Map.empty\<rparr>, Metrics = []\<rparr>"

definition reporter_NewMock :: "log_backends \<Rightarrow> err + reporter" where
  "reporter_NewMock B = reporter_New B (mock_reporting \<lparr>Level = LvlDebug, Console = True, Syslog = False, Files = []\<rparr>)"

definition reporter_NewSilentMock :: "log_backends \<Rightarrow> err + reporter" where
  "reporter_NewSilentMock B = reporter_New B (mock_reporting \<lparr>Level = 0, Console = False, Syslog = False, Files = []\<rparr>)"

text \<open>
  The components used in the tests keep the contracts of those they stand for. The netlink
  double calls the same callbacks as the real observer for every sequence of subscriptions and
  notifications, each notification going to the last subscriber; the daemon double, like the
  real component, is over after any non-empty sequence of stops and terminations, without a panic;
  the reporters are created whatever the outputs of the machine, the silent one writes nothing for
  any call, and neither sends anything to Sentry.
\<close>

theorem test_doubles_keep_contracts:
  "run_uses Subscribe (\<lambda>n obs. notify obs n) us newObserver = Inr (expected_calls None us)
     \<and> run_uses netlink_mock_Subscribe inject us (netlink_NewMock f) = Inr (expected_calls None us)
     \<and> (\<exists>d es. run_requests Terminate Stop_daemon bs New_daemon = Inr (d, es) \<and> terminated d = (bs \<noteq> []))
     \<and> (\<exists>d es. run_requests Terminate daemon_mock_Stop bs daemon_NewMock = Inr (d, es) \<and> terminated d = (bs \<noteq> []))
     \<and> (\<exists>rp. reporter_NewMock B = Inr rp \<and> \<not> lg_Sentry (rp_logger rp))
     \<and> (\<exists>rp. reporter_NewSilentMock B = Inr rp \<and> log_call R to_json now calls lvl msg ctx rp = Inr ((), []))"
proof (intro conjI)
  show "run_uses Subscribe (\<lambda>n obs. notify obs n) us newObserver = Inr (expected_calls None us)"
    using real.run_uses_expected [OF observer_ok_new, of us] by (simp add: newObserver_def)
  show "run_uses netlink_mock_Subscribe inject us (netlink_NewMock f) = Inr (expected_calls None us)"
    using mock.run_uses_expected [of "netlink_NewMock f" us] by (simp add: netlink_NewMock_def newObserver_def observer_ok_def)
  have start: "lifecycle_ok New_daemon" "\<not> terminated New_daemon" by (simp_all add: lifecycle_ok_def New_daemon_def)
  show "\<exists>d es. run_requests Terminate Stop_daemon bs New_daemon = Inr (d, es) \<and> terminated d = (bs \<noteq> [])"
    using real_life.requests_end [OF start(1), of bs] start(2) by auto
  show "\<exists>d es. run_requests Terminate daemon_mock_Stop bs daemon_NewMock = Inr (d, es) \<and> terminated d = (bs \<noteq> [])"
    using mock_life.requests_end [OF start(1), of bs] start(2) by (auto simp: daemon_NewMock_def)
qed (simp_all add: reporter_NewMock_def reporter_NewSilentMock_def mock_reporting_def reporter_New_def sentry_New_def
    logger_New_def Let_def log_call_def log_dispatch_def go_bind_def go_return_def)

end
