(* ===== verification/Text_Helpers.thy ===== *)
theory Text_Helpers
  imports Reporter_Log "HOL-Library.Sublist"
begin

text \<open>
  \<^verbatim>\<open>TrimSpaces\<close> of \<^verbatim>\<open>src/helpers/tests.go\<close>, with which the tests compare texts: it repeats four
  replacements until they change nothing. \<^verbatim>\<open>strings.Replace\<close> with a negative count replaces, from left to
  right, all occurrences that do not overlap.
\<close>

section \<open>Replacing\<close>

text \<open>The program only replaces non-empty texts; an empty one is left alone here.\<close>

function replace_all :: "string \<Rightarrow> string \<Rightarrow> string \<Rightarrow> string" where
  "replace_all old new [] = []"
| "replace_all old new (c # cs) =
     (if old \<noteq> [] \<and> prefix old (c # cs) then new @ replace_all old new (drop (length old) (c # cs))
      else c # replace_all old new cs)"
  by pat_completeness auto
termination by (relation "measure (\<lambda>(old, new, s). length s)") (auto simp: Suc_le_eq)

definition tabulator :: char where "tabulator = CHR 0x09"
definition line_end :: char where "line_end = CHR 0x0A"
definition blank :: char where "blank = CHR 0x20"

lemma blanks_distinct [simp]: "tabulator \<noteq> blank" "blank \<noteq> tabulator" "line_end \<noteq> blank" "blank \<noteq> line_end"
    "tabulator \<noteq> line_end" "line_end \<noteq> tabulator"
  by (simp_all add: tabulator_def line_end_def blank_def)

text \<open>The body of the loop.\<close>

definition squeeze :: "string \<Rightarrow> string" where
  "squeeze s =
     replace_all [blank, line_end] [line_end]
      (replace_all [line_end, blank] [line_end]
       (replace_all [blank, blank] [blank]
        (replace_all [tabulator] [blank] s)))"

section \<open>One replacement\<close>

lemma replace_length:
  "length new \<le> length old \<Longrightarrow> length (replace_all old new s) \<le> length s"
proof (induction old new s rule: replace_all.induct)
  case (2 old new c cs)
  show ?case
  proof (cases "old \<noteq> [] \<and> prefix old (c # cs)")
    case True
    then have "length old \<le> length (c # cs)" by (auto dest: prefix_length_le)
    with 2 True show ?thesis by simp
  next
    case False
    with 2 show ?thesis by auto
  qed
qed simp

lemma replace_same:
  assumes "length new < length old" and "length (replace_all old new s) = length s"
  shows "\<not> sublist old s \<and> replace_all old new s = s"
  using assms
proof (induction old new s rule: replace_all.induct)
  case (1 old new)
  then show ?case by auto
next
  case (2 old new c cs)
  have le: "length (replace_all old new s) \<le> length s" for s
    using 2(3) by (intro replace_length) simp
  have no: "\<not> (old \<noteq> [] \<and> prefix old (c # cs))"
  proof
    assume p: "old \<noteq> [] \<and> prefix old (c # cs)"
    then have "length old \<le> length (c # cs)" by (auto dest: prefix_length_le)
    with le [of "drop (length old) (c # cs)"] 2(3,4) p show False by simp
  qed
  with 2 show ?case by (auto simp: sublist_Cons_right)
qed

lemma replace_absent: "old \<noteq> [] \<Longrightarrow> \<not> sublist old s \<Longrightarrow> replace_all old new s = s"
  by (induction old new s rule: replace_all.induct) (auto simp: sublist_Cons_right)

lemma replace_char: "replace_all [a] [b] s = map (\<lambda>c. if c = a then b else c) s"
  by (induction "[a]" "[b]" s rule: replace_all.induct) auto

section \<open>The loop\<close>

text \<open>What the loop is about: no tab, no two spaces in a row, no space beside the end of a line.\<close>

definition tidy :: "string \<Rightarrow> bool" where
  "tidy s \<longleftrightarrow> tabulator \<notin> set s \<and> \<not> sublist [blank, blank] s \<and> \<not> sublist [line_end, blank] s
     \<and> \<not> sublist [blank, line_end] s"

lemma replace_length':
  "length new \<le> length old \<Longrightarrow> length s \<le> k \<Longrightarrow> length (replace_all old new s) \<le> k"
  using replace_length [of new old s] by linarith

lemma squeeze_length: "length (squeeze s) \<le> length s"
  unfolding squeeze_def by (intro replace_length') simp_all

text \<open>If the length stays, only tabs were replaced, and the result is tidy.\<close>

lemma squeeze_same_length:
  assumes "length (squeeze s) = length s"
  shows "squeeze s = map (\<lambda>c. if c = tabulator then blank else c) s \<and> tidy (squeeze s)"
proof -
  let ?t = "replace_all [tabulator] [blank] s"
  let ?u = "replace_all [blank, blank] [blank] ?t"
  let ?v = "replace_all [line_end, blank] [line_end] ?u"
  have t: "?t = map (\<lambda>c. if c = tabulator then blank else c) s" by (rule replace_char)
  have le: "length ?u \<le> length ?t" "length ?v \<le> length ?u" "length (squeeze s) \<le> length ?v"
    unfolding squeeze_def by (rule replace_length; simp)+
  moreover have "length ?t = length s" by (simp add: t)
  ultimately have eq: "length ?u = length ?t" "length ?v = length ?u" "length (squeeze s) = length ?v"
    using assms by linarith+
  have u: "\<not> sublist [blank, blank] ?t" "?u = ?t" using replace_same [OF _ eq(1)] by simp_all
  have v: "\<not> sublist [line_end, blank] ?t" "?v = ?t" using replace_same [OF _ eq(2)] u by simp_all
  have w: "\<not> sublist [blank, line_end] ?t" "squeeze s = ?t"
    using replace_same [OF _ eq(3) [unfolded squeeze_def]] v by (simp_all add: squeeze_def)
  have "tabulator \<notin> set ?t" unfolding t by auto
  with u(1) v(1) w t show ?thesis by (simp add: tidy_def)
qed

lemma squeeze_tidy: "tidy s \<Longrightarrow> squeeze s = s"
proof -
  assume t: "tidy s"
  then have "map (\<lambda>c. if c = tabulator then blank else c) s = s" by (auto simp: tidy_def intro: map_idI)
  with t show ?thesis by (simp add: squeeze_def replace_char replace_absent tidy_def)
qed

definition tabs :: "string \<Rightarrow> nat" where
  "tabs s = count_list s tabulator"

lemma squeeze_smaller:
  assumes "squeeze s \<noteq> s"
  shows "(squeeze s, s) \<in> measures [length, tabs]"
proof (cases "length (squeeze s) = length s")
  case True
  note same = squeeze_same_length [OF True]
  have "tabulator \<in> set s"
  proof (rule ccontr)
    assume "tabulator \<notin> set s"
    then have "map (\<lambda>c. if c = tabulator then blank else c) s = s" by (auto intro: map_idI)
    with same assms show False by simp
  qed
  moreover have "tabulator \<notin> set (squeeze s)" using conjunct2 [OF same] by (simp add: tidy_def)
  ultimately have "tabs (squeeze s) < tabs s"
    by (metis count_list_0_iff gr0I tabs_def)
  with True show ?thesis by simp
next
  case False
  with squeeze_length [of s] show ?thesis by simp
qed

text \<open>\<^verbatim>\<open>for output != next\<close>; the two variables hold the text before and after a round.\<close>

function trim_loop :: "string \<Rightarrow> string \<Rightarrow> string" where
  "trim_loop out nxt = (if out = nxt then out else trim_loop nxt (squeeze nxt))"
  by pat_completeness auto

termination
proof (relation "measures [\<lambda>(out, nxt). length nxt, \<lambda>(out, nxt). tabs nxt, \<lambda>(out, nxt). if out = nxt then 0 else 1]")
  show "wf (measures [\<lambda>(out, nxt). length nxt, \<lambda>(out, nxt). tabs nxt, \<lambda>(out, nxt). if out = nxt then 0 else 1])"
    by simp
  fix out nxt :: string
  assume "out \<noteq> nxt"
  then show "((nxt, squeeze nxt), out, nxt)
      \<in> measures [\<lambda>(out, nxt). length nxt, \<lambda>(out, nxt). tabs nxt, \<lambda>(out, nxt). if out = nxt then 0 else 1]"
    using squeeze_smaller [of nxt] by (cases "squeeze nxt = nxt") auto
qed

declare trim_loop.simps [simp del]

definition TrimSpaces :: "string \<Rightarrow> string" where
  "TrimSpaces input = trim_space (trim_loop '''' input)"

section \<open>What the result looks like\<close>

lemma trim_loop_tidy: "nxt = squeeze out \<Longrightarrow> tidy (trim_loop out nxt)"
proof (induction out nxt rule: trim_loop.induct)
  case (1 out nxt)
  show ?case
  proof (cases "out = nxt")
    case True
    with 1(2) squeeze_same_length [of out] show ?thesis by (simp add: trim_loop.simps)
  next
    case False
    with 1 show ?thesis by (simp add: trim_loop.simps [of out])
  qed
qed

lemma tidy_empty [simp]: "tidy ''''"
  by (simp add: tidy_def)

lemma trimmed_tidy: "tidy (trim_loop '''' s)"
  by (cases "s = ''''") (simp_all add: trim_loop.simps [of "''''" s] trim_loop_tidy trim_loop.simps [of "''''" "''''"])

lemma trim_loop_tidy_id: "tidy s \<Longrightarrow> trim_loop '''' s = s"
  by (cases "s = ''''") (simp_all add: trim_loop.simps [of "''''"] trim_loop.simps [of s s] squeeze_tidy)

lemma tidy_sublist: "tidy s \<Longrightarrow> sublist t s \<Longrightarrow> tidy t"
  by (auto simp: tidy_def dest: set_mono_sublist sublist_order.order_trans)

text \<open>Trimming the ends.\<close>

lemma trim_space_parts: "\<exists>xs ys. s = xs @ trim_space s @ ys \<and> list_all white xs \<and> list_all white ys"
proof -
  let ?a = "dropWhile white s"
  have "s = takeWhile white s @ ?a" by simp
  moreover have "?a = trim_space s @ rev (takeWhile white (rev ?a))"
    unfolding trim_space_def rev_append [symmetric] by simp
  ultimately show ?thesis
    by (intro exI [of _ "takeWhile white s"] exI [of _ "rev (takeWhile white (rev ?a))"])
       (auto simp: list_all_iff dest: set_takeWhileD)
qed

lemma trim_space_ends:
  assumes "trim_space s \<noteq> ''''"
  shows "\<not> white (hd (trim_space s)) \<and> \<not> white (last (trim_space s))"
proof -
  let ?a = "dropWhile white s" and ?b = "dropWhile white (rev (dropWhile white s))"
  have b: "trim_space s = rev ?b" by (simp add: trim_space_def)
  have "?a = rev ?b @ rev (takeWhile white (rev ?a))" unfolding rev_append [symmetric] by simp
  then have "hd (rev ?b) = hd ?a" "?a \<noteq> []" using assms by (metis b hd_append2, metis append_is_Nil_conv b)
  moreover have "\<not> white (hd ?b)" using assms b by (intro hd_dropWhile) auto
  ultimately show ?thesis using assms b hd_dropWhile [of white s] by (simp add: last_rev)
qed

lemma dropWhile_keeps: "xs = [] \<or> \<not> P (hd xs) \<Longrightarrow> dropWhile P xs = xs"
  by (cases xs) auto

lemma trim_space_id: "(s \<noteq> '''' \<Longrightarrow> \<not> white (hd s) \<and> \<not> white (last s)) \<Longrightarrow> trim_space s = s"
  by (cases "s = ''''") (simp_all add: trim_space_def dropWhile_keeps hd_rev)

text \<open>What is not white space stays.\<close>

definition ink :: "string \<Rightarrow> string" where
  "ink s = filter (\<lambda>c. \<not> white c) s"

lemma ink_simps [simp]:
  "ink '''' = ''''" "ink (s @ t) = ink s @ ink t" "ink (c # s) = (if white c then ink s else c # ink s)"
  by (simp_all add: ink_def)

lemma ink_white: "list_all white s \<Longrightarrow> ink s = ''''"
  by (simp add: ink_def list_all_iff)

lemma white_blanks [simp]: "white tabulator" "white blank" "white line_end"
  by (simp_all add: white_def tabulator_def blank_def line_end_def)

lemma ink_replace:
  assumes "list_all white old" and "list_all white new"
  shows "ink (replace_all old new s) = ink s"
  using assms
proof (induction old new s rule: replace_all.induct)
  case (2 old new c cs)
  show ?case
  proof (cases "old \<noteq> [] \<and> prefix old (c # cs)")
    case True
    then have "c # cs = old @ drop (length old) (c # cs)" by (auto simp: prefix_def)
    then have "ink (c # cs) = ink (drop (length old) (c # cs))"
      using ink_white [OF 2(3)] by (metis append_Nil ink_simps(2))
    with True 2 ink_white [OF 2(4)] show ?thesis by (simp del: ink_simps(3))
  qed (use 2 in auto)
qed simp

lemma ink_squeeze: "ink (squeeze s) = ink s"
  by (simp add: squeeze_def ink_replace)

lemma ink_loop: "ink (trim_loop out nxt) = ink nxt"
proof (induction out nxt rule: trim_loop.induct)
  case (1 out nxt)
  then show ?case by (cases "out = nxt") (simp_all add: trim_loop.simps [of out nxt] trim_loop.simps [of nxt nxt] ink_squeeze)
qed

lemma ink_trim: "ink (trim_space s) = ink s"
  using trim_space_parts [of s] by (metis append_Nil append_Nil2 ink_simps(2) ink_white)

text \<open>
  \<^verbatim>\<open>TrimSpaces\<close> returns for every text; the result has no tab, no two spaces in a row, no space
  beside the end of a line and no white space at its ends, all characters of the text that are not white
  space are kept in order, and applying it again changes nothing, so two texts can be compared by
  comparing the results.
\<close>

theorem TrimSpaces_spec:
  "tidy (TrimSpaces s) \<and> ink (TrimSpaces s) = ink s
    \<and> (TrimSpaces s = '''' \<or> \<not> white (hd (TrimSpaces s)) \<and> \<not> white (last (TrimSpaces s)))
    \<and> TrimSpaces (TrimSpaces s) = TrimSpaces s"
proof -
  have tidy: "tidy (TrimSpaces s)"
    unfolding TrimSpaces_def using trim_space_parts [of "trim_loop '''' s"]
    by (metis trimmed_tidy tidy_sublist sublist_appendI)
  have ends: "TrimSpaces s = '''' \<or> \<not> white (hd (TrimSpaces s)) \<and> \<not> white (last (TrimSpaces s))"
    unfolding TrimSpaces_def using trim_space_ends by blast
  then have "trim_space (TrimSpaces s) = TrimSpaces s" by (intro trim_space_id) auto
  with tidy have "TrimSpaces (TrimSpaces s) = TrimSpaces s"
    by (simp add: TrimSpaces_def [of "TrimSpaces s"] trim_loop_tidy_id)
  with tidy ends show ?thesis by (simp add: TrimSpaces_def ink_trim ink_loop)
qed

section \<open>Differences\<close>

text \<open>
  \<^verbatim>\<open>Diff\<close> calls the pretty printer with its configuration; \<open>compare\<close> is the \<^verbatim>\<open>Compare\<close> of that library.
\<close>

record pretty_config =
  Diffable :: bool
  PrintStringers :: bool
  SkipZeroFields :: bool
  IncludeUnexported :: bool

definition prettyC :: pretty_config where
  "prettyC = \<lparr>Diffable = True, PrintStringers = True, SkipZeroFields = True, IncludeUnexported = False\<rparr>"

definition Diff :: "(pretty_config \<Rightarrow> 'a \<Rightarrow> 'a \<Rightarrow> string) \<Rightarrow> 'a \<Rightarrow> 'a \<Rightarrow> string" where
  "Diff compare a b = compare prettyC a b"

end
