(* ===== verification/Spec2Isabelle.thy ===== *)
theory Spec2Isabelle
  imports Missing_Routes Route_Reports Daemon_Hang Netlink_Resync Prefix_Text Command_Registration
    Metric_Names Test_Doubles Text_Helpers
begin

text \<open>
  A verification development for Last-Resort Gateway, a daemon written in Go that copies selected
  routes of the Linux kernel to a routing table or a protocol of its own and keeps the copies when the
  originals disappear.

  \<^bold>\<open>The program.\<close> \<^verbatim>\<open>main\<close> (\<^verbatim>\<open>src/main.go\<close>) runs a command of \<^verbatim>\<open>src/cmd\<close>. The \<^verbatim>\<open>daemon\<close> command reads a
  configuration and creates, starts and stops four components: the reporter (\<^verbatim>\<open>src/reporter\<close>: log,
  Sentry, metrics), the daemon component (\<^verbatim>\<open>src/daemon\<close>: signals, watchdog), the netlink component
  (\<^verbatim>\<open>src/netlink\<close>) and the gateways (\<^verbatim>\<open>src/gateways\<close>). The netlink component is a state machine that
  subscribes to the route changes of the kernel, dumps the routes of both families between a start-of-RIB
  and an end-of-RIB notification, passes live changes on, and starts again after a loss. Its single
  callback puts every notification into the channel of every gateway. The goroutine of a gateway keeps
  the candidate routes that match its \<^verbatim>\<open>from\<close> block, computes from them the target route of its \<^verbatim>\<open>to\<close>
  block, and installs it with a retry ticker. All report through the reporter.

  \<^bold>\<open>How code becomes definitions.\<close> A struct is a record with the code's field names, an enumeration a
  datatype, Go's \<^verbatim>\<open>int\<close> and \<^verbatim>\<open>uint\<close> are 64-bit words, an error or a panic is a value. A method that changes
  state is a function from the state to \<open>('e, 'a) go\<close>, which is either a panic or the result with the list
  of calls to collaborators, in order (\<open>LRG_Prelude\<close>). Pointers that may be \<^verbatim>\<open>nil\<close> are options, and their use is a
  panic. A channel is its content and its closed flag, a ticker is a number. A goroutine is a set of steps;
  a component with goroutines is an \<open>inductive\<close> step relation with one event per step, and what the
  scheduler, the kernel, a library or the operating system decides is in the event. Loops
  are structural recursions, except \<open>lead_ones\<close> and those of \<open>Text_Helpers\<close>, with a measure.

  \<^bold>\<open>Theories, in the order of the components.\<close>
  \<^item> \<open>LRG_Prelude\<close>: machine integers, errors, panics, the result type of Go code, decimal printing,
    splitting of strings, reachable states with their invariant rule (locale \<open>step_system\<close>), executions.
  \<^item> \<open>Go_Net\<close>, \<open>Kernel_Route\<close>: addresses, masks, \<^verbatim>\<open>helpers.IPNetEqual\<close>; routes, updates, notifications.
  \<^item> \<open>Gateway_Config\<close> (\<^verbatim>\<open>gateways/config.go\<close>), \<open>Gateway_Candidates\<close>, \<open>Gateway_Handler\<close>, \<open>Gateway_Loop\<close>
    (\<^verbatim>\<open>gateways/gateway.go\<close>: candidate list and choice of the target; \<^verbatim>\<open>processNotification\<close> and what it
    calls; \<^verbatim>\<open>runGateway\<close>), \<open>Gateway_Confirmed\<close> (what the kernel confirmed in a run), \<open>Route_Reports\<close> (what it reports about
    an installed route), \<open>Gateways_Component\<close> (\<^verbatim>\<open>gateways/root.go\<close>, with the cells of its loop variables),
    \<open>Gateways_Shutdown\<close> (its goroutines, the callback and \<^verbatim>\<open>Stop\<close> together), \<open>Gateways_History\<close> (what
    happened to each notification in a run), \<open>Gateways_Agreement\<close> (what the kernel confirmed to each gateway).
  \<^item> \<open>Netlink_Config\<close>, \<open>Netlink_Observer\<close>, \<open>Netlink_FSM\<close>, \<open>Netlink_Run\<close> (\<^verbatim>\<open>netlink/config.go\<close>,
    \<^verbatim>\<open>observer.go\<close>, \<^verbatim>\<open>root.go\<close>, \<^verbatim>\<open>add.go\<close>): every case of \<^verbatim>\<open>transition\<close> and of the \<^verbatim>\<open>select\<close> of \<^verbatim>\<open>run\<close>, the
    goroutines of \<^verbatim>\<open>injectRoutes\<close>, the library's side of the channels; \<open>Netlink_Invariant\<close>,
    \<open>Netlink_Properties\<close>, \<open>Netlink_Divergences\<close>, \<open>Netlink_Resync\<close>: their proofs.
  \<^item> \<open>Resync_Flow\<close>: the netlink component and a gateway together. The locale \<open>rib_source\<close> is the interface
    a gateway relies on; it is interpreted with the traces of the netlink component. \<open>Program_Flow\<close>: the
    netlink component and the gateways component in one step relation, as the \<^verbatim>\<open>daemon\<close> command starts them.
    \<open>Program_Schedules\<close>: its convergence, \<open>Program_Kernel\<close>: the routes it has in the kernel, \<open>Missing_Routes\<close>: those it
    wrongly believes to have there, \<open>Program_Shutdown\<close>: its end.
  \<^item> \<open>Whole_Daemon\<close>: that program with the daemon component, the metrics and the goroutine of the \<^verbatim>\<open>daemon\<close> command, which
    waits for the termination and stops the components; \<open>Daemon_End\<close>, \<open>Daemon_Hang\<close>: how it ends, or does not.
  \<^item> \<open>Rt_Files\<close>, \<open>Path_Config\<close>, \<open>Network_Config\<close>, \<open>Prefix_Text\<close> (\<^verbatim>\<open>src/config\<close>): names of tables and
    protocols, paths, prefixes, metrics, durations, and the texts of prefixes and gateways.
  \<^item> \<open>Metric_Names\<close>, \<open>Metrics_Exporters\<close>, \<open>Reporter_Log\<close> (\<^verbatim>\<open>src/reporter\<close>): names of metrics, reports to
    collectd, the exporters and the wait group between \<^verbatim>\<open>Start\<close> and \<^verbatim>\<open>Stop\<close>, the handlers of a log record,
    JSON lines, Sentry.
  \<^item> \<open>Daemon_Lifecycle\<close> (\<^verbatim>\<open>src/daemon\<close>), \<open>Daemon_Command\<close>, \<open>Command_Registration\<close> (\<^verbatim>\<open>src/cmd\<close>, \<^verbatim>\<open>src/main.go\<close>).
  \<^item> \<open>Test_Doubles\<close> (\<^verbatim>\<open>tests.go\<close> of the components; the locales \<open>publisher\<close> and \<open>lifecycle\<close> are what the double
    and the real component share), \<open>Text_Helpers\<close> (\<^verbatim>\<open>src/helpers/tests.go\<close>).

  \<^bold>\<open>What the theorems show.\<close>
  \<^item> End to end: in every run of the program each notification of the netlink component reaches every
    gateway once and in order, and the state of the gateway is computed from those it handled. Whatever
    the order in which the goroutines run, the steps that serve notifications are bounded, and when none is possible
    the gateways have caught up: after a dump they have exactly the matching routes the kernel listed as candidates
    and hold the target that follows, whatever they knew before. With a kernel that accepts the routes, it has
    confirmed these targets in the end; and a gateway without a pending installation is never wrong about the kernel.
  \<^item> The shutdown: components are stopped one after the other, each only when the goroutines of the one before have
    returned, and in the end no ticker runs, no installation is pending and every output is closed. While the gateways run, the command can
    end exactly when it was told to or the one signal it reads is not a SIGHUP. But there is also a run in which it hangs for ever in
    the \<^verbatim>\<open>Stop\<close> of the netlink component.
  \<^item> A gateway implements a specification with three components (candidates, current route, pending
    installation); it never forgets a last-resort route it holds, writes only routes of its own \<^verbatim>\<open>to\<close>
    block, leaks no ticker, retries until the kernel accepts; its only panic is a tick without a current
    route, and that one is reachable. The candidate list implements a map from slots to routes, and the chosen
    candidate is the first least one. Whenever no installation is pending, the current route is what the
    kernel confirmed last, and the target while there are candidates. That may no longer be in the kernel: a removal
    that was lost is not made good by the next dump; and a kernel that reports routes differently from what it was given
    makes the gateway install them again and again.
  \<^item> The netlink component, whose callback returns, never panics and never hangs, its dumps are complete and in order, the loss of
    the live channel is reported and leads to a new dump, which always completes with a kernel that
    answers; it stops when killed.
  \<^item> Decoders accept what they should and give values in range, in clean form, with the documented
    defaults; texts and values round-trip.
  \<^item> The daemon and the metrics close each channel once, stop their tickers and close their outputs;
    components are stopped in the reverse order of their start. Usage errors, and only they, are shown as such.
  \<^item> Departures of the code from its documentation, and bugs, are theorems as well: among them the
    loop variables of \<^verbatim>\<open>gateways.Start\<close>, the callback that may wait for ever after \<^verbatim>\<open>Stop\<close>, the useless cure timer, the signals lost after a SIGHUP, the route that is not restored, and the check
    that makes the \<^verbatim>\<open>daemon\<close> command refuse to start.

  \<^bold>\<open>Parameters and hypotheses.\<close> \<open>netlink_lib\<close>: the library's \<^verbatim>\<open>Route.Equal\<close> (\<open>lawful_Equal\<close>: an equivalence that
    compares the fields the program reads) and the fields the program never reads. \<open>kernel\<close>: its answers.
    \<open>documented\<close>: the netlink library closes a channel only after it called the error callback, and no route
    is in table 0. The YAML library is a function for each decoded structure (\<open>leaves_missing_keys\<close>: a key that is not
    in the document leaves its field alone). Files, the resolver, \<^verbatim>\<open>os.Stat\<close>, the working directory, the call stacks, the
    metrics registry and the outcome of opening an output are parameters. Texts of IPv6 addresses are
    written and read by parameters (\<open>lawful6\<close>: what is written is read back, and is no IPv4 text). The tomb library is an alive or dying flag, a mutex
    the atomicity of the operations it guards. Text arguments of error messages are appended to them instead of formatted.

  \<^bold>\<open>Bounds.\<close> The channel of a gateway has room for 100 notifications, as in the code; those of the netlink
    component for \<open>ChannelSize\<close>, which may be zero (then a send and a receive are one step). No definition uses
    fuel: the recursions are structural or have a measure, and the endless loops are step relations. \<open>work_left\<close> counts the steps a state of the program still
    needs. Termination claims (\<open>resync_always_completes\<close>, \<open>metrics_stop_returns\<close>) bound the steps by a measure of the state.

  \<^bold>\<open>Not modelled.\<close> Messages at level debug that only trace the flow; the formats of log15; the HTTP server of
    expvar, the JSON dump of the metrics registry, the runtime memory statistics themselves; \<^verbatim>\<open>MustStart\<close>;
    \<^verbatim>\<open>String\<close> of addresses and durations, which only call a library; what \<^verbatim>\<open>helpers.Diff\<close> prints. White space
    (\<^verbatim>\<open>TrimSpace\<close>) is that of ASCII. The command-line library is a parameter: what the arguments mean, and
    a \<^verbatim>\<open>Run\<close> that uses the callbacks as documented.

  The kernel's table itself is not part of the state: a kernel is its answers and the notifications it sends, so a claim that the
  notifications are true to one table would be a hypothesis about code the repository does not have. In \<open>Whole_Daemon\<close> all
  components have started; a start that fails is in \<open>Daemon_Command\<close>, with the components as parameters.
\<close>

end
